(* ===== verification/Prelude.thy ===== *)
theory Prelude
  imports Main "HOL-Library.Word"
begin

section \<open>Shared vocabulary: bytes, results, machine integers, decimal text\<close>

text \<open>
  What the component theories share. A buffer of the program (a \<open>std::string\<close> of payload, a
  \<open>std::vector\<close> of bytes, an array with a length) is a list of 8-bit words; an address, a
  name or a command argument is a \<open>string\<close>. Every way in which a C++ operation of the
  program fails is a value of \<open>error\<close>, and \<open>BadAccess\<close> is a read outside the buffer,
  which in C++ has undefined behaviour: a theorem that a definition never returns it says that the
  code never reads out of bounds. The host is little-endian (x86-64), which is the platform of the
  program's build files. \<open>size_t\<close> values that count bytes of a buffer in memory are naturals
  (a buffer is far below \<open>2^64\<close> bytes); integers read from the wire keep their width.
\<close>

named_theorems byte_simps "layout of byte buffers: lengths, reads and writes"

type_synonym byte = "8 word"
type_synonym bytes = "byte list"
type_synonym u16 = "16 word"
type_synonym u32 = "32 word"
type_synonym u64 = "64 word"

subsection \<open>Failing operations\<close>

datatype error =
    RuntimeError string
  | InvalidArgument string
  | NotImplemented string
  | ItemNotFound string
  | TooManyItems string
  | BadAccess

type_synonym 'a result = "error + 'a"

definition rbind :: "'a result \<Rightarrow> ('a \<Rightarrow> 'b result) \<Rightarrow> 'b result" where
  "rbind m f = (case m of Inl e \<Rightarrow> Inl e | Inr x \<Rightarrow> f x)"

lemma rbind_Inl [simp]: "rbind (Inl e) f = Inl e"
  by (simp add: rbind_def)

lemma rbind_Inr [simp]: "rbind (Inr x) f = f x"
  by (simp add: rbind_def)

lemma rbind_eq_Inr: "rbind m f = Inr y \<longleftrightarrow> (\<exists>x. m = Inr x \<and> f x = Inr y)"
  by (cases m) auto

lemma rbind_eq_Inl: "rbind m f = Inl e \<longleftrightarrow> m = Inl e \<or> (\<exists>x. m = Inr x \<and> f x = Inl e)"
  by (cases m) auto

lemma rbind_cong [fundef_cong]:
  "m = m' \<Longrightarrow> (\<And>x. m' = Inr x \<Longrightarrow> f x = f' x) \<Longrightarrow> rbind m f = rbind m' f'"
  by (cases m') auto

definition is_ok :: "'a result \<Rightarrow> bool" where
  "is_ok r = (case r of Inl _ \<Rightarrow> False | Inr _ \<Rightarrow> True)"

lemma is_ok_simps [simp]: "is_ok (Inr x)" "\<not> is_ok (Inl e)"
  by (simp_all add: is_ok_def)

lemma is_ok_rbind: "is_ok (rbind m f) \<longleftrightarrow> (\<exists>x. m = Inr x \<and> is_ok (f x))"
  by (cases m) auto

lemma is_okE: "is_ok m \<Longrightarrow> (\<And>x. m = Inr x \<Longrightarrow> P) \<Longrightarrow> P"
  by (cases m) auto

text \<open>No undefined behaviour on any path of a computation.\<close>

lemma rbind_safe:
  "m \<noteq> Inl BadAccess \<Longrightarrow> (\<And>x. m = Inr x \<Longrightarrow> f x \<noteq> Inl BadAccess) \<Longrightarrow> rbind m f \<noteq> Inl BadAccess"
  by (cases m) auto

lemma if_safe:
  "(c \<Longrightarrow> x \<noteq> Inl BadAccess) \<Longrightarrow> (\<not> c \<Longrightarrow> y \<noteq> Inl BadAccess) \<Longrightarrow> (if c then x else y) \<noteq> Inl BadAccess"
  by simp

lemma is_ok_safe: "is_ok m \<Longrightarrow> m \<noteq> Inl e"
  by auto

subsection \<open>Little-endian integers in memory\<close>

primrec le_nat :: "bytes \<Rightarrow> nat" where
  "le_nat [] = 0"
| "le_nat (b # bs) = unat b + 256 * le_nat bs"

primrec to_le :: "nat \<Rightarrow> nat \<Rightarrow> bytes" where
  "to_le 0 v = []"
| "to_le (Suc n) v = word_of_nat v # to_le n (v div 256)"

definition le_word :: "bytes \<Rightarrow> 'w::len word" where
  "le_word bs = word_of_nat (le_nat bs)"

definition word_le :: "nat \<Rightarrow> 'w::len word \<Rightarrow> bytes" where
  "word_le n w = to_le n (unat w)"

lemma length_to_le [simp, byte_simps]: "length (to_le n v) = n"
  by (induction n arbitrary: v) auto

lemma length_word_le [simp, byte_simps]: "length (word_le n w) = n"
  by (simp add: word_le_def)

lemma to_le_0 [simp]: "to_le n 0 = replicate n 0"
  by (induction n) auto

lemma word_le_0 [simp]: "word_le n (0 :: 'w::len word) = replicate n 0"
  by (simp add: word_le_def)

lemma unat_byte_less: "unat (b :: byte) < 256"
  using unsigned_less [of b, where ?'a = nat] by simp

lemma le_nat_less: "le_nat bs < 256 ^ length bs"
proof (induction bs)
  case (Cons b bs)
  then have "le_nat bs + 1 \<le> 256 ^ length bs" by simp
  then have "256 * (le_nat bs + 1) \<le> 256 * 256 ^ length bs" by (rule mult_le_mono2)
  with unat_byte_less [of b] show ?case by simp
qed simp

lemma le_nat_to_le: "le_nat (to_le n v) = v mod 256 ^ n"
proof (induction n arbitrary: v)
  case (Suc n)
  have "v mod (256 * 256 ^ n) = 256 * (v div 256 mod 256 ^ n) + v mod 256"
    by (rule mod_mult2_eq)
  with Suc show ?case by (simp add: unat_of_nat)
qed simp

lemma le_word_replicate_0 [simp]: "le_word (replicate n 0) = 0"
proof -
  have "le_nat (replicate n 0) = 0" by (induction n) auto
  then show ?thesis by (simp add: le_word_def)
qed

lemma to_le_le_nat: "to_le (length bs) (le_nat bs) = bs"
proof (induction bs)
  case (Cons b bs)
  have "(unat b + 256 * le_nat bs) div 256 = le_nat bs"
    using unat_byte_less [of b] by simp
  moreover have "word_of_nat (unat b + 256 * le_nat bs) = b"
  proof -
    have "word_of_nat (256 * le_nat bs) = (0 :: byte)"
      by (subst word_of_nat_eq_0_iff) simp
    then show ?thesis by (simp only: of_nat_add) simp
  qed
  ultimately show ?case using Cons by simp
qed simp

lemma le_word_word_le:
  "LENGTH('w) \<le> 8 * n \<Longrightarrow> le_word (word_le n w) = (w :: 'w::len word)"
proof -
  assume "LENGTH('w) \<le> 8 * n"
  then have "(2::nat) ^ LENGTH('w) \<le> 2 ^ (8 * n)" by simp
  also have "\<dots> = 256 ^ n" by (simp add: power_mult)
  finally have "unat w < 256 ^ n" using unsigned_less [of w, where ?'a = nat] by linarith
  then show ?thesis by (simp add: le_word_def word_le_def le_nat_to_le)
qed

lemma unat_le_word:
  "8 * length bs \<le> LENGTH('w) \<Longrightarrow> unat (le_word bs :: 'w::len word) = le_nat bs"
proof -
  assume "8 * length bs \<le> LENGTH('w)"
  then have "(2::nat) ^ (8 * length bs) \<le> 2 ^ LENGTH('w)" by simp
  moreover have "(256::nat) ^ length bs = 2 ^ (8 * length bs)" by (simp add: power_mult)
  ultimately have "le_nat bs < 2 ^ LENGTH('w)" using le_nat_less [of bs] by linarith
  then show ?thesis by (simp add: le_word_def unat_of_nat)
qed

lemma word_le_le_word:
  "length bs = n \<Longrightarrow> 8 * n \<le> LENGTH('w) \<Longrightarrow> word_le n (le_word bs :: 'w::len word) = bs"
  using to_le_le_nat [of bs] by (simp add: word_le_def unat_le_word)

lemma to_le_4:
  "to_le 4 v = [word_of_nat v, word_of_nat (v div 256), word_of_nat (v div 65536), word_of_nat (v div 16777216)]"
proof -
  have "to_le (Suc (Suc (Suc (Suc 0)))) v
    = [word_of_nat v, word_of_nat (v div 256), word_of_nat (v div 65536), word_of_nat (v div 16777216)]"
    by (simp add: div_mult2_eq [symmetric])
  moreover have "Suc (Suc (Suc (Suc 0))) = 4" by simp
  ultimately show ?thesis by (simp only:)
qed

text \<open>\<open>htons\<close>, \<open>ntohs\<close> and \<open>htonl\<close> of a little-endian host: reverse the bytes in memory.\<close>

definition htons :: "u16 \<Rightarrow> u16" where
  "htons w = le_word (rev (word_le 2 w))"

definition htonl :: "u32 \<Rightarrow> u32" where
  "htonl w = le_word (rev (word_le 4 w))"

lemma word_le_htons [byte_simps]: "word_le 2 (htons w) = rev (word_le 2 w)"
  by (simp add: htons_def word_le_le_word)

lemma word_le_htonl [byte_simps]: "word_le 4 (htonl w) = rev (word_le 4 w)"
  by (simp add: htonl_def word_le_le_word)

lemma htons_le_word: "length bs = 2 \<Longrightarrow> htons (le_word bs) = le_word (rev bs)"
  by (simp add: htons_def word_le_le_word)

lemma htons_htons [simp]: "htons (htons w) = w"
  by (simp add: htons_def word_le_le_word le_word_word_le)

lemma unat_htons_pair: "unat (htons (le_word [a, b])) = unat b + 256 * unat a"
  by (simp add: htons_le_word unat_le_word)

lemma htons_0 [simp]: "htons 0 = 0"
  by (simp add: htons_def word_le_def le_word_def numeral_2_eq_2)

lemma htons_eq_0_iff [simp]: "htons w = 0 \<longleftrightarrow> w = 0"
  by (metis htons_0 htons_htons)

lemma word_le_1 [simp]: "word_le (Suc 0) (b :: byte) = [b]"
  by (simp add: word_le_def)

subsection \<open>Reads and writes of a buffer\<close>

text \<open>\<open>rd off n d\<close> reads \<open>n\<close> bytes at \<open>off\<close>; past the end it is a bad access.\<close>

definition rd :: "nat \<Rightarrow> nat \<Rightarrow> bytes \<Rightarrow> bytes result" where
  "rd off n d = (if off + n \<le> length d then Inr (take n (drop off d)) else Inl BadAccess)"

definition rdw :: "nat \<Rightarrow> nat \<Rightarrow> bytes \<Rightarrow> 'w::len word result" where
  "rdw off n d = rbind (rd off n d) (\<lambda>bs. Inr (le_word bs))"

definition put_at :: "nat \<Rightarrow> bytes \<Rightarrow> bytes \<Rightarrow> bytes" where
  "put_at off bs d = take off d @ bs @ drop (off + length bs) d"

lemma rd_ok [simp]: "off + n \<le> length d \<Longrightarrow> rd off n d = Inr (take n (drop off d))"
  by (simp add: rd_def)

lemma rd_bad [simp]: "length d < off + n \<Longrightarrow> rd off n d = Inl BadAccess"
  by (simp add: rd_def)

lemma rdw_ok [simp]:
  "off + n \<le> length d \<Longrightarrow> rdw off n d = Inr (le_word (take n (drop off d)))"
  by (simp add: rdw_def)

lemma rdw_bad [simp]: "length d < off + n \<Longrightarrow> rdw off n d = Inl BadAccess"
  by (simp add: rdw_def)

lemma length_put_at [simp, byte_simps]:
  "off + length bs \<le> length d \<Longrightarrow> length (put_at off bs d) = length d"
  by (simp add: put_at_def)

lemma put_at_append [byte_simps]:
  "length xs = off \<Longrightarrow> length ys = length bs \<Longrightarrow> put_at off bs (xs @ ys @ zs) = xs @ bs @ zs"
  by (simp add: put_at_def)

subsection \<open>Platform constants\<close>

text \<open>Address families, IP protocols, pcap link types and Ethernet types of the platform headers.\<close>

abbreviation AF_UNSPEC :: int where "AF_UNSPEC \<equiv> 0"
abbreviation AF_INET :: int where "AF_INET \<equiv> 2"
abbreviation AF_INET6 :: int where "AF_INET6 \<equiv> 10"
abbreviation IPPROTO_IP :: int where "IPPROTO_IP \<equiv> 0"
abbreviation IPPROTO_TCP :: int where "IPPROTO_TCP \<equiv> 6"
abbreviation IPPROTO_UDP :: int where "IPPROTO_UDP \<equiv> 17"
abbreviation DLT_NULL :: int where "DLT_NULL \<equiv> 0"
abbreviation DLT_EN10MB :: int where "DLT_EN10MB \<equiv> 1"
abbreviation DLT_RAW :: int where "DLT_RAW \<equiv> 12"
abbreviation DLT_LOOP :: int where "DLT_LOOP \<equiv> 108"
abbreviation DLT_LINUX_SLL :: int where "DLT_LINUX_SLL \<equiv> 113"
abbreviation ETHERTYPE_IP :: u16 where "ETHERTYPE_IP \<equiv> 0x0800"
abbreviation ETHERTYPE_IPV6 :: u16 where "ETHERTYPE_IPV6 \<equiv> 0x86dd"
abbreviation ETHERTYPE_LOOPBACK :: u16 where "ETHERTYPE_LOOPBACK \<equiv> 0x9000"

text \<open>\<open>struct timeval\<close>, with 64-bit fields in which every time of the program fits.\<close>

record timeval =
  tv_sec :: int
  tv_usec :: int

definition demo_ts :: timeval where
  "demo_ts = \<lparr>tv_sec = 1600000000, tv_usec = 5\<rparr>"

subsection \<open>C strings, decimal text\<close>

definition c_str :: "string \<Rightarrow> string" where
  "c_str s = takeWhile (\<lambda>c. c \<noteq> CHR 0x00) s"

definition digit_char :: "nat \<Rightarrow> char" where
  "digit_char d = char_of (48 + d)"

text \<open>\<open>std::to_string\<close> of an unsigned and of a signed integer.\<close>

fun string_of_nat :: "nat \<Rightarrow> string" where
  "string_of_nat n =
     (if n < 10 then [digit_char n] else string_of_nat (n div 10) @ [digit_char (n mod 10)])"

declare string_of_nat.simps [simp del]

definition string_of_int :: "int \<Rightarrow> string" where
  "string_of_int i = (if i < 0 then CHR ''-'' # string_of_nat (nat (- i)) else string_of_nat (nat i))"

definition is_digit :: "char \<Rightarrow> bool" where
  "is_digit c \<longleftrightarrow> 48 \<le> (of_char c :: nat) \<and> (of_char c :: nat) \<le> 57"

definition digit_val :: "char \<Rightarrow> nat" where
  "digit_val c = of_char c - 48"

definition is_space :: "char \<Rightarrow> bool" where
  "is_space c \<longleftrightarrow> (let n = (of_char c :: nat) in n = 32 \<or> (9 \<le> n \<and> n \<le> 13))"

text \<open>
  \<open>std::atoi\<close> and \<open>std::atoll\<close> before their result is cut to its width: skip white space, take a
  sign, then the longest run of digits.
\<close>

definition digits_val :: "string \<Rightarrow> nat" where
  "digits_val s = foldl (\<lambda>a c. 10 * a + digit_val c) 0 s"

definition ato_int :: "string \<Rightarrow> int" where
  "ato_int s =
     (case dropWhile is_space (c_str s) of
        [] \<Rightarrow> 0
      | c # cs \<Rightarrow>
          if c = CHR ''-'' then - int (digits_val (takeWhile is_digit cs))
          else if c = CHR ''+'' then int (digits_val (takeWhile is_digit cs))
          else int (digits_val (takeWhile is_digit (c # cs))))"

lemma of_char_digit_char: "d < 10 \<Longrightarrow> (of_char (digit_char d) :: nat) = 48 + d"
  by (simp add: digit_char_def)

lemma digit_val_digit_char [simp]: "d < 10 \<Longrightarrow> digit_val (digit_char d) = d"
  by (simp add: digit_val_def of_char_digit_char)

lemma is_digit_digit_char [simp]: "d < 10 \<Longrightarrow> is_digit (digit_char d)"
  by (simp add: is_digit_def of_char_digit_char)

lemma string_of_nat_digits: "\<forall>c \<in> set (string_of_nat n). is_digit c"
proof (induction n rule: string_of_nat.induct)
  case (1 n)
  then show ?case by (subst string_of_nat.simps) auto
qed

lemma string_of_nat_nonempty [simp]: "string_of_nat n \<noteq> []"
  by (subst string_of_nat.simps) simp

lemma digits_val_snoc: "digits_val (s @ [c]) = 10 * digits_val s + digit_val c"
  by (simp add: digits_val_def)

lemma digits_val_string_of_nat [simp]: "digits_val (string_of_nat n) = n"
proof (induction n rule: string_of_nat.induct)
  case (1 n)
  show ?case
  proof (cases "n < 10")
    case True
    then show ?thesis
      by (subst string_of_nat.simps) (simp add: digits_val_def)
  next
    case False
    with 1 show ?thesis
      by (subst string_of_nat.simps) (simp add: digits_val_snoc)
  qed
qed

lemma is_digit_not_space: "is_digit c \<Longrightarrow> \<not> is_space c"
  by (auto simp: is_digit_def is_space_def Let_def)

lemma is_digit_not_sign: "is_digit c \<Longrightarrow> c \<noteq> CHR ''-'' \<and> c \<noteq> CHR ''+'' \<and> c \<noteq> CHR 0x00"
  by (auto simp: is_digit_def)

lemma ato_int_digits:
  assumes "s \<noteq> []" and "\<forall>c \<in> set s. is_digit c"
  shows "ato_int s = int (digits_val s)"
proof -
  obtain c cs where s: "s = c # cs" using assms(1) by (cases s) auto
  have "c_str s = s"
    unfolding c_str_def takeWhile_eq_all_conv using assms(2) is_digit_not_sign by blast
  moreover have "takeWhile is_digit s = s"
    using assms(2) by (simp add: takeWhile_eq_all_conv)
  moreover have "\<not> is_space c" "c \<noteq> CHR ''-''" "c \<noteq> CHR ''+''"
    using assms(2) s is_digit_not_space is_digit_not_sign by auto
  ultimately show ?thesis using s by (simp add: ato_int_def)
qed

lemma ato_int_string_of_nat [simp]: "ato_int (string_of_nat n) = int n"
  by (simp add: ato_int_digits string_of_nat_digits)

lemma string_of_nat_inject [simp]: "string_of_nat m = string_of_nat n \<longleftrightarrow> m = n"
  by (metis digits_val_string_of_nat)

subsection \<open>Consumers of a byte stream\<close>

text \<open>
  A component that gets a stream in pieces, as the network cuts it, must not depend on the cuts. The
  interface is one operation \<open>feed\<close> on states that are \<open>good\<close>; its law is that, to an observer
  \<open>obs\<close>, two pieces are as good as their concatenation.
\<close>

locale chunk_consumer =
  fixes feed :: "'a list \<Rightarrow> 's \<Rightarrow> 's"
    and good :: "'s \<Rightarrow> bool"
    and obs :: "'s \<Rightarrow> 'o"
  assumes good_feed: "good s \<Longrightarrow> good (feed xs s)"
    and feed_Nil: "good s \<Longrightarrow> obs (feed [] s) = obs s"
    and feed_append: "good s \<Longrightarrow> obs (feed (xs @ ys) s) = obs (feed ys (feed xs s))"
    and feed_obs: "good s \<Longrightarrow> good t \<Longrightarrow> obs s = obs t \<Longrightarrow> obs (feed xs s) = obs (feed xs t)"
begin

lemma feed_all_obs:
  "good s \<Longrightarrow> good t \<Longrightarrow> obs s = obs t \<Longrightarrow> obs (fold feed chunks s) = obs (fold feed chunks t)"
proof (induction chunks arbitrary: s t)
  case (Cons c chunks)
  have "good (feed c s)" "good (feed c t)" using Cons.prems(1,2) by (simp_all add: good_feed)
  moreover have "obs (feed c s) = obs (feed c t)" using Cons.prems by (rule feed_obs)
  ultimately show ?case unfolding fold_simps by (rule Cons.IH)
qed simp

lemma feed_chunks: "good s \<Longrightarrow> obs (fold feed chunks s) = obs (feed (concat chunks) s)"
proof (induction chunks arbitrary: s)
  case (Cons c chunks)
  show ?case
    using Cons.IH [of "feed c s"] good_feed [OF Cons.prems, of c] feed_append [OF Cons.prems, of c "concat chunks"]
    by (simp only: fold_simps concat.simps)
qed (simp add: feed_Nil)

lemma cuts_irrelevant:
  "good s \<Longrightarrow> concat chunks = concat chunks' \<Longrightarrow> obs (fold feed chunks s) = obs (fold feed chunks' s)"
  by (metis feed_chunks)

end

end
