(* ===== verification/Ip_Packet.thy ===== *)
theory Ip_Packet
  imports Prelude
begin

unbundle bit_operations_syntax

section \<open>IPPacket: building an IP/UDP packet (pcap/tools/ippacket.cpp)\<close>

text \<open>
  The class \<open>IPPacket\<close> writes a data-link header, an IP header and a UDP header in front of a
  payload. Its constructor runs three writers and \<open>finalize\<close>. A writer of the model returns the
  bytes it writes at \<open>next()\<close>; their number is the size the C++ writer returns, and the
  constructor appends them and advances \<open>currentOffset_\<close>. \<open>pk_buf\<close> is the part of
  \<open>buf_\<close> below \<open>currentOffset_\<close>; the pseudo header is the 40 bytes of the union
  \<open>PseudoIPHeader\<close>. \<open>inet_pton\<close> is the parameter \<open>pton\<close>: family and text to the address
  in network order. The process-wide counter of \<open>flowSeq\<close> is passed as \<open>seq\<close>.
\<close>

type_synonym pton = "int \<Rightarrow> string \<Rightarrow> bytes option"

record ip_packet =
  pk_datalink :: int
  pk_af :: int
  pk_protocol :: int
  pk_srcAddr :: string
  pk_srcPort :: u16
  pk_dstAddr :: string
  pk_dstPort :: u16
  pk_data :: bytes
  pk_srcMAC :: "u16 list option"
  pk_dstMAC :: "u16 list option"
  pk_currentOffset :: nat
  pk_ipOffset :: nat
  pk_pseudo :: bytes
  pk_buf :: bytes

subsection \<open>calcCheckSumm\<close>

text \<open>The summing loop over 16-bit words, with the odd last byte; \<open>summ\<close> is a \<open>uint32_t\<close>.\<close>

fun checksum_loop :: "u32 \<Rightarrow> bytes \<Rightarrow> u32" where
  "checksum_loop summ (a # b # rest) = checksum_loop (summ + ucast (htons (le_word [a, b]))) rest"
| "checksum_loop summ [b] = summ + ucast (htons (ucast b))"
| "checksum_loop summ [] = summ"

text \<open>\<open>while (summ>>16) summ = (summ & 0xffff) + (summ >> 16);\<close>\<close>

function checksum_fold :: "u32 \<Rightarrow> u32" where
  "checksum_fold summ =
     (if drop_bit 16 summ \<noteq> 0 then checksum_fold ((summ AND 0xffff) + drop_bit 16 summ) else summ)"
  by pat_completeness auto

lemma unat_fold_step:
  "unat ((summ AND 0xffff) + drop_bit 16 (summ :: u32)) = unat summ mod 65536 + unat summ div 65536"
proof -
  have "summ AND 0xffff = take_bit 16 summ"
    by (simp add: take_bit_eq_mask mask_eq_exp_minus_1)
  then have lo: "unat (summ AND 0xffff) = unat summ mod 65536"
    by (simp add: take_bit_eq_mod unat_mod_distrib)
  have hi: "unat (drop_bit 16 summ) = unat summ div 65536"
    by (simp add: drop_bit_eq_div unat_div_distrib)
  have "unat summ < 2 ^ 32" using unsigned_less [of summ, where ?'a = nat] by simp
  then have "unat summ mod 65536 + unat summ div 65536 < 2 ^ 32" by simp
  with lo hi show ?thesis by (simp add: unat_word_ariths(1))
qed

lemma drop_bit_16_eq_0: "drop_bit 16 (s :: u32) = 0 \<longleftrightarrow> unat s < 65536"
proof -
  have "unat (drop_bit 16 s) = unat s div 65536"
    by (simp add: drop_bit_eq_div unat_div_distrib)
  then show ?thesis by (auto simp: word_unat_eq_iff div_eq_0_iff)
qed

termination checksum_fold
proof (relation "measure unat", goal_cases)
  case (2 summ)
  then have "65536 \<le> unat summ" by (simp add: drop_bit_16_eq_0)
  then have "0 < unat summ div 65536" by (simp add: div_greater_zero_iff)
  moreover have "unat summ div 65536 * 65536 + unat summ mod 65536 = unat summ"
    by (rule div_mult_mod_eq)
  ultimately have "unat summ mod 65536 + unat summ div 65536 < unat summ" by linarith
  then show ?case by (simp add: unat_fold_step)
qed simp

declare checksum_fold.simps [simp del]

definition calcCheckSumm :: "bytes \<Rightarrow> u16" where
  "calcCheckSumm d = htons (ucast (NOT (checksum_fold (checksum_loop 0 d))))"

subsection \<open>The writers\<close>

definition flowSeq :: "u32 \<Rightarrow> u32 \<times> u32" where
  "flowSeq seq = (seq + 1, seq + 1)"

definition flowSeq_init :: u32 where
  "flowSeq_init = 0xabcdd"

definition getIPAddr :: "pton \<Rightarrow> int \<Rightarrow> string \<Rightarrow> bytes option" where
  "getIPAddr pton af src = pton af (c_str src)"

definition dataLinkSize :: "int \<Rightarrow> nat result" where
  "dataLinkSize dl =
     (if dl = DLT_RAW then Inr 0
      else if dl = DLT_NULL \<or> dl = DLT_LOOP then Inr 4
      else if dl = DLT_EN10MB then Inr 14
      else Inl (RuntimeError (''IPPacket: unsupported datalink='' @ string_of_int dl)))"

definition default_srcMAC :: "u16 list" where
  "default_srcMAC = [0x00, 0x16, 0x3e, 0xd6, 0xfa, 0xfb]"

definition default_dstMAC :: "u16 list" where
  "default_dstMAC = [0x00, 0x1f, 0x12, 0xb9, 0xb7, 0xf0]"

text \<open>\<open>memcpy(..., mac, ETH_ALEN)\<close> copies the first six bytes of an array of 16-bit words.\<close>

definition mac_bytes :: "u16 list \<Rightarrow> bytes result" where
  "mac_bytes m = rd 0 6 (concat (map (word_le 2) m))"

definition writeDataLink :: "ip_packet \<Rightarrow> bytes result" where
  "writeDataLink p =
     (if pk_datalink p = DLT_RAW then Inr []
      else if pk_datalink p = DLT_NULL \<or> pk_datalink p = DLT_LOOP then
        (let hdr = (if pk_af p = AF_INET then 2 else if pk_af p = AF_INET6 then 24 else 0) :: u32;
             hdr = (if pk_datalink p = DLT_LOOP then htonl hdr else hdr)
         in Inr (word_le 4 hdr))
      else if pk_datalink p = DLT_EN10MB then
        rbind (mac_bytes (case pk_srcMAC p of Some m \<Rightarrow> m | None \<Rightarrow> default_srcMAC)) (\<lambda>shost.
        rbind (mac_bytes (case pk_dstMAC p of Some m \<Rightarrow> m | None \<Rightarrow> default_dstMAC)) (\<lambda>dhost.
          Inr (dhost @ shost @
               word_le 2 (htons (if pk_af p = AF_INET then ETHERTYPE_IP
                                 else if pk_af p = AF_INET6 then ETHERTYPE_IPV6
                                 else ETHERTYPE_LOOPBACK)))))
      else Inl (RuntimeError (''IPPacket: unsupported datalink='' @ string_of_int (pk_datalink p))))"

text \<open>
  The IP headers. The IPv4 bit fields \<open>ihl\<close> and \<open>version\<close> share the first byte; the IPv6
  union \<open>ip6_un1_flow_t\<close> has \<open>version\<close> in bits 4 to 7 and the 20-bit \<open>flow\<close> in bits 12 to 31.
\<close>

definition ipv4_header :: "int \<Rightarrow> u32 \<Rightarrow> bytes \<Rightarrow> bytes \<Rightarrow> bytes" where
  "ipv4_header protocol seq saddr daddr =
     [drop_bit 2 20 OR push_bit 4 4] @ [0] @ word_le 2 (0 :: u16) @ word_le 2 (htons (ucast seq))
     @ word_le 2 (0 :: u16) @ [0xff] @ [word_of_int protocol] @ word_le 2 (0 :: u16)
     @ saddr @ daddr"

definition ip6_flow :: "u32 \<Rightarrow> u32" where
  "ip6_flow seq = push_bit 4 6 OR push_bit 12 (take_bit 20 (htonl (seq AND 0xFFFFFF)))"

definition ipv6_header :: "int \<Rightarrow> u32 \<Rightarrow> bytes \<Rightarrow> bytes \<Rightarrow> bytes" where
  "ipv6_header protocol seq saddr daddr =
     word_le 4 (ip6_flow seq) @ word_le 2 (0 :: u16) @ [word_of_int protocol] @ [32] @ saddr @ daddr"

definition writeIPHeader :: "pton \<Rightarrow> u32 \<Rightarrow> ip_packet \<Rightarrow> (ip_packet \<times> bytes \<times> u32) result" where
  "writeIPHeader pton seq p =
     (let p = p\<lparr>pk_ipOffset := pk_currentOffset p\<rparr>;
          proto = word_of_int (pk_protocol p) :: byte
      in if pk_af p = AF_INET then
           (case getIPAddr pton (pk_af p) (pk_srcAddr p) of
              None \<Rightarrow> Inl (RuntimeError (''IPPacket: bad IPv4 src address: '' @ pk_srcAddr p))
            | Some saddr \<Rightarrow>
           (case getIPAddr pton (pk_af p) (pk_dstAddr p) of
              None \<Rightarrow> Inl (RuntimeError (''IPPacket: bad IPv4 dst address: '' @ pk_dstAddr p))
            | Some daddr \<Rightarrow>
                let (id, seq') = flowSeq seq;
                    ps = put_at 9 [proto] (put_at 4 daddr (put_at 0 saddr (pk_pseudo p)))
                in Inr (p\<lparr>pk_pseudo := ps\<rparr>, ipv4_header (pk_protocol p) id saddr daddr, seq')))
         else if pk_af p = AF_INET6 then
           (case getIPAddr pton (pk_af p) (pk_srcAddr p) of
              None \<Rightarrow> Inl (RuntimeError (''IPPacket: bad IPv6 src address: '' @ pk_srcAddr p))
            | Some saddr \<Rightarrow>
           (case getIPAddr pton (pk_af p) (pk_dstAddr p) of
              None \<Rightarrow> Inl (RuntimeError (''IPPacket: bad IPv6 dst address: '' @ pk_dstAddr p))
            | Some daddr \<Rightarrow>
                let (fl, seq') = flowSeq seq;
                    ps = put_at 32 (word_le 4 (ucast proto :: u32))
                           (put_at 16 daddr (put_at 0 saddr (pk_pseudo p)))
                in Inr (p\<lparr>pk_pseudo := ps\<rparr>, ipv6_header (pk_protocol p) fl saddr daddr, seq')))
         else Inl (RuntimeError (''IPPacket: unsupported address family='' @ string_of_int (pk_af p))))"

text \<open>
  The UDP header. \<open>u\<close> is declared \<open>auto u = htons(x16)\<close>, so it has the type of \<open>htons\<close>,
  \<open>uint16_t\<close>: the two \<open>u +=\<close> wrap at 16 bits and \<open>u>>16\<close> is 0.
\<close>

definition writeUDPHeader :: "ip_packet \<Rightarrow> ip_packet \<times> bytes" where
  "writeUDPHeader p =
     (let len = htons (word_of_nat (8 + length (pk_data p)));
          hdr0 = word_le 2 (htons (pk_srcPort p)) @ word_le 2 (htons (pk_dstPort p)) @ word_le 2 len;
          p = (if pk_af p = AF_INET then p\<lparr>pk_pseudo := put_at 10 (word_le 2 len) (pk_pseudo p)\<rparr> else p);
          x16 = (if pk_af p = AF_INET then calcCheckSumm (take 12 (pk_pseudo p))
                 else if pk_af p = AF_INET6 then calcCheckSumm (pk_pseudo p) else 0);
          u = htons x16;
          u = u + htons (calcCheckSumm (hdr0 @ word_le 2 (0 :: u16)));
          u = u + htons (calcCheckSumm (pk_data p));
          x16 = (u AND 0xffff) + drop_bit 16 u;
          check = htons x16;
          check = (if check = 0 then htons 1 else check)
      in (p, hdr0 @ word_le 2 check))"

definition writeProtoHeader :: "ip_packet \<Rightarrow> (ip_packet \<times> bytes) result" where
  "writeProtoHeader p =
     (if pk_protocol p = IPPROTO_UDP then Inr (writeUDPHeader p)
      else if pk_protocol p = IPPROTO_TCP then
        Inl (RuntimeError ''IPPacket: IPPROTO_TCP not implemented yet'')
      else Inl (RuntimeError (''IPPacket: unsupported IP protocol='' @ string_of_int (pk_protocol p))))"

definition packet_size :: "ip_packet \<Rightarrow> nat" where
  "packet_size p = pk_currentOffset p + length (pk_data p)"

definition finalize_packet :: "ip_packet \<Rightarrow> ip_packet" where
  "finalize_packet p =
     (let off = pk_ipOffset p;
          len = word_le 2 (htons (word_of_nat (packet_size p - off)))
      in if pk_af p = AF_INET then
           (let b = put_at (off + 2) len (pk_buf p)
            in p\<lparr>pk_buf := put_at (off + 10) (word_le 2 (calcCheckSumm (take 20 (drop off b)))) b\<rparr>)
         else if pk_af p = AF_INET6 then p\<lparr>pk_buf := put_at (off + 4) len (pk_buf p)\<rparr>
         else p)"

definition advance :: "bytes \<Rightarrow> ip_packet \<Rightarrow> ip_packet" where
  "advance hdr p = p\<lparr>pk_buf := pk_buf p @ hdr, pk_currentOffset := pk_currentOffset p + length hdr\<rparr>"

text \<open>The constructor: every packet is sent as UDP, whatever \<open>_proto\<close> says.\<close>

definition ip_packet_new ::
  "pton \<Rightarrow> u32 \<Rightarrow> int \<Rightarrow> int \<Rightarrow> int \<Rightarrow> string \<Rightarrow> u16 \<Rightarrow> string \<Rightarrow> u16 \<Rightarrow> bytes
    \<Rightarrow> u16 list option \<Rightarrow> u16 list option \<Rightarrow> (ip_packet \<times> u32) result" where
  "ip_packet_new pton seq datalink af proto srcAddr srcPort dstAddr dstPort data srcMAC dstMAC =
     (let p = \<lparr>pk_datalink = datalink, pk_af = af, pk_protocol = IPPROTO_UDP, pk_srcAddr = srcAddr,
               pk_srcPort = srcPort, pk_dstAddr = dstAddr, pk_dstPort = dstPort, pk_data = data,
               pk_srcMAC = srcMAC, pk_dstMAC = dstMAC, pk_currentOffset = 0, pk_ipOffset = 0,
               pk_pseudo = replicate 40 0, pk_buf = []\<rparr>
      in rbind (writeDataLink p) (\<lambda>dl. let p = advance dl p in
         rbind (writeIPHeader pton seq p) (\<lambda>(p, ip, seq'). let p = advance ip p in
         rbind (writeProtoHeader p) (\<lambda>(p, hdr). Inr (finalize_packet (advance hdr p), seq')))))"

text \<open>\<open>serialize\<close>: the headers, then the payload.\<close>

definition serialize_packet :: "ip_packet \<Rightarrow> bytes" where
  "serialize_packet p = take (pk_currentOffset p) (pk_buf p) @ pk_data p"


subsection \<open>The Internet checksum\<close>

text \<open>The sum of the big-endian 16-bit words as a natural, the reference for \<open>checksum_loop\<close>.\<close>

fun sum16 :: "bytes \<Rightarrow> nat" where
  "sum16 (a # b # rest) = unat b + 256 * unat a + sum16 rest"
| "sum16 [b] = 256 * unat b"
| "sum16 [] = 0"

lemma unat_ucast_u16_u32 [simp]: "unat (ucast (w :: u16) :: u32) = unat w"
proof -
  have "unat w < 2 ^ 16" using unsigned_less [of w, where ?'a = nat] by simp
  then show ?thesis by (simp add: unsigned_ucast_eq take_bit_eq_mod)
qed

lemma htons_ucast_byte: "unat (htons (ucast (b :: byte))) = 256 * unat b"
proof -
  have "unat (ucast b :: u16) = unat b"
    using unat_byte_less [of b] by (simp add: unsigned_ucast_eq take_bit_eq_mod)
  then have "word_le 2 (ucast b :: u16) = [b, 0]"
    using unat_byte_less [of b] by (simp add: word_le_def numeral_2_eq_2)
  then show ?thesis by (simp add: htons_def unat_le_word)
qed

lemma checksum_loop_unat: "unat (checksum_loop s d) = (unat s + sum16 d) mod 2 ^ 32"
proof (induction s d rule: checksum_loop.induct)
  case (1 s a b rest)
  then show ?case
    by (simp add: unat_word_ariths(1) unat_htons_pair mod_add_left_eq add.assoc)
next
  case (2 s b)
  show ?case by (simp add: unat_word_ariths(1) htons_ucast_byte)
next
  case (3 s)
  show ?case using unsigned_less [of s, where ?'a = nat] by simp
qed

lemma sum16_bound: "sum16 d \<le> 65535 * ((length d + 1) div 2)"
proof (induction d rule: sum16.induct)
  case (1 a b rest)
  then show ?case using unat_byte_less [of a] unat_byte_less [of b] by simp
next
  case (2 b)
  show ?case using unat_byte_less [of b] by simp
qed simp

lemma sum16_append: "even (length xs) \<Longrightarrow> sum16 (xs @ ys) = sum16 xs + sum16 ys"
  by (induction xs rule: sum16.induct) auto

text \<open>One's complement arithmetic modulo \<open>n\<close>, where \<open>n\<close> and 0 are the two zeros.\<close>

lemma ones_complement_zero:
  fixes f n s :: nat
  assumes "f \<le> n" "0 < n" "f mod n = s mod n" "f = 0 \<longleftrightarrow> s = 0"
  shows "f = n \<longleftrightarrow> s mod n = 0 \<and> s \<noteq> 0"
proof
  assume "f = n"
  with assms show "s mod n = 0 \<and> s \<noteq> 0" by auto
next
  assume "s mod n = 0 \<and> s \<noteq> 0"
  with assms have "n dvd f" "f \<noteq> 0" by (auto simp: dvd_eq_mod_eq_0)
  then have "n \<le> f" by (auto intro: dvd_imp_le)
  with assms(1) show "f = n" by simp
qed

lemma ones_complement_sum:
  fixes f n s :: nat
  assumes "f \<le> n" "0 < n" "f mod n = s mod n" "f = 0 \<longleftrightarrow> s = 0"
  shows "(s + (n - f)) mod n = 0 \<and> s + (n - f) \<noteq> 0"
proof
  have "(s + (n - f)) mod n = (f + (n - f)) mod n"
    using assms(3) by (metis mod_add_left_eq)
  with assms(1) show "(s + (n - f)) mod n = 0" by simp
  show "s + (n - f) \<noteq> 0" using assms by auto
qed

lemma word_le_2_bytes: "\<exists>a b. word_le 2 (w :: u16) = [a, b] \<and> unat w = unat a + 256 * unat b"
proof -
  obtain a b where ab: "word_le 2 w = [a, b]"
    using length_word_le [of 2 w] by (metis (no_types) One_nat_def Suc_1 length_0_conv length_Suc_conv)
  then have "w = le_word [a, b]" using le_word_word_le [of 2 w] by simp
  with ab show ?thesis by (simp add: unat_le_word)
qed

lemma sum16_word_le: "sum16 (word_le 2 w) = unat (htons w)"
proof -
  obtain a b where ab: "word_le 2 w = [a, b]" and "unat w = unat a + 256 * unat b"
    using word_le_2_bytes by blast
  then show ?thesis by (simp add: htons_def unat_le_word)
qed

lemma checksum_fold_props:
  "unat (checksum_fold s) < 65536 \<and> unat (checksum_fold s) mod 65535 = unat s mod 65535
   \<and> (unat (checksum_fold s) = 0 \<longleftrightarrow> unat s = 0)"
proof (induction s rule: checksum_fold.induct)
  case (1 s)
  show ?case
  proof (cases "drop_bit 16 s = 0")
    case True
    then show ?thesis by (simp add: checksum_fold.simps [of s] drop_bit_16_eq_0)
  next
    case False
    let ?n = "unat s" and ?t = "(s AND 0xffff) + drop_bit 16 s"
    have t: "unat ?t = ?n mod 65536 + ?n div 65536" by (rule unat_fold_step)
    have n: "?n = 65536 * (?n div 65536) + ?n mod 65536" by simp
    have "?n = 65535 * (?n div 65536) + unat ?t" using n t by linarith
    then have "?n mod 65535 = (65535 * (?n div 65536) + unat ?t) mod 65535" by simp
    then have "unat ?t mod 65535 = ?n mod 65535" by (simp only: mod_mult_self4)
    moreover have "unat ?t = 0 \<longleftrightarrow> ?n = 0" using t n by linarith
    moreover have "checksum_fold s = checksum_fold ?t"
      using False by (simp add: checksum_fold.simps [of s])
    ultimately show ?thesis using 1 False by simp
  qed
qed

lemma htons_calcCheckSumm: "unat (htons (calcCheckSumm d)) = 65535 - unat (checksum_fold (checksum_loop 0 d))"
proof -
  let ?f = "checksum_fold (checksum_loop 0 d)"
  have f: "unat ?f < 65536" using checksum_fold_props by blast
  have nf: "unat (NOT ?f) = 4294967295 - unat ?f"
  proof -
    have "NOT ?f = - 1 - ?f" by (simp add: not_eq_complement)
    then have "unat (NOT ?f) = unat (- 1 :: u32) - unat ?f" by (simp only: unat_sub word_n1_ge)
    then show ?thesis by (simp add: unsigned_minus_1_eq_mask mask_eq_exp_minus_1)
  qed
  have "unat (ucast (NOT ?f) :: u16) = (4294967295 - unat ?f) mod 65536"
    by (simp add: nf unsigned_ucast_eq take_bit_eq_mod)
  also have "\<dots> = 65535 - unat ?f"
  proof -
    have "4294967295 - unat ?f = 65536 * 65535 + (65535 - unat ?f)" using f by simp
    then show ?thesis by (simp only: mod_mult_self4) simp
  qed
  finally show ?thesis by (simp add: calcCheckSumm_def)
qed

lemma calcCheckSumm_eq_0_iff:
  assumes "length d \<le> 131070"
  shows "calcCheckSumm d = 0 \<longleftrightarrow> sum16 d mod 65535 = 0 \<and> sum16 d \<noteq> 0"
proof -
  let ?f = "unat (checksum_fold (checksum_loop 0 d))"
  have s: "unat (checksum_loop 0 d) = sum16 d"
    using sum16_bound [of d] assms by (simp add: checksum_loop_unat)
  have p: "?f < 65536" "?f mod 65535 = sum16 d mod 65535" "?f = 0 \<longleftrightarrow> sum16 d = 0"
    using checksum_fold_props [of "checksum_loop 0 d"] s by auto
  have "calcCheckSumm d = 0 \<longleftrightarrow> unat (htons (calcCheckSumm d)) = 0"
    by (simp add: unat_eq_0)
  also have "\<dots> \<longleftrightarrow> ?f = 65535" using p(1) by (auto simp: htons_calcCheckSumm)
  also have "\<dots> \<longleftrightarrow> sum16 d mod 65535 = 0 \<and> sum16 d \<noteq> 0"
    using ones_complement_zero [of ?f 65535 "sum16 d"] p by simp
  finally show ?thesis .
qed

lemma checksum_verifies:
  assumes "even (length xs)" and "length xs + length ys \<le> 131068"
  shows "calcCheckSumm (xs @ word_le 2 (calcCheckSumm (xs @ [0, 0] @ ys)) @ ys) = 0"
proof -
  let ?d = "xs @ [0, 0] @ ys"
  let ?f = "unat (checksum_fold (checksum_loop 0 ?d))"
  let ?s = "sum16 xs + sum16 ys"
  have s: "sum16 ?d = ?s" using assms(1) by (simp add: sum16_append)
  have "unat (checksum_loop 0 ?d) = ?s"
    using sum16_bound [of ?d] assms(2) s by (simp add: checksum_loop_unat)
  then have p: "?f < 65536" "?f mod 65535 = ?s mod 65535" "?f = 0 \<longleftrightarrow> ?s = 0"
    using checksum_fold_props [of "checksum_loop 0 ?d"] by auto
  have "sum16 (xs @ word_le 2 (calcCheckSumm ?d) @ ys) = ?s + (65535 - ?f)"
    using assms(1) by (simp add: sum16_append sum16_word_le htons_calcCheckSumm)
  moreover have "(?s + (65535 - ?f)) mod 65535 = 0 \<and> ?s + (65535 - ?f) \<noteq> 0"
    using ones_complement_sum [of ?f 65535 ?s] p by simp
  ultimately show ?thesis
    using assms(2) by (subst calcCheckSumm_eq_0_iff) auto
qed


subsection \<open>The shape of a built packet\<close>

text \<open>What the code relies on of \<open>inet_pton\<close>: an IPv4 address has 4 bytes, an IPv6 address 16.\<close>

definition pton_lengths :: "pton \<Rightarrow> bool" where
  "pton_lengths pton \<longleftrightarrow>
     (\<forall>s a. pton AF_INET s = Some a \<longrightarrow> length a = 4) \<and>
     (\<forall>s a. pton AF_INET6 s = Some a \<longrightarrow> length a = 16)"

lemma pton_lengthsD:
  "pton_lengths pton \<Longrightarrow> getIPAddr pton AF_INET s = Some a \<Longrightarrow> length a = 4"
  "pton_lengths pton \<Longrightarrow> getIPAddr pton AF_INET6 s = Some a \<Longrightarrow> length a = 16"
  by (auto simp: pton_lengths_def getIPAddr_def)

lemma writeDataLink_length:
  "writeDataLink p = Inr dl \<Longrightarrow> dataLinkSize (pk_datalink p) = Inr (length dl)"
  by (auto simp: writeDataLink_def dataLinkSize_def mac_bytes_def rd_def rbind_eq_Inr Let_def
      split: if_splits)

lemma dataLinkSize_le: "dataLinkSize dl = Inr n \<Longrightarrow> n \<le> 14"
  by (auto simp: dataLinkSize_def split: if_splits)

lemma writeUDPHeader_length [simp]: "length (snd (writeUDPHeader p)) = 8"
  by (simp add: writeUDPHeader_def Let_def)

lemma writeUDPHeader_frame [simp]:
  "pk_af (fst (writeUDPHeader p)) = pk_af p"
  "pk_data (fst (writeUDPHeader p)) = pk_data p"
  "pk_ipOffset (fst (writeUDPHeader p)) = pk_ipOffset p"
  "pk_currentOffset (fst (writeUDPHeader p)) = pk_currentOffset p"
  "pk_buf (fst (writeUDPHeader p)) = pk_buf p"
  by (simp_all add: writeUDPHeader_def Let_def)

lemma writeUDPHeader_prefix:
  "\<exists>check. snd (writeUDPHeader p) =
     word_le 2 (htons (pk_srcPort p)) @ word_le 2 (htons (pk_dstPort p))
     @ word_le 2 (htons (word_of_nat (8 + length (pk_data p)))) @ word_le 2 (check :: u16)"
  by (simp add: writeUDPHeader_def Let_def) blast

lemma advance_frame [simp]:
  "pk_protocol (advance h p) = pk_protocol p" "pk_af (advance h p) = pk_af p"
  "pk_data (advance h p) = pk_data p" "pk_ipOffset (advance h p) = pk_ipOffset p"
  "pk_buf (advance h p) = pk_buf p @ h"
  "pk_currentOffset (advance h p) = pk_currentOffset p + length h"
  by (simp_all add: advance_def)

lemma put_at_prefix:
  "length xs = off \<Longrightarrow> put_at (off + k) bs (xs @ ys) = xs @ put_at k bs ys"
  by (simp add: put_at_def)

text \<open>The bytes before and after the checksum field of a finished IPv4 header.\<close>

definition ipv4_head :: "nat \<Rightarrow> u32 \<Rightarrow> bytes" where
  "ipv4_head len seq =
     [0x45, 0] @ word_le 2 (htons (word_of_nat len)) @ word_le 2 (htons (ucast seq)) @ [0, 0, 0xff, 17]"

lemma length_ipv4_head [simp]: "length (ipv4_head len seq) = 10"
  by (simp add: ipv4_head_def)

lemma ihl_version_byte [simp]: "(drop_bit 2 20 OR push_bit 4 4 :: byte) = 0x45"
  by simp

lemma finalize_ipv4:
  assumes "pk_af p = AF_INET" and "pk_buf p = dl @ ipv4_header IPPROTO_UDP seq saddr daddr @ udp"
    and "pk_ipOffset p = length dl" and "length saddr = 4" and "length daddr = 4"
  shows "pk_buf (finalize_packet p) =
    (let h = ipv4_head (packet_size p - length dl) seq; t = saddr @ daddr
     in dl @ h @ word_le 2 (calcCheckSumm (h @ [0, 0] @ t)) @ t @ udp)"
proof -
  let ?len = "word_le 2 (htons (word_of_nat (packet_size p - length dl)))"
  let ?h = "ipv4_head (packet_size p - length dl) seq" and ?t = "saddr @ daddr"
  have b: "put_at (length dl + 2) ?len (pk_buf p) = dl @ ?h @ [0, 0] @ ?t @ udp"
    unfolding assms(2) put_at_prefix [OF refl]
    by (simp only: ipv4_header_def ihl_version_byte)
      (simp add: put_at_def ipv4_head_def numeral_2_eq_2)
  have t20: "take 20 (drop (length dl) (dl @ ?h @ [0, 0] @ ?t @ udp)) = ?h @ [0, 0] @ ?t"
    using assms(4,5) by simp
  have c: "put_at (length dl + 10) (word_le 2 (w :: u16)) (dl @ ?h @ [0, 0] @ ?t @ udp)
      = dl @ ?h @ word_le 2 w @ ?t @ udp" for w
    by (simp add: put_at_prefix) (simp add: put_at_def)
  show ?thesis
    unfolding finalize_packet_def Let_def assms(3) b t20 c using assms(1) by simp
qed


definition udp_head :: "u16 \<Rightarrow> u16 \<Rightarrow> nat \<Rightarrow> u16 \<Rightarrow> bytes" where
  "udp_head sp dp n check =
     word_le 2 (htons sp) @ word_le 2 (htons dp) @ word_le 2 (htons (word_of_nat (8 + n))) @ word_le 2 check"

lemma length_udp_head [simp]: "length (udp_head sp dp n check) = 8"
  by (simp add: udp_head_def)

lemma writeUDPHeader_udp_head:
  "\<exists>check. snd (writeUDPHeader p) = udp_head (pk_srcPort p) (pk_dstPort p) (length (pk_data p)) check"
  using writeUDPHeader_prefix [of p] by (simp add: udp_head_def)

text \<open>The checksum field of the UDP header, from the pseudo header.\<close>

definition udp_check :: "bytes \<Rightarrow> u16 \<Rightarrow> u16 \<Rightarrow> bytes \<Rightarrow> u16" where
  "udp_check ps sp dp data =
     (let u = htons (calcCheckSumm ps) + htons (calcCheckSumm (udp_head sp dp (length data) 0)) + htons (calcCheckSumm data)
      in if u = 0 then htons 1 else htons u)"

lemma drop_bit_16_u16 [simp]: "drop_bit 16 (u :: u16) = 0"
proof -
  have "unat u < 2 ^ 16" using unsigned_less [of u, where ?'a = nat] by simp
  then show ?thesis by (simp add: word_unat_eq_iff drop_bit_eq_div unat_div_distrib)
qed

lemma and_mask_u16 [simp]: "(u :: u16) AND 0xffff = u"
proof -
  have "u AND 0xffff = take_bit 16 u" by (simp add: take_bit_eq_mask mask_eq_exp_minus_1)
  then show ?thesis by (simp add: take_bit_word_eq_self)
qed

lemma writeUDPHeader_ipv4:
  "pk_af p = AF_INET \<Longrightarrow> snd (writeUDPHeader p) = udp_head (pk_srcPort p) (pk_dstPort p) (length (pk_data p))
     (udp_check (take 12 (put_at 10 (word_le 2 (htons (word_of_nat (8 + length (pk_data p))))) (pk_pseudo p)))
       (pk_srcPort p) (pk_dstPort p) (pk_data p))"
  by (simp add: writeUDPHeader_def udp_check_def udp_head_def Let_def del: of_nat_add)

lemma writeUDPHeader_ipv6:
  "pk_af p = AF_INET6 \<Longrightarrow> snd (writeUDPHeader p) = udp_head (pk_srcPort p) (pk_dstPort p) (length (pk_data p))
     (udp_check (pk_pseudo p) (pk_srcPort p) (pk_dstPort p) (pk_data p))"
  by (simp add: writeUDPHeader_def udp_check_def udp_head_def Let_def del: of_nat_add)

text \<open>The pseudo headers: that of IPv4 is the standard one, that of IPv6 has the protocol in host byte order and no length.\<close>

definition pseudo_ipv4 :: "bytes \<Rightarrow> bytes \<Rightarrow> nat \<Rightarrow> bytes" where
  "pseudo_ipv4 saddr daddr n = saddr @ daddr @ [0, 17] @ word_le 2 (htons (word_of_nat (8 + n)))"

definition pseudo_ipv6 :: "bytes \<Rightarrow> bytes \<Rightarrow> bytes" where
  "pseudo_ipv6 saddr daddr = saddr @ daddr @ word_le 4 (17 :: u32) @ [0, 0, 0, 0]"

lemma ip_packet_new_ipv4:
  assumes new: "ip_packet_new pton seq dl AF_INET proto sa sp da dp data sm dm = Inr (p, seq')"
    and pton: "pton_lengths pton"
  obtains link saddr daddr check where
    "dataLinkSize dl = Inr (length link)"
    and "getIPAddr pton AF_INET sa = Some saddr" and "getIPAddr pton AF_INET da = Some daddr"
    and "length saddr = 4" and "length daddr = 4"
    and "pk_buf p = (let h = ipv4_head (28 + length data) (seq + 1); t = saddr @ daddr
       in link @ h @ word_le 2 (calcCheckSumm (h @ [0, 0] @ t)) @ t @ udp_head sp dp (length data) check)"
    and "pk_currentOffset p = length link + 28" and "pk_ipOffset p = length link"
    and "pk_data p = data" and "pk_af p = AF_INET" and "seq' = seq + 1"
    and "check = udp_check (pseudo_ipv4 saddr daddr (length data)) sp dp data"
proof -
  let ?p0 = "\<lparr>pk_datalink = dl, pk_af = AF_INET, pk_protocol = IPPROTO_UDP, pk_srcAddr = sa,
               pk_srcPort = sp, pk_dstAddr = da, pk_dstPort = dp, pk_data = data,
               pk_srcMAC = sm, pk_dstMAC = dm, pk_currentOffset = 0, pk_ipOffset = 0,
               pk_pseudo = replicate 40 0, pk_buf = []\<rparr>"
  from new obtain link where link: "writeDataLink ?p0 = Inr link"
    by (auto simp: ip_packet_new_def Let_def rbind_eq_Inr)
  let ?p1 = "advance link ?p0"
  from new link obtain saddr daddr where
    addr: "getIPAddr pton AF_INET sa = Some saddr" "getIPAddr pton AF_INET da = Some daddr"
    by (auto simp: ip_packet_new_def Let_def rbind_eq_Inr writeIPHeader_def advance_def
        split: option.splits)
  have len: "length saddr = 4" "length daddr = 4" using pton addr pton_lengthsD by auto
  obtain p2 where p2: "writeIPHeader pton seq ?p1 = Inr (p2, ipv4_header IPPROTO_UDP (seq + 1) saddr daddr, seq + 1)"
    and fr: "pk_buf p2 = link" "pk_currentOffset p2 = length link" "pk_ipOffset p2 = length link"
      "pk_data p2 = data" "pk_srcPort p2 = sp" "pk_dstPort p2 = dp" "pk_protocol p2 = IPPROTO_UDP"
      "pk_af p2 = AF_INET" "pk_pseudo p2 = put_at 9 [17] (put_at 4 daddr (put_at 0 saddr (replicate 40 0)))"
    using addr by (simp add: writeIPHeader_def Let_def advance_def flowSeq_def)
  let ?p3 = "advance (ipv4_header IPPROTO_UDP (seq + 1) saddr daddr) p2"
  let ?w = "writeUDPHeader ?p3" and ?q = "advance (snd (writeUDPHeader ?p3)) (fst (writeUDPHeader ?p3))"
  have p: "p = finalize_packet ?q" "seq' = seq + 1"
    using new link p2 fr(7) by (auto simp: ip_packet_new_def Let_def writeProtoHeader_def split_beta)
  define check where "check = udp_check (pseudo_ipv4 saddr daddr (length data)) sp dp data"
  have "take 12 (put_at 10 (word_le 2 (w :: u16)) (pk_pseudo p2)) = saddr @ daddr @ [0, 17] @ word_le 2 w" for w
    using len by (simp add: fr put_at_def numeral_eq_Suc)
  then have ck: "snd ?w = udp_head sp dp (length data) check"
    using writeUDPHeader_ipv4 [of ?p3] fr by (simp add: advance_def check_def pseudo_ipv4_def del: of_nat_add)
  have hl: "length (ipv4_header IPPROTO_UDP (seq + 1) saddr daddr) = 20"
    using len by (simp add: ipv4_header_def)
  have q: "pk_buf ?q = link @ ipv4_header IPPROTO_UDP (seq + 1) saddr daddr @ udp_head sp dp (length data) check"
    "pk_af ?q = AF_INET" "pk_ipOffset ?q = length link" "pk_currentOffset ?q = length link + 28"
    "pk_data ?q = data"
    using fr ck hl by (simp_all add: advance_def)
  have sz: "packet_size ?q - length link = 28 + length data"
    using q by (simp add: packet_size_def)
  have "pk_buf p = (let h = ipv4_head (28 + length data) (seq + 1); t = saddr @ daddr
       in link @ h @ word_le 2 (calcCheckSumm (h @ [0, 0] @ t)) @ t @ udp_head sp dp (length data) check)"
    unfolding p(1) finalize_ipv4 [OF q(2,1,3) len] sz by simp
  moreover have "dataLinkSize dl = Inr (length link)"
    using writeDataLink_length [OF link] by simp
  moreover have "pk_currentOffset p = length link + 28" "pk_ipOffset p = length link" "pk_data p = data"
    "pk_af p = AF_INET"
    using q unfolding p(1) finalize_packet_def Let_def by simp_all
  ultimately show ?thesis using that addr len p(2) check_def by blast
qed


lemma finalize_ipv6:
  assumes "pk_af p = AF_INET6" and "pk_buf p = dl @ ipv6_header IPPROTO_UDP seq saddr daddr @ udp"
    and "pk_ipOffset p = length dl"
  shows "pk_buf (finalize_packet p) =
    dl @ word_le 4 (ip6_flow seq) @ word_le 2 (htons (word_of_nat (packet_size p - length dl)))
       @ [17, 32] @ saddr @ daddr @ udp"
proof -
  have "put_at (length dl + 4) (word_le 2 (w :: u16)) (dl @ ipv6_header IPPROTO_UDP seq saddr daddr @ udp)
      = dl @ word_le 4 (ip6_flow seq) @ word_le 2 w @ [17, 32] @ saddr @ daddr @ udp" for w
    unfolding put_at_prefix [OF refl] by (simp add: put_at_def ipv6_header_def)
  then show ?thesis using assms by (simp add: finalize_packet_def Let_def)
qed

lemma ip_packet_new_ipv6:
  assumes new: "ip_packet_new pton seq dl AF_INET6 proto sa sp da dp data sm dm = Inr (p, seq')"
    and pton: "pton_lengths pton"
  obtains link saddr daddr check where
    "dataLinkSize dl = Inr (length link)"
    and "getIPAddr pton AF_INET6 sa = Some saddr" and "getIPAddr pton AF_INET6 da = Some daddr"
    and "length saddr = 16" and "length daddr = 16"
    and "pk_buf p = link @ word_le 4 (ip6_flow (seq + 1))
       @ word_le 2 (htons (word_of_nat (48 + length data))) @ [17, 32] @ saddr @ daddr
       @ udp_head sp dp (length data) check"
    and "pk_currentOffset p = length link + 48" and "pk_ipOffset p = length link"
    and "pk_data p = data" and "pk_af p = AF_INET6" and "seq' = seq + 1"
    and "check = udp_check (pseudo_ipv6 saddr daddr) sp dp data"
proof -
  let ?p0 = "\<lparr>pk_datalink = dl, pk_af = AF_INET6, pk_protocol = IPPROTO_UDP, pk_srcAddr = sa,
               pk_srcPort = sp, pk_dstAddr = da, pk_dstPort = dp, pk_data = data,
               pk_srcMAC = sm, pk_dstMAC = dm, pk_currentOffset = 0, pk_ipOffset = 0,
               pk_pseudo = replicate 40 0, pk_buf = []\<rparr>"
  from new obtain link where link: "writeDataLink ?p0 = Inr link"
    by (auto simp: ip_packet_new_def Let_def rbind_eq_Inr)
  let ?p1 = "advance link ?p0"
  from new link obtain saddr daddr where
    addr: "getIPAddr pton AF_INET6 sa = Some saddr" "getIPAddr pton AF_INET6 da = Some daddr"
    by (auto simp: ip_packet_new_def Let_def rbind_eq_Inr writeIPHeader_def advance_def
        split: option.splits)
  have len: "length saddr = 16" "length daddr = 16" using pton addr pton_lengthsD by auto
  obtain p2 where p2: "writeIPHeader pton seq ?p1 = Inr (p2, ipv6_header IPPROTO_UDP (seq + 1) saddr daddr, seq + 1)"
    and fr: "pk_buf p2 = link" "pk_currentOffset p2 = length link" "pk_ipOffset p2 = length link"
      "pk_data p2 = data" "pk_srcPort p2 = sp" "pk_dstPort p2 = dp" "pk_protocol p2 = IPPROTO_UDP"
      "pk_af p2 = AF_INET6" "pk_pseudo p2 = put_at 32 (word_le 4 (17 :: u32)) (put_at 16 daddr (put_at 0 saddr (replicate 40 0)))"
    using addr by (simp add: writeIPHeader_def Let_def advance_def flowSeq_def)
  let ?p3 = "advance (ipv6_header IPPROTO_UDP (seq + 1) saddr daddr) p2"
  let ?w = "writeUDPHeader ?p3" and ?q = "advance (snd (writeUDPHeader ?p3)) (fst (writeUDPHeader ?p3))"
  have p: "p = finalize_packet ?q" "seq' = seq + 1"
    using new link p2 fr(7) by (auto simp: ip_packet_new_def Let_def writeProtoHeader_def split_beta)
  define check where "check = udp_check (pseudo_ipv6 saddr daddr) sp dp data"
  have "pk_pseudo p2 = pseudo_ipv6 saddr daddr"
    using len by (simp add: fr put_at_def pseudo_ipv6_def numeral_eq_Suc)
  then have ck: "snd ?w = udp_head sp dp (length data) check"
    using writeUDPHeader_ipv6 [of ?p3] fr by (simp add: advance_def check_def)
  have hl: "length (ipv6_header IPPROTO_UDP (seq + 1) saddr daddr) = 40"
    using len by (simp add: ipv6_header_def)
  have q: "pk_buf ?q = link @ ipv6_header IPPROTO_UDP (seq + 1) saddr daddr @ udp_head sp dp (length data) check"
    "pk_af ?q = AF_INET6" "pk_ipOffset ?q = length link" "pk_currentOffset ?q = length link + 48"
    "pk_data ?q = data"
    using fr ck hl by simp_all
  have sz: "packet_size ?q - length link = 48 + length data"
    using q by (simp add: packet_size_def)
  have "pk_currentOffset p = length link + 48" "pk_ipOffset p = length link" "pk_data p = data"
    "pk_af p = AF_INET6"
    using q unfolding p(1) finalize_packet_def Let_def by simp_all
  moreover have "dataLinkSize dl = Inr (length link)"
    using writeDataLink_length [OF link] by simp
  ultimately show ?thesis
    using that addr len p(2) finalize_ipv6 [OF q(2,1,3)] check_def unfolding sz p(1) by blast
qed

lemma ip_packet_new_af:
  "ip_packet_new pton seq dl af proto sa sp da dp data sm dm = Inr r \<Longrightarrow> af = AF_INET \<or> af = AF_INET6"
  by (auto simp: ip_packet_new_def Let_def rbind_eq_Inr writeIPHeader_def advance_def split: if_splits)

lemma ip_packet_new_buf:
  assumes "ip_packet_new pton seq dl af proto sa sp da dp data sm dm = Inr (p, seq')"
    and "pton_lengths pton"
  shows "length (pk_buf p) = pk_currentOffset p \<and> pk_currentOffset p \<le> 62 \<and> pk_data p = data
    \<and> seq' = seq + 1"
proof -
  from assms(1) consider "af = AF_INET" | "af = AF_INET6" using ip_packet_new_af by blast
  then show ?thesis
  proof cases
    case 1
    show ?thesis
    proof (rule ip_packet_new_ipv4 [OF assms(1) [unfolded 1] assms(2)])
      fix link saddr daddr :: bytes and check :: u16
      assume "dataLinkSize dl = Inr (length link)" "length saddr = 4" "length daddr = 4"
        "pk_currentOffset p = length link + 28" "pk_data p = data" "seq' = seq + 1"
        "pk_buf p = (let h = ipv4_head (28 + length data) (seq + 1); t = saddr @ daddr
       in link @ h @ word_le 2 (calcCheckSumm (h @ [0, 0] @ t)) @ t @ udp_head sp dp (length data) check)"
      then show ?thesis using dataLinkSize_le [of dl] by (simp add: Let_def)
    qed
  next
    case 2
    show ?thesis
    proof (rule ip_packet_new_ipv6 [OF assms(1) [unfolded 2] assms(2)])
      fix link saddr daddr :: bytes and check :: u16
      assume "dataLinkSize dl = Inr (length link)" "length saddr = 16" "length daddr = 16"
        "pk_currentOffset p = length link + 48" "pk_data p = data" "seq' = seq + 1"
        "pk_buf p = link @ word_le 4 (ip6_flow (seq + 1))
       @ word_le 2 (htons (word_of_nat (48 + length data))) @ [17, 32] @ saddr @ daddr
       @ udp_head sp dp (length data) check"
      then show ?thesis using dataLinkSize_le [of dl] by simp
    qed
  qed
qed

text \<open>When the constructor succeeds: the MAC arguments are null or point to at least six bytes.\<close>

definition mac_readable :: "u16 list option \<Rightarrow> bool" where
  "mac_readable m = (case m of None \<Rightarrow> True | Some ws \<Rightarrow> 3 \<le> length ws)"

lemma mac_bytes_ok: "3 \<le> length ws \<Longrightarrow> is_ok (mac_bytes ws)"
proof -
  assume "3 \<le> length ws"
  moreover have "length (concat (map (word_le 2) ws)) = 2 * length ws"
    by (induction ws) auto
  ultimately show ?thesis by (simp add: mac_bytes_def)
qed

lemma writeDataLink_ok:
  assumes "mac_readable (pk_srcMAC p)" and "mac_readable (pk_dstMAC p)"
  shows "is_ok (writeDataLink p) \<longleftrightarrow> is_ok (dataLinkSize (pk_datalink p))"
proof -
  have "is_ok (mac_bytes (case pk_srcMAC p of Some m \<Rightarrow> m | None \<Rightarrow> default_srcMAC))"
    using assms(1) by (auto simp: mac_readable_def default_srcMAC_def mac_bytes_ok split: option.splits)
  moreover have "is_ok (mac_bytes (case pk_dstMAC p of Some m \<Rightarrow> m | None \<Rightarrow> default_dstMAC))"
    using assms(2) by (auto simp: mac_readable_def default_dstMAC_def mac_bytes_ok split: option.splits)
  ultimately show ?thesis
    by (auto simp: writeDataLink_def dataLinkSize_def Let_def is_ok_rbind elim!: is_okE)
qed

text \<open>C36: the constructor of \<open>IPPacket\<close> builds a packet exactly when the data link is one of RAW,
  NULL, LOOP and EN10MB, the family is IPv4 or IPv6 and \<open>inet_pton\<close> accepts both addresses; in
  every other case it throws.\<close>

theorem ip_packet_new_ok:
  assumes "mac_readable sm" and "mac_readable dm"
  shows "is_ok (ip_packet_new pton seq dl af proto sa sp da dp data sm dm) \<longleftrightarrow>
    is_ok (dataLinkSize dl) \<and> (af = AF_INET \<or> af = AF_INET6) \<and>
    getIPAddr pton af sa \<noteq> None \<and> getIPAddr pton af da \<noteq> None"
proof -
  let ?p = "\<lparr>pk_datalink = dl, pk_af = af, pk_protocol = IPPROTO_UDP, pk_srcAddr = sa,
               pk_srcPort = sp, pk_dstAddr = da, pk_dstPort = dp, pk_data = data,
               pk_srcMAC = sm, pk_dstMAC = dm, pk_currentOffset = 0, pk_ipOffset = 0,
               pk_pseudo = replicate 40 0, pk_buf = []\<rparr>"
  have dl: "is_ok (writeDataLink ?p) \<longleftrightarrow> is_ok (dataLinkSize dl)"
    using assms by (subst writeDataLink_ok) auto
  show ?thesis
  proof (cases "writeDataLink ?p")
    case (Inl e)
    then show ?thesis using dl by (simp add: ip_packet_new_def)
  next
    case (Inr link)
    then show ?thesis
      using dl by (auto simp: ip_packet_new_def Let_def writeIPHeader_def advance_def flowSeq_def
          writeProtoHeader_def split_beta split: option.splits)
  qed
qed

definition demo_pton :: pton where
  "demo_pton af s = (if s = ''bad'' then None
     else if af = AF_INET then Some [10, 0, 0, 1]
     else if af = AF_INET6 then Some (replicate 15 0 @ [1]) else None)"

lemma demo_pton_lengths: "pton_lengths demo_pton"
  by (auto simp: pton_lengths_def demo_pton_def)

theorem ip_packet_new_ok_witness:
  "is_ok (ip_packet_new demo_pton flowSeq_init DLT_EN10MB AF_INET 17 ''a'' 5060 ''b'' 5061 [1, 2, 3] None None)
   \<and> \<not> is_ok (ip_packet_new demo_pton flowSeq_init DLT_EN10MB AF_INET 17 ''bad'' 5060 ''b'' 5061 [1, 2, 3] None None)"
  by (simp add: ip_packet_new_ok mac_readable_def dataLinkSize_def getIPAddr_def demo_pton_def c_str_def)

lemma demo_packet:
  assumes "af = AF_INET \<or> af = AF_INET6" and "da = ''a'' \<or> da = ''b''"
  obtains p s where
    "ip_packet_new demo_pton flowSeq_init DLT_EN10MB af 17 ''a'' 5060 da 5061 [1, 2, 3] None None = Inr (p, s)"
proof -
  have "is_ok (ip_packet_new demo_pton flowSeq_init DLT_EN10MB af 17 ''a'' 5060 da 5061 [1, 2, 3] None None)"
    using assms
    by (auto simp: ip_packet_new_def Let_def writeIPHeader_def advance_def flowSeq_def writeDataLink_def
          mac_bytes_def default_srcMAC_def default_dstMAC_def writeProtoHeader_def split_beta
          getIPAddr_def demo_pton_def c_str_def)
  then show ?thesis using that by (cases "ip_packet_new demo_pton flowSeq_init DLT_EN10MB af 17
      ''a'' 5060 da 5061 [1, 2, 3] None None") auto
qed

text \<open>The IPv4 header of every packet the constructor builds is a valid one: the Internet
  checksum of its 20 bytes, computed by a receiver with the same routine, is 0.\<close>

lemma ipv4_header_checksum:
  assumes "ip_packet_new pton seq dl AF_INET proto sa sp da dp data sm dm = Inr (p, seq')"
    and "pton_lengths pton"
  shows "calcCheckSumm (take 20 (drop (pk_ipOffset p) (pk_buf p))) = 0"
proof -
  obtain link saddr daddr check where
    "length saddr = 4" "length daddr = 4" "pk_ipOffset p = length link" and
    "pk_buf p = (let h = ipv4_head (28 + length data) (seq + 1); t = saddr @ daddr
       in link @ h @ word_le 2 (calcCheckSumm (h @ [0, 0] @ t)) @ t @ udp_head sp dp (length data) check)"
    by (rule ip_packet_new_ipv4 [OF assms])
  then have "take 20 (drop (pk_ipOffset p) (pk_buf p)) = ipv4_head (28 + length data) (seq + 1)
     @ word_le 2 (calcCheckSumm (ipv4_head (28 + length data) (seq + 1) @ [0, 0] @ saddr @ daddr))
     @ saddr @ daddr" by (simp add: Let_def)
  then show ?thesis
    using checksum_verifies [of "ipv4_head (28 + length data) (seq + 1)" "saddr @ daddr"]
      \<open>length saddr = 4\<close> \<open>length daddr = 4\<close> by simp
qed

lemma ipv4_header_checksum_witness:
  "\<exists>p s. ip_packet_new demo_pton flowSeq_init DLT_EN10MB AF_INET 17 ''a'' 5060 ''b'' 5061 [1, 2, 3] None None = Inr (p, s)
     \<and> calcCheckSumm (take 20 (drop (pk_ipOffset p) (pk_buf p))) = 0"
proof -
  obtain p s where *: "ip_packet_new demo_pton flowSeq_init DLT_EN10MB AF_INET 17 ''a'' 5060 ''b'' 5061 [1, 2, 3] None None = Inr (p, s)"
    using demo_packet [of AF_INET "''b''"] by auto
  with ipv4_header_checksum [OF * demo_pton_lengths] show ?thesis by blast
qed

text \<open>What the constructor writes fits its fixed buffer: the headers are at most 62 of the 1024
  bytes of \<open>buf_\<close>, \<open>serialize\<close> writes exactly those headers and the payload, \<open>size()\<close> bytes,
  and the process-wide packet counter advances by one.\<close>

lemma serialize_size:
  assumes "ip_packet_new pton seq dl af proto sa sp da dp data sm dm = Inr (p, seq')"
    and "pton_lengths pton"
  shows "pk_currentOffset p \<le> 62 \<and> serialize_packet p = pk_buf p @ data
     \<and> length (serialize_packet p) = packet_size p \<and> seq' = seq + 1"
  using ip_packet_new_buf [OF assms] by (simp add: serialize_packet_def packet_size_def)

lemma serialize_size_witness:
  "\<exists>p s. ip_packet_new demo_pton flowSeq_init DLT_EN10MB AF_INET6 17 ''a'' 5060 ''b'' 5061 [1, 2, 3] None None = Inr (p, s)
     \<and> pk_currentOffset p \<le> 62 \<and> serialize_packet p = pk_buf p @ [1, 2, 3]"
proof -
  obtain p s where *: "ip_packet_new demo_pton flowSeq_init DLT_EN10MB AF_INET6 17 ''a'' 5060 ''b'' 5061 [1, 2, 3] None None = Inr (p, s)"
    using demo_packet [of AF_INET6 "''b''"] by auto
  with serialize_size [OF * demo_pton_lengths] show ?thesis by blast
qed

end
