(* ===== verification/Udp_Checksum.thy ===== *)
theory Udp_Checksum
  imports Ip_Packet
begin

section \<open>The checksum of the UDP header (pcap/tools/ippacket.cpp)\<close>

text \<open>
  \<open>writeUDPHeader\<close> adds the complements of three sums, of the pseudo header, of the header and of the payload, in a
  variable of 16 bits. In one's complement arithmetic that would be the complement of the sum, if the carries were
  added again; as they are lost, what a receiver finds depends on the sum of the three.
\<close>

definition checksum_part :: "bytes \<Rightarrow> nat" where
  "checksum_part d = unat (htons (calcCheckSumm d))"

text \<open>The sum without its wrap-around.\<close>

definition udp_sum :: "bytes \<Rightarrow> u16 \<Rightarrow> u16 \<Rightarrow> bytes \<Rightarrow> nat" where
  "udp_sum ps sp dp data =
     checksum_part ps + checksum_part (udp_head sp dp (length data) 0) + checksum_part data"

lemma checksum_part_props:
  assumes "length d \<le> 131070"
  shows "checksum_part d \<le> 65535" and "(checksum_part d + sum16 d) mod 65535 = 0"
    and "sum16 d < 65536 \<Longrightarrow> checksum_part d = 65535 - sum16 d"
proof -
  let ?f = "unat (checksum_fold (checksum_loop 0 d))"
  have s: "unat (checksum_loop 0 d) = sum16 d"
    using sum16_bound [of d] assms by (simp add: checksum_loop_unat)
  have p: "?f < 65536" "?f mod 65535 = sum16 d mod 65535"
    using checksum_fold_props [of "checksum_loop 0 d"] s by auto
  have c: "checksum_part d = 65535 - ?f" by (simp add: checksum_part_def htons_calcCheckSumm)
  then show "checksum_part d \<le> 65535" by simp
  have "(checksum_part d + sum16 d) mod 65535 = (65535 - ?f + ?f) mod 65535"
    using p(2) c by (metis mod_add_right_eq)
  then show "(checksum_part d + sum16 d) mod 65535 = 0" using p(1) by simp
  show "checksum_part d = 65535 - sum16 d" if "sum16 d < 65536"
  proof -
    have "checksum_fold (checksum_loop 0 d) = checksum_loop 0 d"
      using that s by (subst checksum_fold.simps) (simp add: drop_bit_16_eq_0)
    then show ?thesis using c s by simp
  qed
qed

lemma unat_htons_1: "unat (htons (htons 1) :: u16) = 1"
  by simp

text \<open>The field in the packet: the sum modulo \<open>2^16\<close>, and 1 where that is 0.\<close>

lemma udp_check_value:
  "unat (htons (udp_check ps sp dp data)) =
     (if udp_sum ps sp dp data mod 65536 = 0 then 1 else udp_sum ps sp dp data mod 65536)"
proof -
  let ?a = "htons (calcCheckSumm ps)" and ?b = "htons (calcCheckSumm (udp_head sp dp (length data) 0))"
    and ?c = "htons (calcCheckSumm data)"
  have u: "unat (?a + ?b + ?c) = udp_sum ps sp dp data mod 65536"
    by (simp add: unat_word_ariths(1) udp_sum_def checksum_part_def mod_add_left_eq)
  then have "?a + ?b + ?c = 0 \<longleftrightarrow> udp_sum ps sp dp data mod 65536 = 0"
    by (metis unat_eq_0)
  then show ?thesis using u by (auto simp: udp_check_def Let_def)
qed

lemma sum16_udp_head:
  "sum16 (udp_head sp dp n check) = sum16 (udp_head sp dp n 0) + unat (htons check)"
proof -
  have "sum16 (word_le 2 (0 :: u16)) = 0" by (simp only: sum16_word_le) simp
  then show ?thesis by (simp add: udp_head_def sum16_append sum16_word_le)
qed

lemma mod_add_cancel: "(a + s) mod n = (b + s) mod n \<longleftrightarrow> a mod n = b mod (n :: nat)"
proof -
  have "int (a + s) mod int n = int (b + s) mod int n \<longleftrightarrow> int a mod int n = int b mod int n"
    by (simp add: mod_eq_dvd_iff)
  then show ?thesis by (metis of_nat_eq_iff zmod_int)
qed

text \<open>What a receiver finds with the pseudo header \<open>ps'\<close>, of the code's sum and the two pseudo headers.\<close>

lemma receiver_sum:
  assumes "even (length ps')" and "length ps \<le> 40" and "length ps' \<le> 40" and "8 + length data < 65536"
  shows "calcCheckSumm (ps' @ udp_head sp dp (length data) (udp_check ps sp dp data) @ data) = 0
    \<longleftrightarrow> (unat (htons (udp_check ps sp dp data)) + sum16 ps') mod 65535 = (udp_sum ps sp dp data + sum16 ps) mod 65535"
proof -
  let ?h = "udp_head sp dp (length data) 0" and ?c = "unat (htons (udp_check ps sp dp data))"
  let ?t = "udp_sum ps sp dp data"
  let ?all = "ps' @ udp_head sp dp (length data) (udp_check ps sp dp data) @ data"
  have all: "sum16 ?all = sum16 ps' + sum16 ?h + ?c + sum16 data"
    using assms(1) by (simp add: sum16_append sum16_udp_head [of sp dp "length data" "udp_check ps sp dp data"])
  have c: "0 < ?c" by (simp add: udp_check_value)
  have parts: "(checksum_part ps + sum16 ps) mod 65535 = 0" "(checksum_part ?h + sum16 ?h) mod 65535 = 0"
    "(checksum_part data + sum16 data) mod 65535 = 0"
    using assms by (simp_all add: checksum_part_props(2))
  have t: "?t = checksum_part ps + checksum_part ?h + checksum_part data" by (simp add: udp_sum_def)
  obtain i j k where ijk: "checksum_part ps + sum16 ps = 65535 * i" "checksum_part ?h + sum16 ?h = 65535 * j"
    "checksum_part data + sum16 data = 65535 * k"
    using parts by (meson mod_0_imp_dvd dvd_def)
  have "sum16 ?all + (?t + sum16 ps) = ?c + sum16 ps' + 65535 * (i + j + k)"
    using all t ijk by (simp add: algebra_simps)
  then have m: "(sum16 ?all + (?t + sum16 ps)) mod 65535 = (?c + sum16 ps') mod 65535" by (simp only: mod_mult_self2)
  have "sum16 ?all mod 65535 = 0 \<longleftrightarrow> (?c + sum16 ps') mod 65535 = (?t + sum16 ps) mod 65535"
  proof
    assume "sum16 ?all mod 65535 = 0"
    then show "(?c + sum16 ps') mod 65535 = (?t + sum16 ps) mod 65535" using m by (metis add_0 mod_add_left_eq)
  next
    assume "(?c + sum16 ps') mod 65535 = (?t + sum16 ps) mod 65535"
    then have "(sum16 ?all + (?t + sum16 ps)) mod 65535 = (0 + (?t + sum16 ps)) mod 65535" using m by simp
    then have "sum16 ?all mod 65535 = 0 mod 65535" by (simp only: mod_add_cancel)
    then show "sum16 ?all mod 65535 = 0" by simp
  qed
  moreover have "sum16 ?all \<noteq> 0" using all c by simp
  ultimately show ?thesis using assms by (subst calcCheckSumm_eq_0_iff) auto
qed

subsection \<open>IPv4\<close>

text \<open>What a receiver has of a packet: the pseudo header is made of its IP header, the segment begins behind that.\<close>

definition rx_pseudo_ipv4 :: "bytes \<Rightarrow> nat \<Rightarrow> bytes" where
  "rx_pseudo_ipv4 packet off = take 8 (drop (off + 12) packet) @ [0, 17] @ take 2 (drop (off + 24) packet)"

definition rx_segment_ipv4 :: "bytes \<Rightarrow> nat \<Rightarrow> bytes" where
  "rx_segment_ipv4 packet off = drop (off + 20) packet"

definition rx_checksum_part :: "bytes \<Rightarrow> nat \<Rightarrow> nat" where
  "rx_checksum_part packet off =
     checksum_part (rx_pseudo_ipv4 packet off)
     + checksum_part (take 6 (rx_segment_ipv4 packet off) @ [0, 0]) + checksum_part (drop 8 (rx_segment_ipv4 packet off))"

lemma mod_not_shifted: "0 < m \<Longrightarrow> m < n \<Longrightarrow> k mod n \<noteq> (k + m) mod (n :: nat)"
  using mod_add_cancel [of 0 k n m] by (simp add: add.commute)

lemma same_sum_iff:
  assumes "t \<le> 196605"
  shows "(if t mod 65536 = 0 then 1 else t mod 65536) mod 65535 = t mod (65535 :: nat) \<longleftrightarrow> 0 < t \<and> t \<le> 65536"
proof -
  consider "t < 65536" | k where "t = 65536 + k" "k < 65536" | k where "t = 131072 + k" "k \<le> 65533"
  proof (cases "t < 65536")
    case False
    then show ?thesis using that(2) [of "t - 65536"] that(3) [of "t - 131072"] assms by (cases "t < 131072") auto
  qed (rule that(1))
  then show ?thesis
  proof cases
    case 2
    then have t: "t mod 65536 = k" "t mod 65535 = (k + 1) mod 65535"
      using mod_mult_self2 [of "k + 1" 65535 1] by simp_all
    show ?thesis using mod_not_shifted [of 1 65535 k] 2 unfolding t by simp
  next
    case 3
    then have t: "t mod 65536 = k" "t mod 65535 = (k + 2) mod 65535"
      using mod_mult_self2 [of "k + 2" 65535 2] mod_mult_self2 [of k 65536 2] by (simp_all add: add.commute)
    show ?thesis using mod_not_shifted [of 2 65535 k] 3 unfolding t by simp
  qed simp
qed

lemma ipv4_received:
  assumes "ip_packet_new pton seq dl AF_INET proto sa sp da dp data sm dm = Inr (p, seq')"
    and "pton_lengths pton"
  obtains saddr daddr where "getIPAddr pton AF_INET sa = Some saddr" and "getIPAddr pton AF_INET da = Some daddr"
    and "length saddr = 4" and "length daddr = 4"
    and "rx_pseudo_ipv4 (serialize_packet p) (pk_ipOffset p) = pseudo_ipv4 saddr daddr (length data)"
    and "rx_segment_ipv4 (serialize_packet p) (pk_ipOffset p)
      = udp_head sp dp (length data) (udp_check (pseudo_ipv4 saddr daddr (length data)) sp dp data) @ data"
    and "rx_checksum_part (serialize_packet p) (pk_ipOffset p) = udp_sum (pseudo_ipv4 saddr daddr (length data)) sp dp data"
proof (rule ip_packet_new_ipv4 [OF assms(1,2)])
  fix link saddr daddr :: bytes and check :: u16
  assume addr: "getIPAddr pton AF_INET sa = Some saddr" "getIPAddr pton AF_INET da = Some daddr"
    and len: "length saddr = 4" "length daddr = 4" and off: "pk_ipOffset p = length link"
    and buf: "pk_buf p = (let h = ipv4_head (28 + length data) (seq + 1); t = saddr @ daddr
       in link @ h @ word_le 2 (calcCheckSumm (h @ [0, 0] @ t)) @ t @ udp_head sp dp (length data) check)"
    and check: "check = udp_check (pseudo_ipv4 saddr daddr (length data)) sp dp data"
  let ?ps = "pseudo_ipv4 saddr daddr (length data)" and ?h = "udp_head sp dp (length data) check"
  have ser: "serialize_packet p = pk_buf p @ data"
    using ip_packet_new_buf [OF assms] by (simp add: serialize_packet_def)
  have seg: "rx_segment_ipv4 (serialize_packet p) (pk_ipOffset p) = ?h @ data"
    unfolding rx_segment_ipv4_def ser off buf Let_def using len by simp
  have drops: "take 8 (drop (length link + 12) (serialize_packet p)) = saddr @ daddr"
    "drop (length link + 24) (serialize_packet p) = drop 4 (?h @ data)"
    unfolding ser buf Let_def using len by simp_all
  have ps: "rx_pseudo_ipv4 (serialize_packet p) (pk_ipOffset p) = ?ps"
    unfolding rx_pseudo_ipv4_def off drops by (simp add: pseudo_ipv4_def udp_head_def del: of_nat_add)
  have part: "rx_checksum_part (serialize_packet p) (pk_ipOffset p) = udp_sum ?ps sp dp data"
    unfolding rx_checksum_part_def seg ps by (simp add: udp_sum_def udp_head_def numeral_2_eq_2 del: of_nat_add)
  show thesis by (rule that [OF addr len ps seg [unfolded check] part])
qed

text \<open>C21: the UDP checksum of an IPv4 packet the constructor builds is the one the standard asks for exactly when the
  sum of the three complements lies between 1 and 65536: then a receiver that adds the pseudo header, the UDP header
  and the payload finds 0, and in every other case it does not, and drops the packet.\<close>

theorem udp_checksum_exact:
  assumes "ip_packet_new pton seq dl AF_INET proto sa sp da dp data sm dm = Inr (p, seq')"
    and "pton_lengths pton" and "8 + length data < 65536"
  shows "calcCheckSumm (rx_pseudo_ipv4 (serialize_packet p) (pk_ipOffset p) @ rx_segment_ipv4 (serialize_packet p) (pk_ipOffset p)) = 0
    \<longleftrightarrow> 0 < rx_checksum_part (serialize_packet p) (pk_ipOffset p)
      \<and> rx_checksum_part (serialize_packet p) (pk_ipOffset p) \<le> 65536"
proof (rule ipv4_received [OF assms(1,2)])
  fix saddr daddr :: bytes
  let ?ps = "pseudo_ipv4 saddr daddr (length data)"
  let ?check = "udp_check ?ps sp dp data"
  assume len: "length saddr = 4" "length daddr = 4"
    and ps: "rx_pseudo_ipv4 (serialize_packet p) (pk_ipOffset p) = ?ps"
    and seg: "rx_segment_ipv4 (serialize_packet p) (pk_ipOffset p) = udp_head sp dp (length data) ?check @ data"
    and part: "rx_checksum_part (serialize_packet p) (pk_ipOffset p) = udp_sum ?ps sp dp data"
  have "udp_sum ?ps sp dp data \<le> 196605"
    using checksum_part_props(1) [of ?ps] checksum_part_props(1) [of "udp_head sp dp (length data) 0"]
      checksum_part_props(1) [of data] assms(3) len by (simp add: udp_sum_def pseudo_ipv4_def)
  note same = same_sum_iff [OF this]
  have rx: "calcCheckSumm (?ps @ udp_head sp dp (length data) ?check @ data) = 0 \<longleftrightarrow>
      (unat (htons ?check) + sum16 ?ps) mod 65535 = (udp_sum ?ps sp dp data + sum16 ?ps) mod 65535"
    using len assms(3) by (intro receiver_sum) (simp_all add: pseudo_ipv4_def)
  show ?thesis unfolding seg ps part rx mod_add_cancel using same by (simp add: udp_check_value)
qed

lemma udp_sum_small:
  assumes "sum16 ps < 65536" "sum16 (udp_head sp dp (length data) 0) < 65536" "sum16 data < 65536"
    and "length ps \<le> 131070" "length data \<le> 131070"
  shows "udp_sum ps sp dp data = 196605 - (sum16 ps + sum16 (udp_head sp dp (length data) 0) + sum16 data)"
  using assms by (simp add: udp_sum_def checksum_part_props(3))

lemma demo_ipv4_sum:
  assumes "ip_packet_new demo_pton flowSeq_init DLT_EN10MB AF_INET 17 ''a'' sp ''b'' dp data None None = Inr (p, s)"
    and "unat sp + unat dp + 8 + length data < 65536" and "sum16 data < 65536" and "length data \<le> 60000"
  shows "rx_checksum_part (serialize_packet p) (pk_ipOffset p)
    = 191450 - (unat sp + unat dp + 2 * length data + sum16 data)"
proof (rule ipv4_received [OF assms(1) demo_pton_lengths])
  fix saddr daddr :: bytes
  let ?ps = "pseudo_ipv4 saddr daddr (length data)"
  assume addr: "getIPAddr demo_pton AF_INET ''a'' = Some saddr" "getIPAddr demo_pton AF_INET ''b'' = Some daddr"
    and part: "rx_checksum_part (serialize_packet p) (pk_ipOffset p) = udp_sum ?ps sp dp data"
  have a: "saddr = [10, 0, 0, 1]" "daddr = [10, 0, 0, 1]"
    using addr by (simp_all add: getIPAddr_def demo_pton_def c_str_def)
  have n: "unat (word_of_nat (8 + length data) :: u16) = 8 + length data"
    using assms(2) by (simp only: unat_of_nat) simp
  have d: "length data \<le> 131070" using assms(2) by simp
  have s1: "sum16 ?ps = 5147 + length data"
    by (simp add: a pseudo_ipv4_def sum16_word_le n del: of_nat_add)
  have "sum16 (word_le 2 (0 :: u16)) = 0" by (simp only: sum16_word_le) simp
  then have s2: "sum16 (udp_head sp dp (length data) 0) = unat sp + unat dp + 8 + length data"
    by (simp add: udp_head_def sum16_append sum16_word_le n del: of_nat_add)
  show ?thesis unfolding part
    by (subst udp_sum_small) (use s1 s2 assms(2-4) d a in \<open>simp_all add: pseudo_ipv4_def\<close>)
qed

lemma demo_ipv4_packet:
  obtains p s where
    "ip_packet_new demo_pton flowSeq_init DLT_EN10MB AF_INET 17 ''a'' sp ''b'' dp data None None = Inr (p, s)"
proof -
  have "is_ok (ip_packet_new demo_pton flowSeq_init DLT_EN10MB AF_INET 17 ''a'' sp ''b'' dp data None None)"
    by (subst ip_packet_new_ok) (simp_all add: mac_readable_def dataLinkSize_def getIPAddr_def demo_pton_def c_str_def)
  then show ?thesis using that by (auto elim!: is_okE)
qed

text \<open>A packet with high ports and payload, whose sum stays below \<open>2^16\<close>, has a good checksum; one with the ports of SIP
  and a short payload has a wrong one: the carries of the two additions are lost.\<close>

theorem udp_checksum_exact_witness:
  "\<exists>p q s. ip_packet_new demo_pton flowSeq_init DLT_EN10MB AF_INET 17 ''a'' 40000 ''b'' 25000 [0xff, 0] None None = Inr (p, s)
    \<and> calcCheckSumm (rx_pseudo_ipv4 (serialize_packet p) (pk_ipOffset p) @ rx_segment_ipv4 (serialize_packet p) (pk_ipOffset p)) = 0
    \<and> ip_packet_new demo_pton flowSeq_init DLT_EN10MB AF_INET 17 ''a'' 5060 ''b'' 5061 [1, 2, 3] None None = Inr (q, s)
    \<and> calcCheckSumm (rx_pseudo_ipv4 (serialize_packet q) (pk_ipOffset q) @ rx_segment_ipv4 (serialize_packet q) (pk_ipOffset q)) \<noteq> 0"
proof -
  obtain p s where p: "ip_packet_new demo_pton flowSeq_init DLT_EN10MB AF_INET 17 ''a'' 40000 ''b'' 25000 [0xff, 0] None None = Inr (p, s)"
    by (rule demo_ipv4_packet)
  obtain q s' where q: "ip_packet_new demo_pton flowSeq_init DLT_EN10MB AF_INET 17 ''a'' 5060 ''b'' 5061 [1, 2, 3] None None = Inr (q, s')"
    by (rule demo_ipv4_packet)
  have "s' = s" using ip_packet_new_buf [OF p demo_pton_lengths] ip_packet_new_buf [OF q demo_pton_lengths] by simp
  with udp_checksum_exact [OF p demo_pton_lengths] demo_ipv4_sum [OF p] udp_checksum_exact [OF q demo_pton_lengths]
    demo_ipv4_sum [OF q] p q show ?thesis by (intro exI [of _ p] exI [of _ q] exI [of _ s]) simp
qed

subsection \<open>IPv6\<close>

text \<open>The standard pseudo header of IPv6 has the length of the datagram and the protocol in network byte order.\<close>

definition rfc_pseudo_ipv6 :: "bytes \<Rightarrow> bytes \<Rightarrow> nat \<Rightarrow> bytes" where
  "rfc_pseudo_ipv6 saddr daddr n = saddr @ daddr @ word_le 4 (htonl (word_of_nat (8 + n))) @ [0, 0, 0, 17]"

lemma sum16_be4: "v < 65536 \<Longrightarrow> sum16 (rev (to_le 4 v)) = v"
proof -
  assume v: "v < 65536"
  then have q: "v div 256 < 256" "v div 256 div 256 = 0" by simp_all
  have w: "unat (word_of_nat v :: byte) = v mod 256" "unat (word_of_nat (v div 256) :: byte) = v div 256"
    using q(1) by (simp_all add: unat_of_nat)
  have "rev (to_le 4 v) = [0, 0, word_of_nat (v div 256), word_of_nat v]"
    using q(2) by (simp add: to_le_4)
  then have "sum16 (rev (to_le 4 v)) = v mod 256 + 256 * (v div 256)" by (simp add: w)
  then show ?thesis by simp
qed

lemma sum16_pseudo_ipv6:
  assumes "length saddr = 16" "length daddr = 16" "8 + n < 65536"
  shows "sum16 (pseudo_ipv6 saddr daddr) = sum16 saddr + sum16 daddr + 4352"
    and "sum16 (rfc_pseudo_ipv6 saddr daddr n) = sum16 saddr + sum16 daddr + 25 + n"
proof -
  have "word_le 4 (17 :: u32) = [17, 0, 0, 0]" by (simp add: word_le_def to_le_4)
  then show "sum16 (pseudo_ipv6 saddr daddr) = sum16 saddr + sum16 daddr + 4352"
    using assms by (simp add: pseudo_ipv6_def sum16_append)
  have n: "unat (word_of_nat (8 + n) :: u32) = 8 + n" using assms(3) by (simp only: unat_of_nat) simp
  have "word_le 4 (htonl (word_of_nat (8 + n))) = rev (to_le 4 (8 + n))"
    by (simp only: word_le_htonl) (simp only: word_le_def n)
  moreover have "sum16 (rev (to_le 4 (8 + n))) = 8 + n"
    using assms(3) by (rule sum16_be4)
  ultimately show "sum16 (rfc_pseudo_ipv6 saddr daddr n) = sum16 saddr + sum16 daddr + 25 + n"
    using assms by (simp add: rfc_pseudo_ipv6_def sum16_append del: of_nat_add)
qed

text \<open>With the code's pseudo header, and where no carry is lost, the checksum of an IPv6 datagram is right only for a
  length of 4335 bytes: the protocol counts 17 times 256 and the length not at all.\<close>

lemma udp6_checksum_wrong:
  assumes "length saddr = 16" and "length daddr = 16" and "8 + length data < 65536"
    and "0 < udp_sum (pseudo_ipv6 saddr daddr) sp dp data" and "udp_sum (pseudo_ipv6 saddr daddr) sp dp data < 65536"
  shows "calcCheckSumm (rfc_pseudo_ipv6 saddr daddr (length data)
      @ udp_head sp dp (length data) (udp_check (pseudo_ipv6 saddr daddr) sp dp data) @ data) = 0
    \<longleftrightarrow> 8 + length data = 4335"
proof -
  let ?ps = "pseudo_ipv6 saddr daddr" and ?rfc = "rfc_pseudo_ipv6 saddr daddr (length data)"
  let ?s = "sum16 saddr + sum16 daddr" and ?t = "udp_sum ?ps sp dp data"
  have len: "length ?ps = 40" "length ?rfc = 40" using assms(1,2) by (simp_all add: pseudo_ipv6_def rfc_pseudo_ipv6_def)
  have sums: "sum16 ?ps = ?s + 4352" "sum16 ?rfc = ?s + 25 + length data"
    using sum16_pseudo_ipv6 [OF assms(1-3)] by simp_all
  have "?t + (?s + 25 + length data) = 25 + length data + (?t + ?s)" "?t + (?s + 4352) = 4352 + (?t + ?s)" by simp_all
  then have "(?t + (?s + 25 + length data)) mod 65535 = (?t + (?s + 4352)) mod 65535
      \<longleftrightarrow> (25 + length data) mod 65535 = 4352 mod 65535" by (simp only: mod_add_cancel)
  moreover have "(25 + length data) mod 65535 = 4352 \<longleftrightarrow> 8 + length data = 4335"
  proof (cases "25 + length data < 65535")
    case False
    then have "(25 + length data) mod 65535 = 25 + length data - 65535" using assms(3) by (simp add: mod_if)
    then show ?thesis using False assms(3) by auto
  qed auto
  ultimately show ?thesis
    using assms(3-5) len sums by (subst receiver_sum) (simp_all add: udp_check_value)
qed

end
