(* ===== verification/Pcap_Ostream.thy ===== *)
theory Pcap_Ostream
  imports Ip_Packet
begin

section \<open>OStream: writing a pcap file (pcap/tools/ostream.cpp)\<close>

text \<open>
  \<open>OStream\<close> writes the pcap file header when it is constructed and then a record header and a
  packet per \<open>write\<close>. The \<open>std::ostream\<close> it writes to is a \<open>sink\<close>: the bytes written, the
  \<open>good()\<close> bit, and the number of bytes the device still takes (\<open>None\<close>: unlimited). A write to
  a stream that is not good writes nothing; a write the device cannot hold writes a prefix and
  clears \<open>good\<close>. \<open>std::time\<close> is the argument \<open>now\<close>.
\<close>

record sink =
  sk_content :: bytes
  sk_good :: bool
  sk_room :: "nat option"

definition sink_write :: "bytes \<Rightarrow> sink \<Rightarrow> sink" where
  "sink_write bs s =
     (if \<not> sk_good s then s
      else case sk_room s of
        None \<Rightarrow> s\<lparr>sk_content := sk_content s @ bs\<rparr>
      | Some n \<Rightarrow>
          if length bs \<le> n then s\<lparr>sk_content := sk_content s @ bs, sk_room := Some (n - length bs)\<rparr>
          else s\<lparr>sk_content := sk_content s @ take n bs, sk_room := Some 0, sk_good := False\<rparr>)"

record ostream =
  os_datalink :: u32
  os_total :: nat
  os_out :: sink
  os_created :: int
  os_modified :: int

text \<open>\<open>pcap_file_header\<close> and \<open>pcaprec_hdr_s\<close> in memory order.\<close>

definition pcap_file_hdr :: "u32 \<Rightarrow> bytes" where
  "pcap_file_hdr datalink =
     word_le 4 (0xa1b2c3d4 :: u32) @ word_le 2 (2 :: u16) @ word_le 2 (4 :: u16) @ word_le 4 (0 :: u32)
     @ word_le 4 (0 :: u32) @ word_le 4 (0xFFFF :: u32) @ word_le 4 datalink"

definition pcap_rec_hdr :: "timeval \<Rightarrow> u32 \<Rightarrow> bytes" where
  "pcap_rec_hdr ts len =
     word_le 4 (word_of_int (tv_sec ts) :: u32) @ word_le 4 (word_of_int (tv_usec ts) :: u32)
     @ word_le 4 len @ word_le 4 len"

definition testDataLink :: "u32 \<Rightarrow> u32 result" where
  "testDataLink datalink =
     (case dataLinkSize (sint datalink) of
        Inl _ \<Rightarrow> Inl (RuntimeError (''pcap.ostream: unsupported datalink='' @ string_of_nat (unat datalink)))
      | Inr _ \<Rightarrow> Inr datalink)"

definition ostream_new :: "int \<Rightarrow> sink \<Rightarrow> u32 \<Rightarrow> ostream result" where
  "ostream_new now out datalink =
     rbind (testDataLink datalink) (\<lambda>dl.
       let out' = sink_write (pcap_file_hdr datalink) out
       in if \<not> sk_good out' then Inl (RuntimeError ''pcap.ostream: init failed'')
          else Inr \<lparr>os_datalink = dl, os_total = 24, os_out = out', os_created = now, os_modified = now\<rparr>)"

text \<open>
  \<open>write\<close> may throw after it has changed the stream, so it returns the exception, if any, beside the
  state. \<open>sout() << packet\<close> is \<open>serialize\<close>: the payload is written only if the headers were.
\<close>

definition sink_serialize :: "ip_packet \<Rightarrow> sink \<Rightarrow> sink" where
  "sink_serialize p s =
     (let s' = sink_write (take (pk_currentOffset p) (pk_buf p)) s
      in if \<not> sk_good s' then s' else sink_write (pk_data p) s')"

definition ostream_write ::
  "pton \<Rightarrow> int \<Rightarrow> timeval \<Rightarrow> int \<Rightarrow> int \<Rightarrow> string \<Rightarrow> u16 \<Rightarrow> string \<Rightarrow> u16 \<Rightarrow> bytes
    \<Rightarrow> ostream \<Rightarrow> u32 \<Rightarrow> error option \<times> ostream \<times> u32" where
  "ostream_write pton now ts af proto srcAddr srcPort dstAddr dstPort data os seq =
     (case ip_packet_new pton seq (sint (os_datalink os)) af proto srcAddr srcPort dstAddr dstPort data None None of
        Inl e \<Rightarrow> (Some e, os, seq)
      | Inr (packet, seq) \<Rightarrow>
          let len = word_of_nat (packet_size packet) :: u32;
              os = os\<lparr>os_out := sink_write (pcap_rec_hdr ts len) (os_out os)\<rparr>
          in if \<not> sk_good (os_out os)
             then (Some (RuntimeError ''pcap.ostream: failed to write packet header''), os, seq)
             else
               (let os = os\<lparr>os_total := os_total os + 16\<rparr>;
                    os = os\<lparr>os_out := sink_serialize packet (os_out os)\<rparr>
                in if \<not> sk_good (os_out os)
                   then (Some (RuntimeError ''pcap.ostream: failed to write packet data''), os, seq)
                   else (None, os\<lparr>os_total := os_total os + unat len, os_modified := now\<rparr>, seq)))"


subsection \<open>What was written: a reader of pcap files\<close>

text \<open>
  The reference reader follows the file format: it checks the magic number and the version, then
  takes records of a 16-byte header and \<open>incl_len\<close> bytes until the file ends.
\<close>

type_synonym pcap_rec = "u32 \<times> u32 \<times> bytes"

function read_records :: "bytes \<Rightarrow> pcap_rec list option" where
  "read_records d =
     (if d = [] then Some []
      else if length d < 16 then None
      else (let sec = le_word (take 4 d); usec = le_word (take 4 (drop 4 d));
                incl = le_nat (take 4 (drop 8 d)); body = drop 16 d
            in if length body < incl then None
               else map_option (\<lambda>rs. (sec, usec, take incl body) # rs) (read_records (drop incl body))))"
  by pat_completeness auto

termination read_records
  by (relation "measure length") auto

declare read_records.simps [simp del]

definition read_pcap :: "bytes \<Rightarrow> (u32 \<times> pcap_rec list) option" where
  "read_pcap d =
     (if length d < 24 \<or> take 8 d \<noteq> word_le 4 (0xa1b2c3d4 :: u32) @ word_le 2 (2 :: u16) @ word_le 2 (4 :: u16)
      then None
      else map_option (Pair (le_word (take 4 (drop 20 d)))) (read_records (drop 24 d)))"

lemma length_pcap_file_hdr [simp, byte_simps]: "length (pcap_file_hdr dl) = 24"
  by (simp add: pcap_file_hdr_def)

lemma length_pcap_rec_hdr [simp, byte_simps]: "length (pcap_rec_hdr ts len) = 16"
  by (simp add: pcap_rec_hdr_def)

lemma read_records_Nil [simp]: "read_records [] = Some []"
  by (simp add: read_records.simps)

lemma read_records_Cons:
  assumes "length body < 2 ^ 32"
  shows "read_records (pcap_rec_hdr ts (word_of_nat (length body)) @ body @ rest) =
    map_option (\<lambda>rs. (word_of_int (tv_sec ts), word_of_int (tv_usec ts), body) # rs) (read_records rest)"
proof -
  let ?h = "pcap_rec_hdr ts (word_of_nat (length body))"
  have len: "le_nat (take 4 (drop 8 ?h)) = length body"
    using assms by (simp add: pcap_rec_hdr_def word_le_def le_nat_to_le unat_of_nat)
  have ts: "le_word (take 4 ?h) = (word_of_int (tv_sec ts) :: u32)"
    "le_word (take 4 (drop 4 ?h)) = (word_of_int (tv_usec ts) :: u32)"
    by (simp_all add: pcap_rec_hdr_def le_word_word_le)
  have "length ?h = 16" by simp
  then have "?h \<noteq> []" by (cases ?h) simp_all
  then show ?thesis
    by (subst read_records.simps) (simp add: len ts Let_def)
qed

text \<open>Several packets written one after the other; the first exception ends the run.\<close>

record packet_req =
  rq_ts :: timeval
  rq_af :: int
  rq_proto :: int
  rq_srcAddr :: string
  rq_srcPort :: u16
  rq_dstAddr :: string
  rq_dstPort :: u16
  rq_data :: bytes

definition write_req :: "pton \<Rightarrow> int \<Rightarrow> packet_req \<Rightarrow> ostream \<Rightarrow> u32 \<Rightarrow> error option \<times> ostream \<times> u32" where
  "write_req pton now r os seq =
     ostream_write pton now (rq_ts r) (rq_af r) (rq_proto r) (rq_srcAddr r) (rq_srcPort r)
       (rq_dstAddr r) (rq_dstPort r) (rq_data r) os seq"

fun write_all :: "pton \<Rightarrow> int \<Rightarrow> packet_req list \<Rightarrow> ostream \<Rightarrow> u32 \<Rightarrow> error option \<times> ostream \<times> u32" where
  "write_all pton now [] os seq = (None, os, seq)"
| "write_all pton now (r # rs) os seq =
     (case write_req pton now r os seq of
        (None, os', seq') \<Rightarrow> write_all pton now rs os' seq'
      | (Some e, os', seq') \<Rightarrow> (Some e, os', seq'))"

text \<open>The packet a request stands for, the \<open>k\<close>-th of the process.\<close>

definition req_packet :: "pton \<Rightarrow> u32 \<Rightarrow> u32 \<Rightarrow> packet_req \<Rightarrow> ip_packet result" where
  "req_packet pton dl seq r =
     rbind (ip_packet_new pton seq (sint dl) (rq_af r) (rq_proto r) (rq_srcAddr r) (rq_srcPort r)
       (rq_dstAddr r) (rq_dstPort r) (rq_data r) None None) (\<lambda>(p, _). Inr p)"

fun req_records :: "pton \<Rightarrow> u32 \<Rightarrow> u32 \<Rightarrow> packet_req list \<Rightarrow> pcap_rec list" where
  "req_records pton dl seq [] = []"
| "req_records pton dl seq (r # rs) =
     (word_of_int (tv_sec (rq_ts r)), word_of_int (tv_usec (rq_ts r)),
        case req_packet pton dl seq r of Inr p \<Rightarrow> serialize_packet p | Inl _ \<Rightarrow> [])
     # req_records pton dl (seq + 1) rs"

lemma sink_write_frame:
  "\<exists>bs'. sk_content (sink_write bs s) = sk_content s @ bs' \<and> length bs' \<le> length bs"
  "sk_good (sink_write bs s) \<Longrightarrow> sk_good s \<and> sk_content (sink_write bs s) = sk_content s @ bs"
  by (auto simp: sink_write_def split: option.splits if_splits)

lemma sink_serialize_good:
  assumes "sk_good (sink_serialize p s)"
  shows "sk_content (sink_serialize p s) = sk_content s @ serialize_packet p"
  using assms sink_write_frame(2)
  by (auto simp: sink_serialize_def Let_def serialize_packet_def split: if_splits)

lemma sink_serialize_extends: "\<exists>bs'. sk_content (sink_serialize p s) = sk_content s @ bs'"
  unfolding sink_serialize_def Let_def
  using sink_write_frame(1) by (smt (verit) append.assoc)

lemma ostream_write_ok:
  assumes "ostream_write pton now ts af proto sa sp da dp data os seq = (None, os', seq')"
    and "pton_lengths pton" and "length data < 2 ^ 32 - 62"
  obtains p where "ip_packet_new pton seq (sint (os_datalink os)) af proto sa sp da dp data None None = Inr (p, seq + 1)"
    and "seq' = seq + 1" and "length (serialize_packet p) < 2 ^ 32"
    and "sk_content (os_out os') = sk_content (os_out os)
      @ pcap_rec_hdr ts (word_of_nat (length (serialize_packet p))) @ serialize_packet p"
    and "os_total os' = os_total os + 16 + length (serialize_packet p)"
    and "os_datalink os' = os_datalink os" and "sk_good (os_out os')"
proof -
  let ?new = "ip_packet_new pton seq (sint (os_datalink os)) af proto sa sp da dp data None None"
  from assms(1) obtain p s1 where new: "?new = Inr (p, s1)"
    by (auto simp: ostream_write_def split: sum.splits)
  have sz: "s1 = seq + 1" "packet_size p = length (serialize_packet p)" "packet_size p < 2 ^ 32"
    using ip_packet_new_buf [OF new assms(2)] assms(3) by (simp_all add: serialize_packet_def packet_size_def)
  let ?len = "word_of_nat (packet_size p) :: u32"
  let ?s1 = "sink_write (pcap_rec_hdr ts ?len) (os_out os)"
  have good: "sk_good ?s1" "sk_good (sink_serialize p ?s1)"
    and os': "os' = os\<lparr>os_total := os_total os + 16 + unat ?len, os_modified := now, os_out := sink_serialize p ?s1\<rparr>"
    and seq': "seq' = s1"
    using assms(1) by (auto simp: ostream_write_def new Let_def split: if_splits)
  have "unat ?len = packet_size p" using sz(3) by (simp add: unat_of_nat)
  then show ?thesis
    using that new sz os' seq' good sink_write_frame(2) [OF good(1)] sink_serialize_good [OF good(2)]
    by simp
qed

text \<open>The records of a run and the invariant on \<open>total_\<close>.\<close>

lemma write_all_records:
  assumes "write_all pton now rs os seq = (None, os', seq')" and "pton_lengths pton"
    and "\<forall>r \<in> set rs. length (rq_data r) < 2 ^ 32 - 62"
  shows "\<exists>bs. sk_content (os_out os') = sk_content (os_out os) @ bs
    \<and> read_records bs = Some (req_records pton (os_datalink os) seq rs)
    \<and> os_total os' = os_total os + length bs \<and> os_datalink os' = os_datalink os"
  using assms
proof (induction rs arbitrary: os seq)
  case Nil
  then show ?case by simp
next
  case (Cons r rs)
  obtain os1 s1 where w: "write_req pton now r os seq = (None, os1, s1)"
    and rest: "write_all pton now rs os1 s1 = (None, os', seq')"
    using Cons.prems(1) by (auto split: prod.splits option.splits)
  have "length (rq_data r) < 2 ^ 32 - 62" using Cons.prems(3) by simp
  then obtain p where new: "ip_packet_new pton seq (sint (os_datalink os)) (rq_af r) (rq_proto r) (rq_srcAddr r)
        (rq_srcPort r) (rq_dstAddr r) (rq_dstPort r) (rq_data r) None None = Inr (p, seq + 1)"
    and s1: "s1 = seq + 1" and lt: "length (serialize_packet p) < 2 ^ 32"
    and c: "sk_content (os_out os1) = sk_content (os_out os)
      @ pcap_rec_hdr (rq_ts r) (word_of_nat (length (serialize_packet p))) @ serialize_packet p"
    and t: "os_total os1 = os_total os + 16 + length (serialize_packet p)"
    and dl: "os_datalink os1 = os_datalink os"
    by (rule ostream_write_ok [OF w [unfolded write_req_def] Cons.prems(2)])
  obtain bs where bs: "sk_content (os_out os') = sk_content (os_out os1) @ bs"
    "read_records bs = Some (req_records pton (os_datalink os) (seq + 1) rs)"
    "os_total os' = os_total os1 + length bs" "os_datalink os' = os_datalink os"
    using Cons.IH [OF rest Cons.prems(2)] Cons.prems(3) s1 dl by auto
  let ?all = "pcap_rec_hdr (rq_ts r) (word_of_nat (length (serialize_packet p))) @ serialize_packet p @ bs"
  have "read_records ?all = Some (req_records pton (os_datalink os) seq (r # rs))"
    using read_records_Cons [OF lt, of "rq_ts r" bs] bs(2) by (simp add: req_packet_def new)
  then show ?case using bs c t by (intro exI [of _ ?all]) simp
qed

lemma ostream_new_ok:
  assumes "ostream_new now out dl = Inr os"
  shows "sk_content (os_out os) = sk_content out @ pcap_file_hdr dl \<and> os_total os = 24
    \<and> os_datalink os = dl \<and> is_ok (dataLinkSize (sint dl)) \<and> sk_good (os_out os)"
  using assms sink_write_frame(2) [of "pcap_file_hdr dl" out]
  by (auto simp: ostream_new_def rbind_eq_Inr testDataLink_def Let_def split: sum.splits if_splits)

lemma read_pcap_file:
  "read_pcap (pcap_file_hdr dl @ bs) = map_option (Pair dl) (read_records bs)"
  by (simp add: read_pcap_def pcap_file_hdr_def le_word_word_le)

definition empty_sink :: "nat option \<Rightarrow> sink" where
  "empty_sink room = \<lparr>sk_content = [], sk_good = True, sk_room = room\<rparr>"

text \<open>C19: what \<open>OStream\<close> writes is a pcap file: a reader of the format gets back the link type given
  to the constructor and, for every \<open>write\<close>, a record with its time stamp and exactly the bytes of
  the packet built from its arguments, in the order of the writes; and \<open>total()\<close> is the size of
  the file.\<close>

theorem ostream_roundtrip:
  assumes "ostream_new now0 (empty_sink room) dl = Inr os"
    and "write_all pton now rs os seq = (None, os', seq')" and "pton_lengths pton"
    and "\<forall>r \<in> set rs. length (rq_data r) < 2 ^ 32 - 62"
  shows "read_pcap (sk_content (os_out os')) = Some (dl, req_records pton dl seq rs)
    \<and> os_total os' = length (sk_content (os_out os'))"
proof -
  have new: "sk_content (os_out os) = pcap_file_hdr dl" "os_total os = 24" "os_datalink os = dl"
    using ostream_new_ok [OF assms(1)] by (simp_all add: empty_sink_def)
  obtain bs where "sk_content (os_out os') = pcap_file_hdr dl @ bs"
    "read_records bs = Some (req_records pton dl seq rs)" "os_total os' = 24 + length bs"
    using write_all_records [OF assms(2-4)] new by auto
  then show ?thesis by (simp add: read_pcap_file)
qed

definition demo_req :: packet_req where
  "demo_req = \<lparr>rq_ts = \<lparr>tv_sec = 7, tv_usec = 9\<rparr>, rq_af = AF_INET, rq_proto = 17, rq_srcAddr = ''a'',
     rq_srcPort = 5060, rq_dstAddr = ''b'', rq_dstPort = 5061, rq_data = [1, 2, 3]\<rparr>"

lemma ostream_new_demo: "\<exists>os. ostream_new 0 (empty_sink None) 1 = Inr os \<and> os_datalink os = 1
    \<and> sk_good (os_out os) \<and> sk_room (os_out os) = None"
  by (simp add: ostream_new_def testDataLink_def dataLinkSize_def empty_sink_def sink_write_def)

lemma write_req_demo:
  assumes "os_datalink os = 1" "sk_good (os_out os)" "sk_room (os_out os) = None"
  shows "\<exists>os' s'. write_req demo_pton now demo_req os flowSeq_init = (None, os', s')"
proof -
  obtain p s where "ip_packet_new demo_pton flowSeq_init DLT_EN10MB AF_INET 17 ''a'' 5060 ''b'' 5061 [1, 2, 3] None None = Inr (p, s)"
    using demo_packet [of AF_INET "''b''"] by auto
  then show ?thesis using assms
    by (simp add: write_req_def demo_req_def ostream_write_def sink_write_def sink_serialize_def Let_def)
qed

theorem ostream_roundtrip_witness:
  "\<exists>os os' s'. ostream_new 0 (empty_sink None) 1 = Inr os
    \<and> write_all demo_pton 5 [demo_req] os flowSeq_init = (None, os', s')
    \<and> read_pcap (sk_content (os_out os')) = Some (1, req_records demo_pton 1 flowSeq_init [demo_req])"
proof -
  obtain os where os: "ostream_new 0 (empty_sink None) 1 = Inr os" "os_datalink os = 1"
    "sk_good (os_out os)" "sk_room (os_out os) = None" using ostream_new_demo by blast
  obtain os' s' where "write_req demo_pton 5 demo_req os flowSeq_init = (None, os', s')"
    using write_req_demo [OF os(2-4)] by blast
  then have w: "write_all demo_pton 5 [demo_req] os flowSeq_init = (None, os', s')" by simp
  have "\<forall>r \<in> set [demo_req]. length (rq_data r) < 2 ^ 32 - 62" by (simp add: demo_req_def)
  with ostream_roundtrip [OF os(1) w demo_pton_lengths] os(1) w show ?thesis by blast
qed

text \<open>Whatever fails, \<open>total_\<close> never exceeds the bytes in the file, and a packet that cannot be built
  leaves the file as it was.\<close>

lemma ostream_write_total:
  assumes "ostream_write pton now ts af proto sa sp da dp data os seq = (r, os', seq')"
    and "pton_lengths pton" and "length data < 2 ^ 32 - 62"
  shows "\<exists>bs. sk_content (os_out os') = sk_content (os_out os) @ bs
    \<and> os_total os' \<le> os_total os + length bs \<and> (r = None \<longrightarrow> os_total os' = os_total os + length bs)"
proof (cases r)
  case None
  show ?thesis
    by (rule ostream_write_ok [OF assms(1) [unfolded None] assms(2,3)]) (use None in simp)
next
  case (Some e)
  show ?thesis
  proof (cases "ip_packet_new pton seq (sint (os_datalink os)) af proto sa sp da dp data None None")
    case (Inl e')
    then show ?thesis using assms(1) Some by (auto simp: ostream_write_def)
  next
    case (Inr ps)
    obtain p s where ps: "ps = (p, s)" by (cases ps)
    let ?h = "pcap_rec_hdr ts (word_of_nat (packet_size p))"
    obtain b1 where b1: "sk_content (sink_write ?h (os_out os)) = sk_content (os_out os) @ b1"
      using sink_write_frame(1) by blast
    obtain b2 where b2: "sk_content (sink_serialize p (sink_write ?h (os_out os))) = sk_content (os_out os) @ b1 @ b2"
      using sink_serialize_extends b1 by (metis append.assoc)
    have b1h: "sk_good (sink_write ?h (os_out os)) \<Longrightarrow> b1 = ?h"
      using sink_write_frame(2) [of ?h "os_out os"] b1 by simp
    show ?thesis
    proof (cases "sk_good (sink_write ?h (os_out os))")
      case True
      then have "r \<noteq> None \<longrightarrow> sk_content (os_out os') = sk_content (os_out os) @ b1 @ b2 \<and> os_total os' = os_total os + 16"
        using assms(1) Inr ps b2 by (auto simp: ostream_write_def Let_def split: if_splits)
      then show ?thesis using Some b1h [OF True] by (intro exI [of _ "b1 @ b2"]) simp
    next
      case False
      then have "sk_content (os_out os') = sk_content (os_out os) @ b1 \<and> os_total os' = os_total os"
        using assms(1) Inr ps b1 by (auto simp: ostream_write_def Let_def split: if_splits)
      then show ?thesis using Some by (intro exI [of _ b1]) simp
    qed
  qed
qed

lemma write_all_total:
  assumes "write_all pton now rs os seq = (r, os', seq')" and "pton_lengths pton"
    and "\<forall>r \<in> set rs. length (rq_data r) < 2 ^ 32 - 62"
    and "os_total os \<le> length (sk_content (os_out os))"
  shows "os_total os' \<le> length (sk_content (os_out os'))"
  using assms
proof (induction rs arbitrary: os seq)
  case (Cons q rs)
  obtain r1 os1 s1 where w: "write_req pton now q os seq = (r1, os1, s1)" by (metis prod_cases3)
  have "length (rq_data q) < 2 ^ 32 - 62" using Cons.prems(3) by simp
  from ostream_write_total [OF w [unfolded write_req_def] Cons.prems(2) this] Cons.prems(4)
  have "os_total os1 \<le> length (sk_content (os_out os1))" by auto
  then show ?case using Cons.IH [of os1 s1] Cons.prems w by (cases r1) auto
qed simp

end
