(* ===== verification/Parsers.thy ===== *)
theory Parsers
  imports Prelude
begin

unbundle bit_operations_syntax

section \<open>Packet parsers (pcap/parsers)\<close>

text \<open>
  A parser turns a captured frame into packets. The virtual \<open>payload(data, len, info)\<close> returns a
  pointer into the frame and fills \<open>info\<close>; a pointer is modelled as its offset from \<open>data\<close>, so
  \<open>data + len\<close>, the answer for a frame that is not understood, is the offset \<open>length d\<close>. Every
  access to a header field is a bounded read of the frame. \<open>inet_ntop\<close> is the parameter \<open>ntop\<close>.
  The class hierarchy \<open>Raw \<leftarrow> Datalink \<leftarrow> IP \<leftarrow> TCP, UDP, Smart\<close> is one definition of \<open>payload\<close> per
  class, each calling the one of its base class, and \<open>payload\<close> of a \<open>parser_kind\<close> for the dispatch.
\<close>

type_synonym ntop = "int \<Rightarrow> bytes \<Rightarrow> string option"

record pinfo =
  pi_ip :: int
  pi_proto :: int
  pi_ts :: timeval
  pi_srcAddr :: string
  pi_srcPort :: u16
  pi_dstAddr :: string
  pi_dstPort :: u16

definition pinfo0 :: pinfo where
  "pinfo0 = \<lparr>pi_ip = 0, pi_proto = 0, pi_ts = \<lparr>tv_sec = 0, tv_usec = 0\<rparr>, pi_srcAddr = [], pi_srcPort = 0,
     pi_dstAddr = [], pi_dstPort = 0\<rparr>"

record packet =
  pkt_data :: bytes
  pkt_info :: pinfo

subsection \<open>The parsers\<close>

definition raw_payload :: "bytes \<Rightarrow> pinfo \<Rightarrow> (nat \<times> pinfo) result" where
  "raw_payload d info = Inr (0, info)"

definition headerSize :: "int \<Rightarrow> nat \<Rightarrow> nat" where
  "headerSize dl len =
     (if dl = DLT_RAW then 0
      else if dl = DLT_NULL \<or> dl = DLT_LOOP then 4
      else if dl = DLT_EN10MB then 14
      else if dl = DLT_LINUX_SLL then 16
      else len)"

definition datalink_payload :: "int \<Rightarrow> bytes \<Rightarrow> pinfo \<Rightarrow> (nat \<times> pinfo) result" where
  "datalink_payload dl d info =
     rbind (raw_payload d info) (\<lambda>(p, info).
       let offset = headerSize dl (length d)
       in if p + offset < length d then Inr (p + offset, info) else Inr (length d, info))"

text \<open>\<open>IP::ipv4\<close> and \<open>IP::ipv6\<close>: an address the library cannot print is the empty string.\<close>

definition ipv4_str :: "ntop \<Rightarrow> bytes \<Rightarrow> string" where
  "ipv4_str ntop addr = (case ntop AF_INET addr of Some s \<Rightarrow> c_str s | None \<Rightarrow> [])"

definition ipv6_str :: "ntop \<Rightarrow> bytes \<Rightarrow> string" where
  "ipv6_str ntop addr = (case ntop AF_INET6 addr of Some s \<Rightarrow> c_str s | None \<Rightarrow> [])"

definition nib_hi :: "byte \<Rightarrow> nat" where
  "nib_hi b = unat (drop_bit 4 b)"

definition nib_lo :: "byte \<Rightarrow> nat" where
  "nib_lo b = unat (b AND 15)"

definition ip_payload :: "ntop \<Rightarrow> int \<Rightarrow> bytes \<Rightarrow> pinfo \<Rightarrow> (nat \<times> pinfo) result" where
  "ip_payload ntop dl d info =
     rbind (datalink_payload dl d info) (\<lambda>(p, info).
       if p + 20 < length d then
         rbind (rdw p 1 d) (\<lambda>b0.
           if nib_hi b0 = 4 then
             (let offset = nib_lo b0 * 4
              in if p + offset < length d then
                   rbind (rdw (p + 9) 1 d) (\<lambda>proto.
                   rbind (rd (p + 12) 4 d) (\<lambda>saddr.
                   rbind (rd (p + 16) 4 d) (\<lambda>daddr.
                     Inr (p + offset, info\<lparr>pi_ip := int (nib_hi b0), pi_proto := uint (proto :: byte),
                            pi_srcAddr := ipv4_str ntop saddr, pi_dstAddr := ipv4_str ntop daddr\<rparr>))))
                 else Inr (length d, info))
           else if nib_hi b0 = 6 then
             (let offset = 40
              in if p + offset < length d then
                   rbind (rdw (p + 6) 1 d) (\<lambda>nxt.
                   rbind (rd (p + 8) 16 d) (\<lambda>saddr.
                   rbind (rd (p + 24) 16 d) (\<lambda>daddr.
                     Inr (p + offset, info\<lparr>pi_ip := int (nib_hi b0), pi_proto := uint (nxt :: byte),
                            pi_srcAddr := ipv6_str ntop saddr, pi_dstAddr := ipv6_str ntop daddr\<rparr>))))
                 else Inr (length d, info))
           else Inr (length d, info))
       else Inr (length d, info))"

definition tcp_payload :: "ntop \<Rightarrow> int \<Rightarrow> bytes \<Rightarrow> pinfo \<Rightarrow> (nat \<times> pinfo) result" where
  "tcp_payload ntop dl d info =
     rbind (ip_payload ntop dl d info) (\<lambda>(p, info).
       if p + 20 < length d then
         rbind (rdw (p + 12) 1 d) (\<lambda>b.
           let offset = nib_hi b * 4
           in if p + offset < length d then
                rbind (rdw p 2 d) (\<lambda>sport.
                rbind (rdw (p + 2) 2 d) (\<lambda>dport.
                  Inr (p + offset, info\<lparr>pi_srcPort := htons sport, pi_dstPort := htons dport\<rparr>)))
              else Inr (length d, info))
       else Inr (length d, info))"

definition udp_payload :: "ntop \<Rightarrow> int \<Rightarrow> bytes \<Rightarrow> pinfo \<Rightarrow> (nat \<times> pinfo) result" where
  "udp_payload ntop dl d info =
     rbind (ip_payload ntop dl d info) (\<lambda>(p, info).
       if p + 8 < length d then
         rbind (rdw (p + 4) 2 d) (\<lambda>len.
           if p + unat (htons len) \<le> length d then
             rbind (rdw p 2 d) (\<lambda>source.
             rbind (rdw (p + 2) 2 d) (\<lambda>dest.
               Inr (p + 8, info\<lparr>pi_srcPort := htons source, pi_dstPort := htons dest\<rparr>)))
           else Inr (length d, info))
       else Inr (length d, info))"

definition smart_payload :: "ntop \<Rightarrow> int \<Rightarrow> bytes \<Rightarrow> pinfo \<Rightarrow> (nat \<times> pinfo) result" where
  "smart_payload ntop dl d info =
     rbind (ip_payload ntop dl d info) (\<lambda>(p, info).
       if pi_proto info = IPPROTO_TCP then tcp_payload ntop dl d info
       else if pi_proto info = IPPROTO_UDP then udp_payload ntop dl d info
       else Inr (p, info))"

text \<open>\<open>Raw::packets\<close>, which every parser of this hierarchy inherits.\<close>

definition raw_packets :: "(bytes \<Rightarrow> pinfo \<Rightarrow> (nat \<times> pinfo) result) \<Rightarrow> bytes \<Rightarrow> timeval \<Rightarrow> packet list result" where
  "raw_packets payload d ts =
     rbind (payload d (pinfo0\<lparr>pi_ts := ts\<rparr>)) (\<lambda>(p, info).
       Inr (if p < length d then [\<lparr>pkt_data = drop p d, pkt_info = info\<rparr>] else []))"

datatype parser_kind = RawP | DatalinkP | IpP | TcpP | UdpP | SmartP

primrec payload_of :: "parser_kind \<Rightarrow> ntop \<Rightarrow> int \<Rightarrow> bytes \<Rightarrow> pinfo \<Rightarrow> (nat \<times> pinfo) result" where
  "payload_of RawP = (\<lambda>ntop dl. raw_payload)"
| "payload_of DatalinkP = (\<lambda>ntop. datalink_payload)"
| "payload_of IpP = ip_payload"
| "payload_of TcpP = tcp_payload"
| "payload_of UdpP = udp_payload"
| "payload_of SmartP = smart_payload"

definition parser_packets :: "parser_kind \<Rightarrow> ntop \<Rightarrow> int \<Rightarrow> bytes \<Rightarrow> timeval \<Rightarrow> packet list result" where
  "parser_packets k ntop dl = raw_packets (payload_of k ntop dl)"


subsection \<open>The contract of \<open>payload\<close>\<close>

text \<open>
  The contract \<open>Raw::packets\<close> and the VoIP reassembler rely on: \<open>payload\<close> reads inside the frame
  only and answers with a position inside it or at its end; a parser of this hierarchy also leaves
  the time stamp of the capture alone.
\<close>

locale frame_parser =
  fixes payload :: "bytes \<Rightarrow> pinfo \<Rightarrow> (nat \<times> pinfo) result"
  assumes payload_bounded: "\<exists>p info'. payload d info = Inr (p, info') \<and> p \<le> length d"
begin

lemma payloadE:
  obtains p info' where "payload d info = Inr (p, info')" and "p \<le> length d"
  using payload_bounded by blast

lemma packets_safe: "is_ok (raw_packets payload d ts)"
  by (rule payloadE [of d "pinfo0\<lparr>pi_ts := ts\<rparr>"]) (simp add: raw_packets_def)

end

locale payload_parser = frame_parser +
  assumes payload_ts: "payload d info = Inr (p, info') \<Longrightarrow> pi_ts info' = pi_ts info"
begin

lemma packets_shape:
  assumes "raw_packets payload d ts = Inr ps"
  shows "ps = [] \<or> (\<exists>p pkt. ps = [pkt] \<and> p < length d \<and> pkt_data pkt = drop p d \<and> pi_ts (pkt_info pkt) = ts)"
  by (rule payloadE [of d "pinfo0\<lparr>pi_ts := ts\<rparr>"])
    (use assms payload_ts [of d "pinfo0\<lparr>pi_ts := ts\<rparr>"] in \<open>auto simp: raw_packets_def split: if_splits\<close>)

end

text \<open>A parser that gets past the end of the frame only for an IP packet.\<close>

locale ip_parser = payload_parser +
  assumes ip_known: "payload d info = Inr (p, info') \<Longrightarrow> p < length d \<Longrightarrow> pi_ip info' = 4 \<or> pi_ip info' = 6"
begin

lemma packets_ip:
  assumes "raw_packets payload d ts = Inr ps" and "pkt \<in> set ps"
  shows "pi_ip (pkt_info pkt) = 4 \<or> pi_ip (pkt_info pkt) = 6"
  by (rule payloadE [of d "pinfo0\<lparr>pi_ts := ts\<rparr>"])
    (use assms ip_known [of d "pinfo0\<lparr>pi_ts := ts\<rparr>"] in \<open>auto simp: raw_packets_def split: if_splits\<close>)

end

lemma datalink_payload_eq:
  "datalink_payload dl d info = Inr (min (headerSize dl (length d)) (length d), info)"
  by (simp add: datalink_payload_def raw_payload_def min_def Let_def)

lemma ip_parserI:
  assumes "\<And>d info. \<exists>p info'. f d info = Inr (p, info') \<and> p \<le> length d \<and> pi_ts info' = pi_ts info
     \<and> (p < length d \<longrightarrow> pi_ip info' = 4 \<or> pi_ip info' = 6)"
  shows "ip_parser f"
proof
  fix d info p info'
  show "\<exists>p info'. f d info = Inr (p, info') \<and> p \<le> length d"
    using assms [of d info] by blast
  show "pi_ts info' = pi_ts info" if "f d info = Inr (p, info')"
    using assms [of d info] that by auto
  show "pi_ip info' = 4 \<or> pi_ip info' = 6" if "f d info = Inr (p, info')" "p < length d"
    using assms [of d info] that by auto
qed

lemma ip_payload_total:
  "\<exists>p info'. ip_payload ntop dl d info = Inr (p, info') \<and> p \<le> length d \<and> pi_ts info' = pi_ts info
     \<and> (p < length d \<longrightarrow> pi_ip info' = 4 \<or> pi_ip info' = 6)"
  by (simp add: ip_payload_def datalink_payload_eq Let_def)

lemma ip_payloadE:
  obtains p info' where "ip_payload ntop dl d info = Inr (p, info')" "p \<le> length d" "pi_ts info' = pi_ts info"
    "p < length d \<Longrightarrow> pi_ip info' = 4 \<or> pi_ip info' = 6"
  using ip_payload_total [of ntop dl d info] by blast

lemma tcp_payload_total:
  "\<exists>p info'. tcp_payload ntop dl d info = Inr (p, info') \<and> p \<le> length d \<and> pi_ts info' = pi_ts info
     \<and> (p < length d \<longrightarrow> pi_ip info' = 4 \<or> pi_ip info' = 6)"
  by (rule ip_payloadE [of ntop dl d info]) (simp add: tcp_payload_def Let_def)

lemma udp_payload_total:
  "\<exists>p info'. udp_payload ntop dl d info = Inr (p, info') \<and> p \<le> length d \<and> pi_ts info' = pi_ts info
     \<and> (p < length d \<longrightarrow> pi_ip info' = 4 \<or> pi_ip info' = 6)"
  by (rule ip_payloadE [of ntop dl d info]) (simp add: udp_payload_def Let_def)

lemma smart_payload_total:
  "\<exists>p info'. smart_payload ntop dl d info = Inr (p, info') \<and> p \<le> length d \<and> pi_ts info' = pi_ts info
     \<and> (p < length d \<longrightarrow> pi_ip info' = 4 \<or> pi_ip info' = 6)"
proof (rule ip_payloadE [of ntop dl d info])
  fix p info' assume "ip_payload ntop dl d info = Inr (p, info')" "p \<le> length d" "pi_ts info' = pi_ts info"
    "p < length d \<Longrightarrow> pi_ip info' = 4 \<or> pi_ip info' = 6"
  then show ?thesis
    using tcp_payload_total [of ntop dl d info'] udp_payload_total [of ntop dl d info']
    by (auto simp: smart_payload_def)
qed

interpretation raw: payload_parser raw_payload
  by unfold_locales (simp_all add: raw_payload_def)

interpretation datalink: payload_parser "datalink_payload dl" for dl
  by unfold_locales (simp_all add: datalink_payload_eq)

interpretation ip: ip_parser "ip_payload ntop dl" for ntop dl
  by (rule ip_parserI) (rule ip_payload_total)

interpretation tcp: ip_parser "tcp_payload ntop dl" for ntop dl
  by (rule ip_parserI) (rule tcp_payload_total)

interpretation udp: ip_parser "udp_payload ntop dl" for ntop dl
  by (rule ip_parserI) (rule udp_payload_total)

interpretation smart: ip_parser "smart_payload ntop dl" for ntop dl
  by (rule ip_parserI) (rule smart_payload_total)

lemma payload_of_parser: "payload_parser (payload_of k ntop dl)"
  by (cases k) (simp_all add: raw.payload_parser_axioms datalink.payload_parser_axioms
      ip.payload_parser_axioms tcp.payload_parser_axioms udp.payload_parser_axioms smart.payload_parser_axioms)


subsection \<open>What the parsers accept\<close>

text \<open>The IP layer of a frame \<open>link @ ip @ body\<close>: an IPv4 header of any length, an IPv6 header.\<close>

definition ipv4_hdr :: "bytes \<Rightarrow> bool" where
  "ipv4_hdr h \<longleftrightarrow> 20 \<le> length h \<and> nib_hi (h ! 0) = 4 \<and> length h = 4 * nib_lo (h ! 0)"

definition ipv6_hdr :: "bytes \<Rightarrow> bool" where
  "ipv6_hdr h \<longleftrightarrow> length h = 40 \<and> nib_hi (h ! 0) = 6"

definition ip_info :: "ntop \<Rightarrow> bytes \<Rightarrow> pinfo \<Rightarrow> pinfo" where
  "ip_info ntop h info =
     (if nib_hi (h ! 0) = 4 then
        info\<lparr>pi_ip := 4, pi_proto := uint (h ! 9), pi_srcAddr := ipv4_str ntop (take 4 (drop 12 h)),
             pi_dstAddr := ipv4_str ntop (take 4 (drop 16 h))\<rparr>
      else
        info\<lparr>pi_ip := 6, pi_proto := uint (h ! 6), pi_srcAddr := ipv6_str ntop (take 16 (drop 8 h)),
             pi_dstAddr := ipv6_str ntop (take 16 (drop 24 h))\<rparr>)"

lemma take_one_nth: "off < length d \<Longrightarrow> take (Suc 0) (drop off d) = [d ! off]"
  by (simp add: take_Suc_conv_app_nth)

lemma le_word_one [simp]: "le_word [b] = (b :: byte)"
  by (simp add: le_word_def)

lemma le_word_byte [byte_simps]:
  "off < length d \<Longrightarrow> le_word (take (Suc 0) (drop off d)) = (d ! off :: byte)"
  "0 < length d \<Longrightarrow> le_word (take (Suc 0) d) = (d ! 0 :: byte)"
  using take_one_nth [of off d] take_one_nth [of 0 d] by simp_all

lemma datalink_payload_frame:
  assumes "headerSize dl (length (link @ rest)) = length link" and "rest \<noteq> []"
  shows "datalink_payload dl (link @ rest) info = Inr (length link, info)"
  using assms by (simp add: datalink_payload_eq)

lemma ip_payload_frame:
  assumes "headerSize dl (length (link @ h @ body)) = length link" and "body \<noteq> []"
    and "ipv4_hdr h \<or> ipv6_hdr h"
  shows "ip_payload ntop dl (link @ h @ body) info = Inr (length link + length h, ip_info ntop h info)"
proof -
  have h: "20 \<le> length h" using assms(3) by (auto simp: ipv4_hdr_def ipv6_hdr_def)
  have b: "0 < length body" "20 < length h + length body" "h \<noteq> []"
    using assms(2) h by (cases body; cases h; simp)+
  have "h @ body \<noteq> []" using assms(2) by simp
  note dl = datalink_payload_frame [OF assms(1) this]
  show ?thesis using assms(3)
  proof
    assume v4: "ipv4_hdr h"
    then have "nib_lo (h ! 0) * 4 = length h" by (simp add: ipv4_hdr_def)
    then show ?thesis using h assms(2) b(2,3) v4
      by (simp add: ip_payload_def dl le_word_byte ipv4_hdr_def ip_info_def Let_def)
  next
    assume v6: "ipv6_hdr h"
    then show ?thesis using b
      by (simp add: ip_payload_def dl le_word_byte ipv6_hdr_def ip_info_def Let_def)
  qed
qed

text \<open>The UDP parser delivers the payload of a UDP datagram. For a frame with the link header of
  its data link, an IPv4 header (options included) or an IPv6 header, a UDP header and a non-empty
  body, whose UDP length does not reach past the end of the frame, it returns one packet: the bytes
  after the UDP header, with the addresses of the IP header and the ports of the UDP header in host
  order.\<close>

lemma udp_parser_delivers:
  assumes "headerSize dl (length (link @ h @ u @ body)) = length link"
    and "ipv4_hdr h \<or> ipv6_hdr h" and "length u = 8" and "body \<noteq> []"
    and "unat (htons (le_word (take 2 (drop 4 u)))) \<le> 8 + length body"
  shows "parser_packets UdpP ntop dl (link @ h @ u @ body) ts = Inr
    [\<lparr>pkt_data = body, pkt_info = (ip_info ntop h (pinfo0\<lparr>pi_ts := ts\<rparr>))
       \<lparr>pi_srcPort := htons (le_word (take 2 u)), pi_dstPort := htons (le_word (take 2 (drop 2 u)))\<rparr>\<rparr>]"
proof -
  have "u @ body \<noteq> []" using assms(4) by simp
  note ip = ip_payload_frame [OF assms(1) this assms(2), of ntop "pinfo0\<lparr>pi_ts := ts\<rparr>"]
  have b: "0 < length body" using assms(4) by simp
  show ?thesis using assms(3,5) b
    by (simp add: parser_packets_def raw_packets_def udp_payload_def ip Let_def)
qed

definition demo_ntop :: ntop where
  "demo_ntop af a = (if af = AF_INET then Some (concat (map (\<lambda>b. CHR ''.'' # string_of_nat (unat b)) a)) else Some ''::1'')"

definition demo_ip4 :: "byte \<Rightarrow> bytes" where
  "demo_ip4 proto = [0x45, 0, 0, 31, 0, 1, 0, 0, 64, proto, 0, 0, 10, 0, 0, 1, 10, 0, 0, 2]"

lemma demo_ip4_hdr: "ipv4_hdr (demo_ip4 proto)"
  by (simp add: ipv4_hdr_def demo_ip4_def nib_hi_def nib_lo_def)

lemma demo_udp_packet:
  "\<exists>pkt. parser_packets UdpP demo_ntop DLT_RAW (demo_ip4 17 @ [19, 196, 19, 197, 0, 11, 0, 0] @ [1, 2, 3]) ts = Inr [pkt]"
proof -
  have ip: "ip_payload demo_ntop DLT_RAW ([] @ demo_ip4 17 @ [19, 196, 19, 197, 0, 11, 0, 0] @ [1, 2, 3]) info
    = Inr (length ([] :: bytes) + length (demo_ip4 17), ip_info demo_ntop (demo_ip4 17) info)" for info
    by (rule ip_payload_frame) (simp_all add: demo_ip4_hdr headerSize_def)
  show ?thesis
    using ip by (simp add: parser_packets_def raw_packets_def udp_payload_def demo_ip4_def unat_htons_pair)
qed

lemma udp_parser_delivers_witness:
  "\<exists>info. parser_packets UdpP demo_ntop DLT_RAW (demo_ip4 17 @ [19, 196, 19, 197, 0, 11, 0, 0] @ [1, 2, 3]) demo_ts
    = Inr [\<lparr>pkt_data = [1, 2, 3], pkt_info = info\<rparr>]"
proof -
  have "unat (htons (le_word (take 2 (drop 4 [19, 196, 19, 197, 0, 11, 0, 0])))) \<le> 8 + length [1, 2, 3 :: byte]"
    by (simp add: unat_htons_pair)
  from udp_parser_delivers [of DLT_RAW "[]" "demo_ip4 17" "[19, 196, 19, 197, 0, 11, 0, 0]" "[1, 2, 3]", OF _ _ _ _ this]
  show ?thesis by (simp add: demo_ip4_hdr headerSize_def)
qed

text \<open>The TCP parser delivers the payload of a TCP segment, whatever options the IPv4 and the TCP
  header carry, with the addresses and the ports of the segment.\<close>

lemma tcp_parser_delivers:
  assumes "headerSize dl (length (link @ h @ t @ body)) = length link"
    and "ipv4_hdr h \<or> ipv6_hdr h" and "20 \<le> length t" and "length t = 4 * nib_hi (t ! 12)"
    and "body \<noteq> []"
  shows "parser_packets TcpP ntop dl (link @ h @ t @ body) ts = Inr
    [\<lparr>pkt_data = body, pkt_info = (ip_info ntop h (pinfo0\<lparr>pi_ts := ts\<rparr>))
       \<lparr>pi_srcPort := htons (le_word (take 2 t)), pi_dstPort := htons (le_word (take 2 (drop 2 t)))\<rparr>\<rparr>]"
proof -
  have "t @ body \<noteq> []" using assms(5) by simp
  note ip = ip_payload_frame [OF assms(1) this assms(2), of ntop "pinfo0\<lparr>pi_ts := ts\<rparr>"]
  have b: "0 < length body" using assms(5) by simp
  then have "20 < length t + length body" using assms(3) by linarith
  moreover have "nib_hi (t ! 12) * 4 = length t" using assms(4) by simp
  ultimately show ?thesis using assms(3,5)
    by (simp add: parser_packets_def raw_packets_def tcp_payload_def ip le_word_byte Let_def)
qed

lemma tcp_parser_delivers_witness:
  "\<exists>info. parser_packets TcpP demo_ntop DLT_NULL ([2, 0, 0, 0] @ demo_ip4 6 @ ([19, 196, 0, 80] @ replicate 8 0 @ [0x60] @ replicate 11 0) @ [1, 2, 3]) demo_ts
    = Inr [\<lparr>pkt_data = [1, 2, 3], pkt_info = info\<rparr>]"
proof -
  let ?t = "[19, 196, 0, 80] @ replicate 8 0 @ [0x60] @ replicate 11 0 :: bytes"
  have "length ?t = 4 * nib_hi (?t ! 12)" by (simp add: nib_hi_def nth_append)
  from tcp_parser_delivers [of DLT_NULL "[2, 0, 0, 0]" "demo_ip4 6" ?t "[1, 2, 3]", OF _ _ _ this]
  show ?thesis by (simp add: demo_ip4_hdr headerSize_def)
qed

text \<open>C7: every parser is safe on every input: whatever the bytes of a captured frame, parsing it
  reads only inside the frame, and delivers nothing or one packet, a non-empty suffix of the frame
  that carries the time stamp of the capture.\<close>

theorem parser_packets_safe:
  "\<exists>ps. parser_packets k ntop dl d ts = Inr ps \<and> (ps = [] \<or> (\<exists>p pkt. ps = [pkt] \<and> p < length d
     \<and> pkt_data pkt = drop p d \<and> pi_ts (pkt_info pkt) = ts))"
  using frame_parser.packets_safe [OF payload_parser.axioms(1) [OF payload_of_parser], of k ntop dl d ts]
    payload_parser.packets_shape [OF payload_of_parser, of k ntop dl d ts]
  by (cases "raw_packets (payload_of k ntop dl) d ts") (auto simp: parser_packets_def)

end
