(* ===== verification/Parser_Factory.thy ===== *)
theory Parser_Factory
  imports Parsers
begin

section \<open>Parser factory and parsed messages (pcap/parsers/factory.cpp, message.cpp)\<close>

text \<open>
  \<open>Factory::create\<close> hands out shared pointers. A parser object is known by a number, its address;
  the heap \<open>fa_objs\<close> gives its class and data link. The stateless parsers are cached per data link
  in a static \<open>ParserMap\<close>, the ones that keep the state of a TCP stream are created anew for every
  caller.
\<close>

datatype parser_class = Simple parser_kind | TcpReassemblerC | VoipC

record parser_factory =
  fa_objs :: "(parser_class \<times> int) list"
  fa_ip :: "int \<rightharpoonup> nat"
  fa_tcp :: "int \<rightharpoonup> nat"
  fa_udp :: "int \<rightharpoonup> nat"
  fa_raw :: "nat option"

definition factory0 :: parser_factory where
  "factory0 = \<lparr>fa_objs = [], fa_ip = (\<lambda>_. None), fa_tcp = (\<lambda>_. None), fa_udp = (\<lambda>_. None), fa_raw = None\<rparr>"

text \<open>\<open>std::make_shared<P>(datalink)\<close>: a new object at the end of the heap.\<close>

definition make_parser :: "parser_class \<Rightarrow> int \<Rightarrow> parser_factory \<Rightarrow> nat \<times> parser_factory" where
  "make_parser c dl fa = (length (fa_objs fa), fa\<lparr>fa_objs := fa_objs fa @ [(c, dl)]\<rparr>)"

definition parser_map_get ::
  "parser_class \<Rightarrow> (int \<rightharpoonup> nat) \<Rightarrow> int \<Rightarrow> parser_factory \<Rightarrow> nat \<times> (int \<rightharpoonup> nat) \<times> parser_factory" where
  "parser_map_get c m dl fa =
     (case m dl of
        Some i \<Rightarrow> (i, m, fa)
      | None \<Rightarrow> (case make_parser c dl fa of (i, fa') \<Rightarrow> (i, m(dl \<mapsto> i), fa')))"

definition factory_create :: "string \<Rightarrow> int \<Rightarrow> parser_factory \<Rightarrow> nat \<times> parser_factory" where
  "factory_create ty dl fa =
     (if ty = ''ip'' then
        (case parser_map_get (Simple IpP) (fa_ip fa) dl fa of (i, m, fa') \<Rightarrow> (i, fa'\<lparr>fa_ip := m\<rparr>))
      else if ty = ''tcp'' then
        (case parser_map_get (Simple TcpP) (fa_tcp fa) dl fa of (i, m, fa') \<Rightarrow> (i, fa'\<lparr>fa_tcp := m\<rparr>))
      else if ty = ''udp'' then
        (case parser_map_get (Simple UdpP) (fa_udp fa) dl fa of (i, m, fa') \<Rightarrow> (i, fa'\<lparr>fa_udp := m\<rparr>))
      else if ty = ''tcpstream'' then make_parser TcpReassemblerC dl fa
      else if ty = ''voip'' then make_parser VoipC dl fa
      else
        (case fa_raw fa of
           Some i \<Rightarrow> (i, fa)
         | None \<Rightarrow> (case make_parser (Simple RawP) 0 fa of (i, fa') \<Rightarrow> (i, fa'\<lparr>fa_raw := Some i\<rparr>))))"

text \<open>The class and data link a caller asks for.\<close>

definition requested :: "string \<Rightarrow> int \<Rightarrow> parser_class \<times> int" where
  "requested ty dl =
     (if ty = ''ip'' then (Simple IpP, dl) else if ty = ''tcp'' then (Simple TcpP, dl)
      else if ty = ''udp'' then (Simple UdpP, dl) else if ty = ''tcpstream'' then (TcpReassemblerC, dl)
      else if ty = ''voip'' then (VoipC, dl) else (Simple RawP, 0))"

definition stream_type :: "string \<Rightarrow> bool" where
  "stream_type ty \<longleftrightarrow> ty = ''tcpstream'' \<or> ty = ''voip''"

text \<open>Every cached pointer is to an object of its map's class and of its key's data link.\<close>

definition points_to :: "(parser_class \<times> int) list \<Rightarrow> nat \<Rightarrow> parser_class \<times> int \<Rightarrow> bool" where
  "points_to objs i o' \<longleftrightarrow> i < length objs \<and> objs ! i = o'"

definition map_ok :: "(parser_class \<times> int) list \<Rightarrow> parser_class \<Rightarrow> (int \<rightharpoonup> nat) \<Rightarrow> bool" where
  "map_ok objs c m \<longleftrightarrow> (\<forall>dl i. m dl = Some i \<longrightarrow> points_to objs i (c, dl))"

definition raw_ok :: "(parser_class \<times> int) list \<Rightarrow> nat option \<Rightarrow> bool" where
  "raw_ok objs r \<longleftrightarrow> (\<forall>i. r = Some i \<longrightarrow> points_to objs i (Simple RawP, 0))"

definition factory_inv :: "parser_factory \<Rightarrow> bool" where
  "factory_inv fa \<longleftrightarrow> map_ok (fa_objs fa) (Simple IpP) (fa_ip fa) \<and> map_ok (fa_objs fa) (Simple TcpP) (fa_tcp fa)
     \<and> map_ok (fa_objs fa) (Simple UdpP) (fa_udp fa) \<and> raw_ok (fa_objs fa) (fa_raw fa)"

lemma factory_inv0: "factory_inv factory0"
  by (simp add: factory_inv_def factory0_def map_ok_def raw_ok_def)

lemma points_to_append [intro]: "points_to objs i o' \<Longrightarrow> points_to (objs @ xs) i o'"
  by (auto simp: points_to_def nth_append)

lemma points_to_new [simp]: "points_to (objs @ [x]) (length objs) o' \<longleftrightarrow> x = o'"
  by (simp add: points_to_def)

lemma map_ok_append [intro]: "map_ok objs c m \<Longrightarrow> map_ok (objs @ xs) c m"
  by (auto simp: map_ok_def)

lemma raw_ok_append [intro]: "raw_ok objs r \<Longrightarrow> raw_ok (objs @ xs) r"
  by (auto simp: raw_ok_def)

lemma parser_map_get_ok:
  assumes "parser_map_get c m dl fa = (i, m', fa')" and "map_ok (fa_objs fa) c m"
  obtains xs where "fa' = fa\<lparr>fa_objs := fa_objs fa @ xs\<rparr>" and "map_ok (fa_objs fa @ xs) c m'"
    and "points_to (fa_objs fa @ xs) i (c, dl)"
proof (cases "m dl")
  case None
  have "map_ok (fa_objs fa @ [(c, dl)]) c (m(dl \<mapsto> length (fa_objs fa)))"
    using map_ok_append [OF assms(2), of "[(c, dl)]"] by (simp add: map_ok_def)
  then show ?thesis using None assms(1) that [of "[(c, dl)]"]
    by (auto simp: parser_map_get_def make_parser_def)
next
  case (Some k)
  then show ?thesis using assms that [of "[]"]
    by (auto simp: parser_map_get_def map_ok_def)
qed

lemmas factory_defs = factory_create_def parser_map_get_def make_parser_def

lemma factory_create_inv:
  assumes inv: "factory_inv fa" and new: "factory_create ty dl fa = (i, fa')"
  shows "factory_inv fa' \<and> points_to (fa_objs fa') i (requested ty dl)"
proof -
  consider "ty = ''ip''" | "ty = ''tcp''" | "ty = ''udp''"
    | "ty \<notin> {''ip'', ''tcp'', ''udp''}" by blast
  then show ?thesis
  proof cases
    case 1
    obtain m fa1 where g: "parser_map_get (Simple IpP) (fa_ip fa) dl fa = (i, m, fa1)" "fa' = fa1\<lparr>fa_ip := m\<rparr>"
      using new 1 by (auto simp: factory_create_def split: prod.splits)
    show ?thesis
      by (rule parser_map_get_ok [OF g(1)]) (use inv 1 g(2) in \<open>auto simp: factory_inv_def requested_def\<close>)
  next
    case 2
    obtain m fa1 where g: "parser_map_get (Simple TcpP) (fa_tcp fa) dl fa = (i, m, fa1)" "fa' = fa1\<lparr>fa_tcp := m\<rparr>"
      using new 2 by (auto simp: factory_create_def split: prod.splits)
    show ?thesis
      by (rule parser_map_get_ok [OF g(1)]) (use inv 2 g(2) in \<open>auto simp: factory_inv_def requested_def\<close>)
  next
    case 3
    obtain m fa1 where g: "parser_map_get (Simple UdpP) (fa_udp fa) dl fa = (i, m, fa1)" "fa' = fa1\<lparr>fa_udp := m\<rparr>"
      using new 3 by (auto simp: factory_create_def split: prod.splits)
    show ?thesis
      by (rule parser_map_get_ok [OF g(1)]) (use inv 3 g(2) in \<open>auto simp: factory_inv_def requested_def\<close>)
  next
    case 4
    show ?thesis
    proof (cases "fa_raw fa")
      case None
      then show ?thesis using inv new 4
        by (auto simp: factory_create_def make_parser_def factory_inv_def requested_def raw_ok_def split: if_splits)
    next
      case (Some k)
      then show ?thesis using inv new 4
        by (auto simp: factory_create_def make_parser_def factory_inv_def requested_def raw_ok_def split: if_splits)
    qed
  qed
qed

text \<open>A parser from the factory is of the requested type for the requested data link (any other
  type name gives the one raw parser), and the factory stays well formed; asking a second time for a
  stateless parser gives the same object, whereas each \<open>tcpstream\<close> and \<open>voip\<close> parser is an object
  nobody else has.\<close>

lemma factory_create_correct:
  assumes "factory_inv fa" and "factory_create ty dl fa = (i, fa')"
    and "factory_create ty dl fa' = (j, fa'')"
  shows "factory_inv fa' \<and> points_to (fa_objs fa') i (requested ty dl)
    \<and> (if stream_type ty then i = length (fa_objs fa) \<and> j \<noteq> i else j = i \<and> fa'' = fa')"
proof -
  have "if stream_type ty then i = length (fa_objs fa) \<and> j \<noteq> i else j = i \<and> fa'' = fa'"
    using assms(2,3) unfolding stream_type_def
    by (auto simp: factory_defs split: option.splits if_splits)
  with factory_create_inv [OF assms(1,2)] show ?thesis by blast
qed

lemma factory_create_correct_witness:
  "\<exists>i fa j fa'. factory_create ''voip'' 1 factory0 = (i, fa) \<and> factory_create ''voip'' 1 fa = (j, fa') \<and> j \<noteq> i"
proof -
  obtain i fa where 1: "factory_create ''voip'' 1 factory0 = (i, fa)" by fastforce
  obtain j fa' where 2: "factory_create ''voip'' 1 fa = (j, fa')" by fastforce
  show ?thesis using factory_create_correct [OF factory_inv0 1 2] 1 2 by (auto simp: stream_type_def)
qed

subsection \<open>Message\<close>

text \<open>A parsed message: the packet, shared between clones, and a time stamp of its own.\<close>

record message =
  ms_packet :: packet
  ms_timestamp :: timeval

definition message_new :: "packet \<Rightarrow> message" where
  "message_new p = \<lparr>ms_packet = p, ms_timestamp = pi_ts (pkt_info p)\<rparr>"

definition isIPv4 :: "message \<Rightarrow> bool" where
  "isIPv4 m \<longleftrightarrow> pi_ip (pkt_info (ms_packet m)) = 4"

definition isIPv6 :: "message \<Rightarrow> bool" where
  "isIPv6 m \<longleftrightarrow> pi_ip (pkt_info (ms_packet m)) = 6"

definition isUDP :: "message \<Rightarrow> bool" where
  "isUDP m \<longleftrightarrow> pi_proto (pkt_info (ms_packet m)) = 17"

definition isTCP :: "message \<Rightarrow> bool" where
  "isTCP m \<longleftrightarrow> pi_proto (pkt_info (ms_packet m)) = 6"

definition afamily :: "message \<Rightarrow> int" where
  "afamily m = (if isIPv4 m then AF_INET else if isIPv6 m then AF_INET6 else AF_UNSPEC)"

definition ipproto :: "message \<Rightarrow> int" where
  "ipproto m = (if isUDP m then IPPROTO_UDP else if isTCP m then IPPROTO_TCP else IPPROTO_IP)"

definition message_clone :: "timeval \<Rightarrow> bool \<Rightarrow> message \<Rightarrow> message" where
  "message_clone now touch m = \<lparr>ms_packet = ms_packet m, ms_timestamp = (if touch then now else ms_timestamp m)\<rparr>"

lemma message_clone_attrs:
  "ms_packet (message_clone now touch m) = ms_packet m"
  "afamily (message_clone now touch m) = afamily m"
  "ipproto (message_clone now touch m) = ipproto m"
  by (simp_all add: message_clone_def afamily_def ipproto_def isIPv4_def isIPv6_def isUDP_def isTCP_def)

text \<open>A message built from a packet of the TCP, UDP or smart parser, and every clone of it, has
  the address family of an IP packet, never the unspecified one, and keeps the payload; the clone has
  the time of the capture unless it is touched.\<close>

lemma message_of_parser:
  assumes "k \<in> {IpP, TcpP, UdpP, SmartP}" and "parser_packets k ntop dl d ts = Inr ps" and "pkt \<in> set ps"
  shows "afamily (message_clone now touch (message_new pkt)) \<in> {AF_INET, AF_INET6}
    \<and> ms_packet (message_clone now touch (message_new pkt)) = pkt
    \<and> ms_timestamp (message_clone now touch (message_new pkt)) = (if touch then now else ts)"
proof -
  have ps: "raw_packets (payload_of k ntop dl) d ts = Inr ps" using assms(2) by (simp add: parser_packets_def)
  have "pi_ip (pkt_info pkt) = 4 \<or> pi_ip (pkt_info pkt) = 6"
    using assms(1,3) ps ip.packets_ip tcp.packets_ip udp.packets_ip smart.packets_ip by fastforce
  moreover have "pi_ts (pkt_info pkt) = ts"
    using payload_parser.packets_shape [OF payload_of_parser ps] assms(3) by auto
  ultimately show ?thesis
    by (auto simp: message_clone_attrs afamily_def isIPv4_def isIPv6_def message_new_def message_clone_def)
qed

end
