(* ===== verification/Voip.thy ===== *)
theory Voip
  imports Parsers
begin

section \<open>VoIP: blocks of a voipmonitor stream (pcap/parsers/voip.cpp, tcpreassembler.cpp)\<close>

text \<open>
  The VoIP parser gets the messages of reassembled TCP streams and cuts them into the blocks a
  voipmonitor sensor sends: a 64-byte header \<open>pcap_block_store_header\<close>, an array of 32-bit offsets
  and the records at those offsets, possibly compressed with snappy. One \<open>Reassembler\<close> per stream
  collects a block that arrives in several messages. A \<open>std::string\<close> of \<open>n\<close> bytes is readable up
  to its terminating NUL, so what \<open>parse\<close> may read is the payload and one 0. snappy is the parameter
  \<open>snap\<close>: the compressed bytes and the room of the output to the outcome of \<open>snappy_uncompress\<close>.
\<close>

datatype snappy_outcome = SnappyOk bytes | SnappyInvalidInput | SnappyBufferTooSmall | SnappyOther

type_synonym snappy = "bytes \<Rightarrow> nat \<Rightarrow> snappy_outcome"

datatype ra_phase = WAIT_HEADER | READ_HEADER | READ_BODY

record reassembler =
  ra_stream :: string
  ra_buffer :: bytes
  ra_dataSize :: nat
  ra_state :: ra_phase

definition reassembler_new :: "string \<Rightarrow> reassembler" where
  "reassembler_new s = \<lparr>ra_stream = s, ra_buffer = [], ra_dataSize = 0, ra_state = WAIT_HEADER\<rparr>"

definition ra_reset :: "reassembler \<Rightarrow> reassembler" where
  "ra_reset r = r\<lparr>ra_state := READ_HEADER, ra_buffer := [], ra_dataSize := 0\<rparr>"

definition decompress :: "snappy \<Rightarrow> bytes \<Rightarrow> nat \<Rightarrow> bytes result" where
  "decompress snap d maxSize =
     (case snap d (maxSize + 1) of
        SnappyOk out \<Rightarrow>
          if length out \<noteq> maxSize then Inl (RuntimeError ''snappy_uncompress: bad uncompressed size'')
          else Inr out
      | SnappyInvalidInput \<Rightarrow> Inl (RuntimeError ''snappy_uncompress: invalid input'')
      | SnappyBufferTooSmall \<Rightarrow> Inl (RuntimeError ''snappy_uncompress: buffer is too small'')
      | SnappyOther \<Rightarrow> Inl (RuntimeError ''snappy_uncompress: unknown error''))"

text \<open>
  A record: a \<open>pcap_pkthdr_plus\<close> (34 bytes) or \<open>pcap_pkthdr_plus2\<close> (58 bytes), with the time stamp
  at 0 and 4, \<open>caplen\<close> at 8 and \<open>header_ip_offset\<close> at 24, then the captured frame. The frame is
  taken from the end of the record.
\<close>

definition plus_payload :: "ntop \<Rightarrow> byte \<Rightarrow> bytes \<Rightarrow> pinfo \<Rightarrow> (nat \<times> pinfo) result" where
  "plus_payload ntop hm d info =
     (let size = length d; hsize = (if hm = 1 then 58 else 34) in
      if hsize < size then
        rbind (rdw 8 4 d) (\<lambda>w. let caplen = unat (w :: u32) in
        rbind (rdw 24 2 d) (\<lambda>o16. let ip_offset = unat (o16 :: u16) in
          if caplen < size \<and> ip_offset < size then
            (let hsize = size - caplen; cap = hsize + ip_offset in
             if cap < size then
               rbind (rdw 0 4 d) (\<lambda>sec.
               rbind (rdw 4 4 d) (\<lambda>usec.
                 let info = info\<lparr>pi_ts := \<lparr>tv_sec = uint (sec :: u32), tv_usec = uint (usec :: u32)\<rparr>\<rparr> in
                 rbind (rd cap (caplen - ip_offset) d) (\<lambda>frame.
                 rbind (smart_payload ntop DLT_RAW frame info) (\<lambda>(p, info). Inr (cap + p, info)))))
             else Inr (size, info))
          else Inr (size, info)))
      else Inr (size, info))"

text \<open>
  \<open>Reassembler::packets\<close>: the record at an offset reaches to the next offset, the last one to the
  end of the data. The caller has checked that the offsets ascend below the size.
\<close>

fun block_packets :: "ntop \<Rightarrow> bytes \<Rightarrow> u32 list \<Rightarrow> byte \<Rightarrow> packet list result" where
  "block_packets ntop d [] hm = Inr []"
| "block_packets ntop d (off # offs) hm =
     (let o1 = unat off;
          size = (case offs of [] \<Rightarrow> length d - o1 | o2 # _ \<Rightarrow> unat (o2 - off))
      in rbind (if o1 + size \<le> length d then
                  rbind (rd o1 size d) (\<lambda>pkt.
                  rbind (plus_payload ntop hm pkt pinfo0) (\<lambda>(p, info).
                    Inr (if p < size then [\<lparr>pkt_data = drop p pkt, pkt_info = info\<rparr>] else [])))
                else Inr [])
           (\<lambda>ps. rbind (block_packets ntop d offs hm) (\<lambda>qs. Inr (ps @ qs))))"

definition block_title :: bytes where
  "block_title = map (\<lambda>c. word_of_nat (of_char c)) ''pcap_block_store''"

fun check_block_offsets :: "u32 \<Rightarrow> u32 list \<Rightarrow> u32 result" where
  "check_block_offsets lastOffset [] = Inr lastOffset"
| "check_block_offsets lastOffset (off # offs) =
     (if off < lastOffset then Inl (RuntimeError ''bad offsets'') else check_block_offsets off offs)"

fun words32 :: "bytes \<Rightarrow> u32 list" where
  "words32 (a # b # c # d # rest) = le_word [a, b, c, d] # words32 rest"
| "words32 _ = []"

text \<open>The part of \<open>parse\<close> for a payload that starts with a block header.\<close>

definition parse_block :: "snappy \<Rightarrow> ntop \<Rightarrow> bytes \<Rightarrow> reassembler \<Rightarrow> (packet list \<times> reassembler) result" where
  "parse_block snap ntop payload r =
     (let region = payload @ [0] in
      rbind (rd 0 16 region) (\<lambda>title.
      if title \<noteq> block_title then Inl (RuntimeError ''bad header title'') else
      rbind (rdw 28 4 region) (\<lambda>count :: u32.
      if count = 0 then Inl (RuntimeError ''bad packet count'') else
      rbind (rdw 24 4 region) (\<lambda>size_compress :: u32.
      rbind (rdw 20 4 region) (\<lambda>size :: u32.
      let dataSize = unat (if size_compress \<noteq> 0 then size_compress else size) in
      if dataSize = 0 \<or> size < size_compress then Inl (RuntimeError ''bad data size'') else
      let offsetsSize = unat count * 4 in
      if length payload < 64 + offsetsSize + dataSize then
        Inr ([], r\<lparr>ra_state := READ_BODY, ra_dataSize := 64 + offsetsSize + dataSize,
                   ra_buffer := ra_buffer r @ payload\<rparr>)
      else
      rbind (rd 64 offsetsSize region) (\<lambda>raw. let offsets = words32 raw in
      rbind (check_block_offsets 0 offsets) (\<lambda>lastOffset.
      if size \<le> lastOffset then Inl (RuntimeError ''bad last offset/data size'') else
      rbind (rdw 46 1 region) (\<lambda>hm :: byte.
      rbind (rd (64 + offsetsSize) dataSize region) (\<lambda>d.
      rbind (if dataSize < unat size then decompress snap d (unat size) else Inr d) (\<lambda>d.
      rbind (block_packets ntop d offsets hm) (\<lambda>ps. Inr (ps, r))))))))))))"

text \<open>\<open>Reassembler::parse\<close>; after \<open>READ_BODY\<close> the state is \<open>READ_HEADER\<close>, so it calls itself once.\<close>

definition ra_parse :: "snappy \<Rightarrow> ntop \<Rightarrow> bytes \<Rightarrow> reassembler \<Rightarrow> (packet list \<times> reassembler) result" where
  "ra_parse snap ntop payload r =
     (case ra_state r of
        WAIT_HEADER \<Rightarrow>
          if length payload < 64 then Inr ([], r)
          else parse_block snap ntop payload (r\<lparr>ra_state := READ_HEADER\<rparr>)
      | READ_BODY \<Rightarrow>
          (let r = r\<lparr>ra_buffer := ra_buffer r @ payload\<rparr> in
           if ra_dataSize r \<le> length (ra_buffer r)
           then parse_block snap ntop (ra_buffer r) (r\<lparr>ra_state := READ_HEADER\<rparr>)
           else Inr ([], r))
      | READ_HEADER \<Rightarrow> parse_block snap ntop payload r)"

text \<open>\<open>Reassembler::process\<close> catches every exception; a bad access is not one.\<close>

definition ra_process :: "snappy \<Rightarrow> ntop \<Rightarrow> bytes \<Rightarrow> reassembler \<Rightarrow> (packet list \<times> reassembler) result" where
  "ra_process snap ntop d r =
     (case ra_parse snap ntop d r of
        Inl BadAccess \<Rightarrow> Inl BadAccess
      | Inl _ \<Rightarrow> Inr ([], ra_reset r)
      | Inr (ps, r') \<Rightarrow> Inr (ps, if ps \<noteq> [] then ra_reset r' else r'))"

subsection \<open>TCPReassembler and the streams\<close>

text \<open>
  \<open>pcpp::TcpReassembly\<close> is the parameter \<open>tcp\<close>: its state and a captured frame to its next state and
  the messages it reports during the call, in order. The callback stores a message in the parser,
  where a later one overwrites it.
\<close>

record tcp_msg =
  tm_data :: bytes
  tm_srcPort :: u16
  tm_dstPort :: u16
  tm_srcIP :: "(bool \<times> string) option"
  tm_dstIP :: "string option"

type_synonym 's tcp_engine = "'s \<Rightarrow> bytes \<Rightarrow> timeval \<Rightarrow> int \<Rightarrow> 's \<times> tcp_msg list"

record 's tcp_reassembler =
  tr_reasm :: 's
  tr_data :: "bytes option"
  tr_info :: pinfo
  tr_datalink :: int

definition on_msg_ready :: "tcp_msg \<Rightarrow> 's tcp_reassembler \<Rightarrow> 's tcp_reassembler" where
  "on_msg_ready m self =
     (let i = (tr_info self)\<lparr>pi_proto := IPPROTO_TCP, pi_srcPort := tm_srcPort m, pi_dstPort := tm_dstPort m\<rparr>;
          i = (case tm_srcIP m of None \<Rightarrow> i
               | Some (ipv6, a) \<Rightarrow> i\<lparr>pi_ip := (if ipv6 then 6 else 4), pi_srcAddr := a\<rparr>);
          i = (case tm_dstIP m of None \<Rightarrow> i | Some a \<Rightarrow> i\<lparr>pi_dstAddr := a\<rparr>)
      in self\<lparr>tr_data := Some (tm_data m), tr_info := i\<rparr>)"

definition tcp_packets ::
  "'s tcp_engine \<Rightarrow> bytes \<Rightarrow> timeval \<Rightarrow> 's tcp_reassembler \<Rightarrow> packet list \<times> 's tcp_reassembler" where
  "tcp_packets tcp d ts self =
     (case tcp (tr_reasm self) d ts (tr_datalink self) of
        (s, msgs) \<Rightarrow>
          (let self = fold on_msg_ready msgs (self\<lparr>tr_reasm := s\<rparr>) in
           case tr_data self of
             None \<Rightarrow> ([], self)
           | Some x \<Rightarrow>
               ([\<lparr>pkt_data = x, pkt_info = (tr_info self)\<lparr>pi_ts := ts\<rparr>\<rparr>],
                self\<lparr>tr_data := None, tr_info := pinfo0\<rparr>)))"

definition stream_key :: "pinfo \<Rightarrow> string" where
  "stream_key i =
     pi_srcAddr i @ '':'' @ string_of_nat (unat (pi_srcPort i)) @ ''-->'' @
     pi_dstAddr i @ '':'' @ string_of_nat (unat (pi_dstPort i))"

type_synonym streams = "string \<rightharpoonup> reassembler"

text \<open>\<open>VoIP::reassembler\<close> and one round of the loop of \<open>VoIP::packets\<close>.\<close>

definition voip_reassembler :: "packet \<Rightarrow> streams \<Rightarrow> reassembler" where
  "voip_reassembler p m =
     (let key = stream_key (pkt_info p) in case m key of Some r \<Rightarrow> r | None \<Rightarrow> reassembler_new key)"

definition voip_feed :: "snappy \<Rightarrow> ntop \<Rightarrow> packet \<Rightarrow> streams \<Rightarrow> (packet list \<times> streams) result" where
  "voip_feed snap ntop p m =
     rbind (ra_process snap ntop (pkt_data p) (voip_reassembler p m)) (\<lambda>(ps, r).
       Inr (ps, m(stream_key (pkt_info p) \<mapsto> r)))"

fun voip_feeds :: "snappy \<Rightarrow> ntop \<Rightarrow> packet list \<Rightarrow> streams \<Rightarrow> (packet list \<times> streams) result" where
  "voip_feeds snap ntop [] m = Inr ([], m)"
| "voip_feeds snap ntop (p # ps) m =
     rbind (voip_feed snap ntop p m) (\<lambda>(xs, m).
     rbind (voip_feeds snap ntop ps m) (\<lambda>(ys, m). Inr (xs @ ys, m)))"

definition voip_packets ::
  "snappy \<Rightarrow> ntop \<Rightarrow> 's tcp_engine \<Rightarrow> bytes \<Rightarrow> timeval \<Rightarrow> 's tcp_reassembler \<times> streams
     \<Rightarrow> (packet list \<times> 's tcp_reassembler \<times> streams) result" where
  "voip_packets snap ntop tcp d ts = (\<lambda>(self, m).
     case tcp_packets tcp d ts self of
       (base, self) \<Rightarrow> rbind (voip_feeds snap ntop base m) (\<lambda>(ps, m). Inr (ps, self, m)))"


subsection \<open>Memory safety of the reassembler\<close>

lemma plus_payload_bounded: "\<exists>p info'. plus_payload ntop hm d info = Inr (p, info') \<and> p \<le> length d"
proof -
  let ?cap = "unat (le_word (take 4 (drop 8 d)) :: u32)" and ?ip = "unat (le_word (take 2 (drop 24 d)) :: u16)"
  show ?thesis
  proof (cases "(if hm = 1 then 58 else 34) < length d \<and> ?cap < length d \<and> ?ip < ?cap")
    case True
    then have len: "34 < length d" by (auto split: if_splits)
    let ?off = "length d - ?cap + ?ip"
    let ?info = "info\<lparr>pi_ts := \<lparr>tv_sec = uint (le_word (take 4 d) :: u32), tv_usec = uint (le_word (take 4 (drop 4 d)) :: u32)\<rparr>\<rparr>"
    obtain p info' where p: "smart_payload ntop DLT_RAW (take (?cap - ?ip) (drop ?off d)) ?info = Inr (p, info')"
      and le: "p \<le> length (take (?cap - ?ip) (drop ?off d))"
      by (rule smart.payloadE)
    have "plus_payload ntop hm d info = Inr (?off + p, info')"
      using True len p by (auto simp: plus_payload_def Let_def)
    then show ?thesis using le True by auto
  next
    case False
    then have "plus_payload ntop hm d info = Inr (length d, info)"
      by (auto simp: plus_payload_def Let_def)
    then show ?thesis by blast
  qed
qed

interpretation record_parser: frame_parser "plus_payload ntop hm" for ntop hm
  by unfold_locales (rule plus_payload_bounded)

lemma block_packets_safe: "is_ok (block_packets ntop d offs hm)"
proof (induction offs)
  case (Cons off offs)
  let ?n = "case offs of [] \<Rightarrow> length d - unat off | o2 # _ \<Rightarrow> unat (o2 - off)"
  obtain p info where "plus_payload ntop hm (take ?n (drop (unat off) d)) pinfo0 = Inr (p, info)"
    by (rule record_parser.payloadE)
  with Cons show ?case by (cases "block_packets ntop d offs hm") (simp_all add: Let_def)
qed simp

lemma check_block_offsets_safe: "check_block_offsets l offs \<noteq> Inl BadAccess"
  by (induction l offs rule: check_block_offsets.induct) auto

lemma decompress_safe: "decompress snap d n \<noteq> Inl BadAccess"
  by (simp add: decompress_def split: snappy_outcome.splits)

definition ra_inv :: "reassembler \<Rightarrow> bool" where
  "ra_inv r \<longleftrightarrow> (ra_state r = READ_BODY \<longrightarrow> 69 \<le> ra_dataSize r)"

lemma parse_block_safe:
  assumes "31 \<le> length payload"
  shows "parse_block snap ntop payload r \<noteq> Inl BadAccess"
  unfolding parse_block_def Let_def
  by (intro rbind_safe if_safe; (insert assms, simp add: is_ok_safe [OF block_packets_safe]
      check_block_offsets_safe decompress_safe)?)

lemma parse_block_result:
  assumes "parse_block snap ntop payload r = Inr (ps, r')"
  shows "r' = r \<or> (ra_state r' = READ_BODY \<and> 69 \<le> ra_dataSize r' \<and> ps = [])"
proof -
  have n: "5 \<le> unat c * 4 + unat s" if "c \<noteq> 0" "s \<noteq> 0" for c s :: u32
    using that unat_gt_0 [of c] unat_gt_0 [of s] by linarith
  show ?thesis
    using assms unfolding parse_block_def Let_def
    by (auto simp: rbind_eq_Inr unat_eq_0 n split: if_splits)
qed

text \<open>C20: the reassembler never reads outside what it was given, provided a message that arrives while
  it waits for the header of a further block has at least 31 bytes: each message is processed to a
  list of packets, whatever its bytes, whatever snappy answers.\<close>

theorem ra_process_safe:
  assumes "ra_inv r" and "ra_state r = READ_HEADER \<Longrightarrow> 31 \<le> length d"
  shows "\<exists>ps r'. ra_process snap ntop d r = Inr (ps, r') \<and> ra_inv r'"
proof -
  have safe: "ra_parse snap ntop d r \<noteq> Inl BadAccess"
    using assms by (auto simp: ra_parse_def Let_def ra_inv_def intro!: parse_block_safe split: ra_phase.splits)
  show ?thesis
  proof (cases "ra_parse snap ntop d r")
    case (Inl e)
    then have "ra_process snap ntop d r = Inr ([], ra_reset r)"
      using safe by (cases e) (auto simp: ra_process_def)
    then show ?thesis by (simp add: ra_inv_def ra_reset_def)
  next
    case (Inr pr)
    obtain ps r' where pr: "pr = (ps, r')" by (cases pr)
    then have "ra_inv r'" using assms(1) Inr
      by (auto simp: ra_parse_def Let_def ra_inv_def split: ra_phase.splits if_splits dest!: parse_block_result)
    then show ?thesis using Inr pr by (auto simp: ra_process_def ra_inv_def ra_reset_def)
  qed
qed


subsection \<open>Blocks of a sensor\<close>

text \<open>
  The format the sensor writes, as a reference encoder: records with a \<open>pcap_pkthdr_plus\<close> header,
  their offsets, and the block header, uncompressed.
\<close>

type_synonym block_rec = "u32 \<times> u32 \<times> bytes"

definition plus_record :: "block_rec \<Rightarrow> bytes" where
  "plus_record = (\<lambda>(sec, usec, frame).
     word_le 4 sec @ word_le 4 usec @ word_le 4 (word_of_nat (length frame) :: u32)
     @ word_le 4 (word_of_nat (length frame) :: u32) @ replicate 18 0 @ frame)"

fun rec_offsets :: "nat \<Rightarrow> block_rec list \<Rightarrow> u32 list" where
  "rec_offsets start [] = []"
| "rec_offsets start (r # rs) = word_of_nat start # rec_offsets (start + length (plus_record r)) rs"

definition block_data :: "block_rec list \<Rightarrow> bytes" where
  "block_data rs = concat (map plus_record rs)"

definition block_header :: "nat \<Rightarrow> nat \<Rightarrow> bytes" where
  "block_header count sz =
     block_title @ [6, 0, 0, 0] @ word_le 4 (word_of_nat sz :: u32) @ word_le 4 (0 :: u32)
     @ word_le 4 (word_of_nat count :: u32) @ replicate 32 0"

definition encode_block :: "block_rec list \<Rightarrow> bytes" where
  "encode_block rs =
     block_header (length rs) (length (block_data rs))
     @ concat (map (word_le 4) (rec_offsets 0 rs)) @ block_data rs"

definition block_ok :: "block_rec list \<Rightarrow> bool" where
  "block_ok rs \<longleftrightarrow> rs \<noteq> [] \<and> length (block_data rs) < 2 ^ 32"

text \<open>The packets of a block: the smart parser applied to each captured frame.\<close>

definition rec_packets :: "ntop \<Rightarrow> block_rec \<Rightarrow> packet list" where
  "rec_packets ntop = (\<lambda>(sec, usec, frame).
     case parser_packets SmartP ntop DLT_RAW frame \<lparr>tv_sec = uint sec, tv_usec = uint usec\<rparr> of
       Inl _ \<Rightarrow> [] | Inr ps \<Rightarrow> ps)"

definition block_result :: "ntop \<Rightarrow> block_rec list \<Rightarrow> packet list" where
  "block_result ntop rs = concat (map (rec_packets ntop) rs)"

lemma length_block_title [simp]: "length block_title = 16"
  by (simp add: block_title_def)

lemma length_block_header [simp]: "length (block_header n m) = 64"
  by (simp add: block_header_def)

lemma length_plus_record: "length (plus_record (sec, usec, frame)) = 34 + length frame"
  by (simp add: plus_record_def)

lemma plus_record_pos [simp]: "plus_record r \<noteq> []" "0 < length (plus_record r)"
  by (cases r; simp add: plus_record_def)+

lemma block_data_Cons [simp]: "block_data (r # rs) = plus_record r @ block_data rs"
  by (simp add: block_data_def)

lemma block_data_Nil [simp]: "block_data [] = []"
  by (simp add: block_data_def)

lemma length_words: "length (concat (map (word_le n) ws)) = length ws * n"
  by (induction ws) auto

lemma words32_word_le: "words32 (concat (map (word_le 4) ws)) = ws"
proof (induction ws)
  case (Cons w ws)
  have "length (word_le 4 w) = Suc (Suc (Suc (Suc 0)))" by simp
  then obtain a b c d where w: "word_le 4 w = [a, b, c, d]"
    by (auto simp only: length_Suc_conv length_0_conv)
  then have "le_word [a, b, c, d] = w" using le_word_word_le [of 4 w] by simp
  with Cons w show ?case by simp
qed simp

lemma length_rec_offsets [simp]: "length (rec_offsets n rs) = length rs"
  by (induction n rs rule: rec_offsets.induct) auto

lemma plus_payload_record:
  assumes "34 + length frame < 2 ^ 32" and "frame \<noteq> []"
    and "smart_payload ntop DLT_RAW frame (info\<lparr>pi_ts := \<lparr>tv_sec = uint sec, tv_usec = uint usec\<rparr>\<rparr>) = Inr (p, info')"
  shows "plus_payload ntop 0 (plus_record (sec, usec, frame)) info = Inr (34 + p, info')"
proof -
  have "unat (word_of_nat (length frame) :: u32) = length frame"
    using assms(1) by (simp add: unat_of_nat)
  then show ?thesis using assms(2,3)
    by (simp add: plus_payload_def plus_record_def le_word_word_le Let_def)
qed


lemma block_packets_step:
  assumes "d = pre @ plus_record r @ block_data rs" and "length d < 2 ^ 32"
    and "block_packets ntop d (rec_offsets (length pre + length (plus_record r)) rs) 0 = Inr qs"
  shows "block_packets ntop d (rec_offsets (length pre) (r # rs)) 0 = Inr (rec_packets ntop r @ qs)"
proof -
  obtain sec usec frame where r: "r = (sec, usec, frame)" by (cases r)
  let ?rec = "plus_record r"
  have len: "length pre + length ?rec + length (block_data rs) < 2 ^ 32" using assms(1,2) by simp
  have off: "unat (word_of_nat (length pre) :: u32) = length pre" using len by (simp add: unat_of_nat)
  have "unat (word_of_nat (length pre + length ?rec) - word_of_nat (length pre) :: u32) = length ?rec"
    using len by (simp add: unat_of_nat)
  then have size: "(case rec_offsets (length pre + length ?rec) rs of
      [] \<Rightarrow> length d - length pre | o2 # _ \<Rightarrow> unat (o2 - word_of_nat (length pre))) = length ?rec"
    using assms(1) by (cases rs) simp_all
  obtain p info where s: "smart_payload ntop DLT_RAW frame
      (pinfo0\<lparr>pi_ts := \<lparr>tv_sec = uint sec, tv_usec = uint usec\<rparr>\<rparr>) = Inr (p, info)" and le: "p \<le> length frame"
    by (rule smart.payloadE)
  let ?ps = "if p < length frame then [\<lparr>pkt_data = drop p frame, pkt_info = info\<rparr>] else []"
  have rp: "rec_packets ntop r = ?ps"
    by (simp add: rec_packets_def r parser_packets_def raw_packets_def s)
  have flen: "34 + length frame < 2 ^ 32" using len by (simp add: r length_plus_record)
  obtain p' info' where pl: "plus_payload ntop 0 ?rec pinfo0 = Inr (p', info')"
    and ps: "(if p' < length ?rec then [\<lparr>pkt_data = drop p' ?rec, pkt_info = info'\<rparr>] else []) = ?ps"
  proof (cases "frame = []")
    case True
    then have "plus_payload ntop 0 ?rec pinfo0 = Inr (length ?rec, pinfo0)"
      by (simp add: plus_payload_def r length_plus_record Let_def)
    then show ?thesis using that True by simp
  next
    case False
    have "drop (34 + p) ?rec = drop p frame" by (simp add: r plus_record_def)
    then show ?thesis
      using that plus_payload_record [OF flen False s] by (simp add: r length_plus_record)
  qed
  have slice: "take (length ?rec) (drop (length pre) d) = ?rec" "length pre + length ?rec \<le> length d"
    using assms(1) by simp_all
  show ?thesis
    unfolding rec_offsets.simps block_packets.simps Let_def off size
    by (simp add: slice pl assms(3) ps rp del: plus_record_pos)
qed

lemma block_packets_records:
  assumes "d = pre @ block_data rs" and "length d < 2 ^ 32"
  shows "block_packets ntop d (rec_offsets (length pre) rs) 0 = Inr (block_result ntop rs)"
  using assms
proof (induction rs arbitrary: pre)
  case Nil
  then show ?case by (simp add: block_result_def)
next
  case (Cons r rs)
  have "block_packets ntop d (rec_offsets (length (pre @ plus_record r)) rs) 0 = Inr (block_result ntop rs)"
    using Cons.prems by (intro Cons.IH) simp_all
  then show ?case
    using block_packets_step [of d pre r rs ntop] Cons.prems by (simp add: block_result_def)
qed

lemma check_rec_offsets:
  assumes "rs \<noteq> []" and "start + length (block_data rs) < 2 ^ 32" and "unat l \<le> start"
  shows "\<exists>last. check_block_offsets l (rec_offsets start rs) = Inr last \<and> unat last < start + length (block_data rs)"
  using assms
proof (induction rs arbitrary: l start)
  case (Cons r rs)
  have s: "unat (word_of_nat start :: u32) = start"
    using Cons.prems by (simp add: unat_of_nat)
  then have l: "\<not> (word_of_nat start :: u32) < l" using Cons.prems(3) by (simp add: word_less_nat_alt)
  show ?case
  proof (cases "rs = []")
    case True
    then show ?thesis using l s by simp
  next
    case False
    then show ?thesis
      using l s Cons.IH [of "start + length (plus_record r)" "word_of_nat start"] Cons.prems
      by (simp add: add.assoc)
  qed
qed simp


text \<open>The fields \<open>parse\<close> reads from a payload that starts with a block header.\<close>

lemma header_fields:
  assumes "n < 2 ^ 32" and "m < 2 ^ 32"
  shows "take 16 (block_header n m @ x) = block_title"
    and "le_word (take 4 (drop 28 (block_header n m @ x))) = (word_of_nat n :: u32)"
    and "le_word (take 4 (drop 24 (block_header n m @ x))) = (0 :: u32)"
    and "le_word (take 4 (drop 20 (block_header n m @ x))) = (word_of_nat m :: u32)"
    and "le_word (take 1 (drop 46 (block_header n m @ x))) = (0 :: byte)"
  by (simp_all add: block_header_def le_word_word_le)

definition block_size :: "block_rec list \<Rightarrow> nat" where
  "block_size rs = 64 + length rs * 4 + length (block_data rs)"

lemma length_encode_block: "length (encode_block rs) = block_size rs"
  by (simp add: encode_block_def block_size_def length_words)

lemma length_le_block_data: "length rs \<le> length (block_data rs)"
proof (induction rs)
  case (Cons r rs)
  have "1 \<le> length (plus_record r)" using plus_record_pos(2) [of r] by linarith
  with Cons show ?case by simp
qed simp

lemma block_okD:
  assumes "block_ok rs"
  shows "length rs < 2 ^ 32" and "length (block_data rs) < 2 ^ 32" and "rs \<noteq> []"
    and "(word_of_nat (length rs) :: u32) \<noteq> 0" and "(word_of_nat (length (block_data rs)) :: u32) \<noteq> 0"
    and "unat (word_of_nat (length rs) :: u32) = length rs"
    and "unat (word_of_nat (length (block_data rs)) :: u32) = length (block_data rs)"
proof -
  show lt: "length (block_data rs) < 2 ^ 32" "rs \<noteq> []" using assms by (simp_all add: block_ok_def)
  then show n: "length rs < 2 ^ 32" using length_le_block_data [of rs] by linarith
  have pos: "0 < length rs" "0 < length (block_data rs)"
    using lt(2) length_le_block_data [of rs] by (cases rs; simp)+
  show u: "unat (word_of_nat (length rs) :: u32) = length rs"
    "unat (word_of_nat (length (block_data rs)) :: u32) = length (block_data rs)"
    using n lt(1) by (simp_all add: unat_of_nat)
  show "(word_of_nat (length rs) :: u32) \<noteq> 0" "(word_of_nat (length (block_data rs)) :: u32) \<noteq> 0"
    using u pos by (metis unat_0 less_numeral_extra(3))+
qed

lemma parse_block_partial:
  assumes ok: "block_ok rs" and split: "x @ y = encode_block rs" and "64 \<le> length x" and "y \<noteq> []"
  shows "parse_block snap ntop x r
    = Inr ([], r\<lparr>ra_state := READ_BODY, ra_dataSize := block_size rs, ra_buffer := ra_buffer r @ x\<rparr>)"
proof -
  let ?h = "block_header (length rs) (length (block_data rs))"
  have "take 64 x = take 64 (x @ y)" using assms(3) by simp
  also have "\<dots> = ?h" unfolding split encode_block_def by simp
  finally have x: "x = ?h @ drop 64 x" by (metis append_take_drop_id)
  have "0 < length y" using assms(4) by simp
  moreover have "length x + length y = block_size rs"
    using arg_cong [OF split, of length] by (simp add: length_encode_block)
  ultimately have short: "length x < block_size rs" by linarith
  note f = header_fields [OF block_okD(1,2) [OF ok], of "drop 64 x", folded x]
  note w = block_okD(4-7) [OF ok]
  have ne: "block_data rs \<noteq> []" using w(2) by auto
  show ?thesis
    using assms(3) short
    by (simp add: parse_block_def f w ne block_size_def Let_def)
qed

lemma parse_block_complete:
  assumes ok: "block_ok rs"
  shows "parse_block snap ntop (encode_block rs) r = Inr (block_result ntop rs, r)"
proof -
  let ?b = "encode_block rs" and ?offs = "concat (map (word_le 4) (rec_offsets 0 rs))"
  have b: "?b = block_header (length rs) (length (block_data rs)) @ ?offs @ block_data rs"
    by (simp add: encode_block_def)
  note f = header_fields [OF block_okD(1,2) [OF ok], of "?offs @ block_data rs", folded b]
  note w = block_okD(4-7) [OF ok]
  have len: "length ?b = 64 + length rs * 4 + length (block_data rs)"
    by (simp add: length_encode_block block_size_def)
  have offs: "take (length rs * 4) (drop 64 ?b) = ?offs"
    by (simp add: b length_words)
  have data: "take (length (block_data rs)) (drop (64 + length rs * 4) ?b) = block_data rs"
    by (simp add: b length_words)
  obtain last where last: "check_block_offsets 0 (rec_offsets 0 rs) = Inr last" "unat last < length (block_data rs)"
    using check_rec_offsets [of rs 0 0] block_okD(2,3) [OF ok] by auto
  have hm: "le_word (take (Suc 0) (drop 46 ?b)) = (0 :: byte)" using f(5) by simp
  have ne: "block_data rs \<noteq> []" using w(2) by auto
  have nle: "\<not> (word_of_nat (length (block_data rs)) :: u32) \<le> last"
    using last(2) w by (simp add: word_le_nat_alt)
  show ?thesis
    using block_packets_records [of "block_data rs" "[]" rs ntop] block_okD(2) [OF ok]
    by (simp add: parse_block_def f w len ne offs data words32_word_le last(1) nle hm Let_def)
qed


text \<open>Messages of one stream, one after the other.\<close>

fun ra_run :: "snappy \<Rightarrow> ntop \<Rightarrow> bytes list \<Rightarrow> reassembler \<Rightarrow> (packet list \<times> reassembler) result" where
  "ra_run snap ntop [] r = Inr ([], r)"
| "ra_run snap ntop (d # ds) r =
     rbind (ra_process snap ntop d r) (\<lambda>(ps, r). rbind (ra_run snap ntop ds r) (\<lambda>(qs, r). Inr (ps @ qs, r)))"

lemma ra_run_append:
  "ra_run snap ntop (xs @ ys) r =
     rbind (ra_run snap ntop xs r) (\<lambda>(ps, r). rbind (ra_run snap ntop ys r) (\<lambda>(qs, r). Inr (ps @ qs, r)))"
proof (induction xs arbitrary: r)
  case Nil
  show ?case by (cases "ra_run snap ntop ys r") auto
next
  case (Cons d ds)
  show ?case
  proof (cases "ra_process snap ntop d r")
    case (Inr pr)
    obtain ps r' where pr: "pr = (ps, r')" by (cases pr)
    show ?thesis
      by (cases "ra_run snap ntop ds r'"; cases "ra_run snap ntop ys (snd (projr (ra_run snap ntop ds r')))")
        (auto simp: Inr pr Cons)
  qed simp
qed

text \<open>A reassembler at a block boundary: new, or reset after a block.\<close>

definition ra_idle :: "reassembler \<Rightarrow> bool" where
  "ra_idle r \<longleftrightarrow> ra_state r \<in> {WAIT_HEADER, READ_HEADER} \<and> ra_buffer r = []"

lemma ra_idle_new: "ra_idle (reassembler_new s)"
  by (simp add: ra_idle_def reassembler_new_def)

lemma ra_idle_reset: "ra_idle (ra_reset r)" "ra_state (ra_reset r) = READ_HEADER"
  by (simp_all add: ra_idle_def ra_reset_def)

lemma ra_process_idle:
  assumes "ra_idle r" and "64 \<le> length d"
  shows "ra_parse snap ntop d r = parse_block snap ntop d (r\<lparr>ra_state := READ_HEADER\<rparr>)"
  using assms by (cases r) (auto simp: ra_parse_def ra_idle_def split: ra_phase.splits)

lemma ra_run_body:
  assumes ok: "block_ok rs" and ne: "block_result ntop rs \<noteq> []"
    and "ra_buffer r @ concat cs = encode_block rs" and "[] \<notin> set cs" and "cs \<noteq> []"
    and "ra_state r = READ_BODY" and "ra_dataSize r = block_size rs"
  shows "\<exists>r'. ra_run snap ntop cs r = Inr (block_result ntop rs, r') \<and> ra_idle r' \<and> ra_state r' = READ_HEADER"
  using assms(3-)
proof (induction cs arbitrary: r)
  case (Cons c cs)
  let ?r = "r\<lparr>ra_buffer := ra_buffer r @ c\<rparr>"
  show ?case
  proof (cases "cs = []")
    case True
    then have b: "ra_buffer r @ c = encode_block rs" using Cons.prems(1) by simp
    have "ra_process snap ntop c r = Inr (block_result ntop rs, ra_reset (?r\<lparr>ra_state := READ_HEADER\<rparr>))"
      using Cons.prems ne
      by (simp add: ra_process_def ra_parse_def b length_encode_block parse_block_complete [OF ok] Let_def)
    then show ?thesis using True by (simp add: ra_idle_reset)
  next
    case False
    have "0 < length (concat cs)" using Cons.prems(2) False by (cases cs) auto
    moreover have "length (ra_buffer r @ c) + length (concat cs) = block_size rs"
      using arg_cong [OF Cons.prems(1), of length] by (simp add: length_encode_block)
    ultimately have "\<not> block_size rs \<le> length (ra_buffer r @ c)" by linarith
    then have "ra_process snap ntop c r = Inr ([], ?r)"
      using Cons.prems by (simp add: ra_process_def ra_parse_def Let_def)
    moreover obtain r' where "ra_run snap ntop cs ?r = Inr (block_result ntop rs, r')" "ra_idle r'" "ra_state r' = READ_HEADER"
      using Cons.IH [of ?r] Cons.prems False by auto
    ultimately show ?thesis by simp
  qed
qed simp

text \<open>A block cut into messages: the first holds at least the block header, none is empty.\<close>

definition chunks_of :: "block_rec list \<Rightarrow> bytes list \<Rightarrow> bool" where
  "chunks_of rs cs \<longleftrightarrow> concat cs = encode_block rs \<and> [] \<notin> set cs \<and> cs \<noteq> [] \<and> 64 \<le> length (hd cs)"

lemma ra_run_chunks:
  assumes ok: "block_ok rs" and ne: "block_result ntop rs \<noteq> []" and cs: "chunks_of rs cs" and "ra_idle r"
  shows "\<exists>r'. ra_run snap ntop cs r = Inr (block_result ntop rs, r') \<and> ra_idle r' \<and> ra_state r' = READ_HEADER"
proof -
  obtain c cs' where c: "cs = c # cs'" using cs by (cases cs) (auto simp: chunks_of_def)
  have split: "c @ concat cs' = encode_block rs" and c64: "64 \<le> length c" and cs': "[] \<notin> set cs'"
    using cs by (auto simp: chunks_of_def c)
  let ?r = "r\<lparr>ra_state := READ_HEADER\<rparr>"
  note idle = ra_process_idle [OF assms(4) c64, of snap ntop]
  show ?thesis
  proof (cases "cs' = []")
    case True
    then have "ra_process snap ntop c r = Inr (block_result ntop rs, ra_reset ?r)"
      using idle split ne by (simp add: ra_process_def parse_block_complete [OF ok])
    then show ?thesis using True c by (simp add: ra_idle_reset)
  next
    case False
    then have "concat cs' \<noteq> []" using cs' by (cases cs') auto
    from parse_block_partial [OF ok split c64 this]
    have p: "ra_process snap ntop c r
      = Inr ([], r\<lparr>ra_state := READ_BODY, ra_dataSize := block_size rs, ra_buffer := c\<rparr>)"
      using assms(4) idle by (simp add: ra_process_def ra_idle_def)
    obtain r' where "ra_run snap ntop cs' (r\<lparr>ra_state := READ_BODY, ra_dataSize := block_size rs, ra_buffer := c\<rparr>)
      = Inr (block_result ntop rs, r')" "ra_idle r'" "ra_state r' = READ_HEADER"
      using ra_run_body [OF ok ne, of "r\<lparr>ra_state := READ_BODY, ra_dataSize := block_size rs, ra_buffer := c\<rparr>" cs' snap]
        split cs' False by auto
    then show ?thesis using p c by simp
  qed
qed



text \<open>A concrete frame: the UDP datagram of the parser examples, 31 bytes.\<close>

definition demo_frame :: bytes where
  "demo_frame = demo_ip4 17 @ [19, 196, 19, 197, 0, 11, 0, 0] @ [1, 2, 3]"

definition demo_block :: "block_rec list" where
  "demo_block = [(1, 2, demo_frame), (3, 4, demo_frame)]"

lemma demo_frame_smart: "\<exists>pkt. parser_packets SmartP ntop DLT_RAW demo_frame ts = Inr [pkt]"
proof -
  have ip: "ip_payload ntop DLT_RAW ([] @ demo_ip4 17 @ [19, 196, 19, 197, 0, 11, 0, 0] @ [1, 2, 3]) info
    = Inr (length ([] :: bytes) + length (demo_ip4 17), ip_info ntop (demo_ip4 17) info)" for info
    by (rule ip_payload_frame) (simp_all add: demo_ip4_hdr headerSize_def)
  show ?thesis
    using ip by (simp add: parser_packets_def raw_packets_def smart_payload_def udp_payload_def demo_frame_def
        demo_ip4_def unat_htons_pair ip_info_def nib_hi_def)
qed

lemma demo_block_ok: "block_ok demo_block" "block_result ntop demo_block \<noteq> []"
proof -
  have "length demo_frame = 31" by (simp add: demo_frame_def demo_ip4_def)
  then show "block_ok demo_block" by (simp add: block_ok_def demo_block_def length_plus_record)
  obtain pkt where "parser_packets SmartP ntop DLT_RAW demo_frame \<lparr>tv_sec = 1, tv_usec = 2\<rparr> = Inr [pkt]"
    using demo_frame_smart by blast
  then show "block_result ntop demo_block \<noteq> []"
    by (simp add: block_result_def demo_block_def rec_packets_def)
qed

lemma chunks_of_split:
  "64 \<le> n \<Longrightarrow> n < block_size rs \<Longrightarrow> chunks_of rs [take n (encode_block rs), drop n (encode_block rs)]"
  using length_encode_block [of rs] by (auto simp: chunks_of_def)

definition demo_snap :: snappy where
  "demo_snap d n = SnappyInvalidInput"


theorem ra_process_safe_witness:
  "\<exists>ps r'. ra_process demo_snap demo_ntop [1, 2, 3] (reassembler_new ''s'') = Inr (ps, r')"
  using ra_process_safe [of "reassembler_new ''s''" "[1, 2, 3]" demo_snap demo_ntop]
  by (auto simp: ra_inv_def reassembler_new_def)

text \<open>After a block has been delivered the reassembler is not back in the state that ignores a
  message too short for a header: \<open>reset\<close> leaves \<open>READ_HEADER\<close>, and a message of fewer than 15 bytes
  is then compared with the 16-byte title beyond its end. So the two segments of a block followed by
  a one-byte segment make the parser read out of bounds.\<close>

lemma voip_short_message_overread:
  "ra_run snap ntop [take 70 (encode_block demo_block), drop 70 (encode_block demo_block), [b]] (reassembler_new s)
    = Inl BadAccess"
proof -
  have "70 < block_size demo_block" by (simp add: block_size_def demo_block_def)
  then have "chunks_of demo_block [take 70 (encode_block demo_block), drop 70 (encode_block demo_block)]"
    by (intro chunks_of_split) simp_all
  from ra_run_chunks [OF demo_block_ok this ra_idle_new]
  obtain r' where r': "ra_run snap ntop [take 70 (encode_block demo_block), drop 70 (encode_block demo_block)]
      (reassembler_new s) = Inr (block_result ntop demo_block, r')" "ra_state r' = READ_HEADER"
    by blast
  have "ra_process snap ntop [b] r' = Inl BadAccess"
    using r'(2) by (simp add: ra_process_def ra_parse_def parse_block_def)
  then show ?thesis
    using r'(1) ra_run_append [of snap ntop "[take 70 (encode_block demo_block), drop 70 (encode_block demo_block)]" "[[b]]"]
    by simp
qed


subsection \<open>Streams do not interfere\<close>

definition of_stream :: "string \<Rightarrow> packet \<Rightarrow> bool" where
  "of_stream k p \<longleftrightarrow> stream_key (pkt_info p) = k"

definition stream_state :: "string \<Rightarrow> streams \<Rightarrow> reassembler" where
  "stream_state k m = (case m k of Some r \<Rightarrow> r | None \<Rightarrow> reassembler_new k)"

lemma voip_feed_eq:
  "voip_feed snap ntop p m = rbind (ra_process snap ntop (pkt_data p) (stream_state (stream_key (pkt_info p)) m))
     (\<lambda>(ps, r). Inr (ps, m(stream_key (pkt_info p) \<mapsto> r)))"
  by (simp add: voip_feed_def voip_reassembler_def stream_state_def Let_def)

text \<open>The streams of a VoIP parser do not interfere: after any messages of any streams, the
  reassembler of a stream is in the state that its own messages alone, in their order, lead to.\<close>

lemma voip_streams_independent:
  assumes "voip_feeds snap ntop ps m = Inr (out, m')"
  shows "\<exists>qs. ra_run snap ntop (map pkt_data (filter (of_stream k) ps)) (stream_state k m)
    = Inr (qs, stream_state k m') \<and> set qs \<subseteq> set out"
  using assms
proof (induction ps arbitrary: m out)
  case (Cons p ps)
  let ?k = "stream_key (pkt_info p)"
  obtain xs r ys where feed: "ra_process snap ntop (pkt_data p) (stream_state ?k m) = Inr (xs, r)"
    and rest: "voip_feeds snap ntop ps (m(?k \<mapsto> r)) = Inr (ys, m')" and out: "out = xs @ ys"
    using Cons.prems by (auto simp: voip_feed_eq rbind_eq_Inr)
  obtain qs where qs: "ra_run snap ntop (map pkt_data (filter (of_stream k) ps)) (stream_state k (m(?k \<mapsto> r)))
    = Inr (qs, stream_state k m')" "set qs \<subseteq> set ys"
    using Cons.IH [OF rest] by blast
  show ?case
  proof (cases "?k = k")
    case True
    then have "of_stream k p" "stream_state k (m(?k \<mapsto> r)) = r"
      by (auto simp: of_stream_def stream_state_def)
    then show ?thesis using feed qs out True
      by (intro exI [of _ "xs @ qs"]) auto
  next
    case False
    then have "stream_state k (m(?k \<mapsto> r)) = stream_state k m" "\<not> of_stream k p"
      by (auto simp: stream_state_def of_stream_def)
    then show ?thesis using qs out
      by (intro exI [of _ qs]) auto
  qed
qed simp

lemma voip_streams_independent_witness:
  "\<exists>m' qs. voip_feeds demo_snap demo_ntop [\<lparr>pkt_data = [1, 2, 3], pkt_info = pinfo0\<rparr>] (\<lambda>_. None) = Inr ([], m')
    \<and> ra_run demo_snap demo_ntop [] (reassembler_new ''x'') = Inr (qs, stream_state ''x'' m')"
proof -
  have f: "voip_feeds demo_snap demo_ntop [\<lparr>pkt_data = [1, 2, 3], pkt_info = pinfo0\<rparr>] (\<lambda>_. None)
    = Inr ([], [stream_key pinfo0 \<mapsto> reassembler_new (stream_key pinfo0)])"
    by (simp add: voip_feed_eq stream_state_def ra_process_def ra_parse_def reassembler_new_def)
  have "\<not> of_stream ''x'' \<lparr>pkt_data = [1, 2, 3], pkt_info = pinfo0\<rparr>"
    by (simp add: of_stream_def stream_key_def pinfo0_def)
  with voip_streams_independent [OF f, of "''x''"] f show ?thesis by (auto simp: stream_state_def)
qed

end
