(* ===== verification/Voip_Block.thy ===== *)
theory Voip_Block
  imports Voip
begin

unbundle bit_operations_syntax

section \<open>voipmonitor: packet headers and the block store (voipmonitor/header_packet.h, pcap_queue_block.h)\<close>

text \<open>
  The inline part of the two voipmonitor headers: the packet header \<open>pcap_pkthdr_plus\<close> with its union
  of two layouts, the block header \<open>pcap_block_store_header\<close> whose bytes the VoIP reassembler reads,
  and the block store with its array of offsets. A pointer into \<open>block\<close> is the offset it points to;
  \<open>block\<close>, \<open>offsets\<close>, \<open>restoreBuffer\<close> and \<open>is_voip\<close> are the bytes behind the pointer, None the null
  pointer. \<open>size_t\<close> is 64 bits, \<open>int\<close> 32. The operations the header only declares (\<open>add_hp\<close>,
  \<open>compress\<close>, \<open>destroy\<close>, ...) have no definition in the repository.
\<close>

subsection \<open>sPacketInfoData, sHeaderPacket\<close>

record packet_info_data =
  pid_vlan :: u16
  pid_flags :: byte

definition VLAN_UNSET :: u16 where
  "VLAN_UNSET = 0xFFFF"

definition VLAN_NOSET :: u16 where
  "VLAN_NOSET = 0xFFFE"

definition VLAN_IS_SET :: "u16 \<Rightarrow> bool" where
  "VLAN_IS_SET vlan \<longleftrightarrow> (vlan AND 0xFFF) = vlan"

definition pid_init :: "packet_info_data \<Rightarrow> packet_info_data" where
  "pid_init p = p\<lparr>pid_vlan := VLAN_UNSET, pid_flags := 0\<rparr>"

record header_packet =
  hp_detect_headers :: byte
  hp_header_ip_first_offset :: u16
  hp_header_ip_offset :: u16
  hp_eth_protocol :: u16
  hp_pid :: packet_info_data
  hp_md5 :: "u16 list"

definition clearPcapProcessData :: "header_packet \<Rightarrow> header_packet" where
  "clearPcapProcessData h = h\<lparr>hp_detect_headers := 0, hp_md5 := (hp_md5 h)[0 := 0]\<rparr>"

lemma VLAN_IS_SET_iff: "VLAN_IS_SET v \<longleftrightarrow> unat v < 4096"
proof -
  have "(v AND 0xFFF) = take_bit 12 v"
    by (simp add: take_bit_eq_mask mask_numeral)
  then have "VLAN_IS_SET v \<longleftrightarrow> take_bit 12 (unat v) = unat v"
    by (simp add: VLAN_IS_SET_def word_unat_eq_iff unsigned_take_bit_eq)
  then show ?thesis by (simp add: take_bit_nat_eq_self_iff)
qed

lemma pid_init_not_set: "\<not> VLAN_IS_SET (pid_vlan (pid_init p))" "\<not> VLAN_IS_SET VLAN_NOSET"
  by (simp_all add: VLAN_IS_SET_iff pid_init_def VLAN_UNSET_def VLAN_NOSET_def)

subsection \<open>pcap_pkthdr_plus\<close>

text \<open>
  \<open>pcap_pkthdr\<close> of a 64-bit system: two 64-bit words of time, \<open>caplen\<close>, \<open>len\<close>. \<open>pcap_pkthdr_fix_size\<close>
  has 32-bit times, the lengths at 8 and 12 and eight bytes of filler. The union is its 24 bytes.
\<close>

record pcap_pkthdr =
  ph_tv_sec :: u64
  ph_tv_usec :: u64
  ph_caplen :: u32
  ph_len :: u32

record pkthdr_fix_size =
  fx_tv_sec :: u32
  fx_tv_usec :: u32
  fx_caplen :: u32
  fx_len :: u32

record pkthdr_plus =
  pp_union :: bytes
  pp_header_ip_offset :: u16
  pp_std :: u16
  pp_dlink :: u16
  pp_pid :: packet_info_data

definition header_fix_size :: "'a pkthdr_plus_scheme \<Rightarrow> pkthdr_fix_size" where
  "header_fix_size p = (let u = pp_union p in
     \<lparr>fx_tv_sec = le_word (take 4 u), fx_tv_usec = le_word (take 4 (drop 4 u)),
      fx_caplen = le_word (take 4 (drop 8 u)), fx_len = le_word (take 4 (drop 12 u))\<rparr>)"

definition header_std :: "'a pkthdr_plus_scheme \<Rightarrow> pcap_pkthdr" where
  "header_std p = (let u = pp_union p in
     \<lparr>ph_tv_sec = le_word (take 8 u), ph_tv_usec = le_word (take 8 (drop 8 u)),
      ph_caplen = le_word (take 4 (drop 16 u)), ph_len = le_word (take 4 (drop 20 u))\<rparr>)"

definition pkthdr_bytes :: "pcap_pkthdr \<Rightarrow> bytes" where
  "pkthdr_bytes h = word_le 8 (ph_tv_sec h) @ word_le 8 (ph_tv_usec h) @ word_le 4 (ph_caplen h) @ word_le 4 (ph_len h)"

definition pkthdr_plus_new :: pkthdr_plus where
  "pkthdr_plus_new = \<lparr>pp_union = replicate 24 0, pp_header_ip_offset = 0, pp_std = 0, pp_dlink = 0,
     pp_pid = \<lparr>pid_vlan = 0, pid_flags = 0\<rparr>\<rparr>"

definition convertFromStdHeader :: "pcap_pkthdr \<Rightarrow> 'a pkthdr_plus_scheme \<Rightarrow> 'a pkthdr_plus_scheme" where
  "convertFromStdHeader h p =
     (let u = pp_union p;
          u = put_at 0 (word_le 4 (ucast (ph_tv_sec h) :: u32)) u;
          u = put_at 4 (word_le 4 (ucast (ph_tv_usec h) :: u32)) u;
          u = put_at 8 (word_le 4 (ph_caplen h)) u;
          u = put_at 12 (word_le 4 (ph_len h)) u
      in p\<lparr>pp_std := 0, pp_union := u\<rparr>)"

definition getStdHeader :: "'a pkthdr_plus_scheme \<Rightarrow> pcap_pkthdr" where
  "getStdHeader p = (let f = header_fix_size p in
     \<lparr>ph_tv_sec = ucast (fx_tv_sec f), ph_tv_usec = ucast (fx_tv_usec f), ph_caplen = fx_caplen f, ph_len = fx_len f\<rparr>)"

text \<open>\<open>convertToStdHeader\<close> returns the address of \<open>header_std\<close>: the header read through it is
  \<open>header_std\<close> of the new state.\<close>

definition convertToStdHeader :: "'a pkthdr_plus_scheme \<Rightarrow> 'a pkthdr_plus_scheme" where
  "convertToStdHeader p =
     (if pp_std p = 0 then
        (let f = header_fix_size p;
             header = \<lparr>ph_tv_sec = ucast (fx_tv_sec f), ph_tv_usec = ucast (fx_tv_usec f),
                       ph_caplen = fx_caplen f, ph_len = fx_len f\<rparr>
         in p\<lparr>pp_union := pkthdr_bytes header, pp_std := 1\<rparr>)
      else p)"

definition get_caplen :: "'a pkthdr_plus_scheme \<Rightarrow> u32" where
  "get_caplen p = (if pp_std p \<noteq> 0 then ph_caplen (header_std p) else fx_caplen (header_fix_size p))"

definition get_len :: "'a pkthdr_plus_scheme \<Rightarrow> u32" where
  "get_len p = (if pp_std p \<noteq> 0 then ph_len (header_std p) else fx_len (header_fix_size p))"

definition set_caplen :: "u32 \<Rightarrow> 'a pkthdr_plus_scheme \<Rightarrow> 'a pkthdr_plus_scheme" where
  "set_caplen n p = p\<lparr>pp_union := put_at (if pp_std p \<noteq> 0 then 16 else 8) (word_le 4 n) (pp_union p)\<rparr>"

definition set_len :: "u32 \<Rightarrow> 'a pkthdr_plus_scheme \<Rightarrow> 'a pkthdr_plus_scheme" where
  "set_len n p = p\<lparr>pp_union := put_at (if pp_std p \<noteq> 0 then 20 else 12) (word_le 4 n) (pp_union p)\<rparr>"

definition get_tv_sec :: "'a pkthdr_plus_scheme \<Rightarrow> u32" where
  "get_tv_sec p = (if pp_std p \<noteq> 0 then ucast (ph_tv_sec (header_std p)) else fx_tv_sec (header_fix_size p))"

definition get_tv_usec :: "'a pkthdr_plus_scheme \<Rightarrow> u32" where
  "get_tv_usec p = (if pp_std p \<noteq> 0 then ucast (ph_tv_usec (header_std p)) else fx_tv_usec (header_fix_size p))"

definition get_time_ms :: "'a pkthdr_plus_scheme \<Rightarrow> u64" where
  "get_time_ms p = ucast (get_tv_sec p) * 1000 + ucast (get_tv_usec p div 1000)"

record pkthdr_plus2 = pkthdr_plus +
  p2_detect_headers :: byte
  p2_header_ip_first_offset :: u16
  p2_eth_protocol :: u16
  p2_md5 :: "u16 list"
  p2_ignore :: byte

definition plus2_clear :: "pkthdr_plus2 \<Rightarrow> pkthdr_plus2" where
  "plus2_clear p = p\<lparr>p2_detect_headers := 0, p2_md5 := (p2_md5 p)[0 := 0], p2_ignore := 0\<rparr>"

text \<open>The constructor of \<open>pcap_pkthdr_plus2\<close>: the base part zeroed, \<open>clear\<close>, the rest as the memory was.\<close>

definition pkthdr_plus2_new :: "pkthdr_plus2 \<Rightarrow> pkthdr_plus2" where
  "pkthdr_plus2_new m = plus2_clear (m\<lparr>pp_union := replicate 24 0, pp_header_ip_offset := 0, pp_std := 0,
     pp_dlink := 0, pp_pid := \<lparr>pid_vlan = 0, pid_flags = 0\<rparr>\<rparr>)"

subsubsection \<open>The two layouts of the union\<close>

definition plus_wf :: "'a pkthdr_plus_scheme \<Rightarrow> bool" where
  "plus_wf p \<longleftrightarrow> length (pp_union p) = 24"

lemma length_pkthdr_bytes [simp, byte_simps]: "length (pkthdr_bytes h) = 24"
  by (simp add: pkthdr_bytes_def)

lemma pkthdr_bytes_fields:
  "le_word (take 8 (pkthdr_bytes h)) = ph_tv_sec h"
  "le_word (take 8 (drop 8 (pkthdr_bytes h))) = ph_tv_usec h"
  "le_word (take 4 (drop 16 (pkthdr_bytes h))) = ph_caplen h"
  "le_word (take 4 (drop 20 (pkthdr_bytes h))) = ph_len h"
  "le_word (drop 20 (pkthdr_bytes h)) = ph_len h"
  by (simp_all add: pkthdr_bytes_def le_word_word_le)

lemma header_std_written [simp]: "header_std (p\<lparr>pp_union := pkthdr_bytes h, pp_std := n\<rparr>) = h"
  by (simp add: header_std_def pkthdr_bytes_fields Let_def)

lemma ucast_32_64_32 [simp]: "ucast (ucast (w :: u32) :: u64) = w"
  by (simp add: ucast_up_ucast_id is_up)

text \<open>A buffer of 24 bytes as the pieces of the fixed-size layout.\<close>

lemma union_split:
  assumes "length (u :: bytes) = 24"
  obtains a b c d e f where "u = a @ b @ c @ d @ e @ f"
    "length a = 4" "length b = 4" "length c = 4" "length d = 4" "length e = 4" "length f = 4"
proof
  show "u = take 4 u @ take 4 (drop 4 u) @ take 4 (drop 8 u) @ take 4 (drop 12 u) @ take 4 (drop 16 u) @ drop 20 u"
    using append_take_drop_id [of 4 u] append_take_drop_id [of 4 "drop 4 u"] append_take_drop_id [of 4 "drop 8 u"]
      append_take_drop_id [of 4 "drop 12 u"] append_take_drop_id [of 4 "drop 16 u"] by simp
qed (use assms in simp_all)

lemma put_at_0 [byte_simps]: "length bs = length ys \<Longrightarrow> put_at 0 bs (ys @ zs) = bs @ zs"
  by (simp add: put_at_def)

lemma put_at_past [byte_simps]:
  "length xs \<le> off \<Longrightarrow> put_at off bs (xs @ ys) = xs @ put_at (off - length xs) bs ys"
  by (simp add: put_at_def)

lemma convertFromStdHeader_fix:
  assumes "plus_wf p"
  shows "header_fix_size (convertFromStdHeader h p)
      = \<lparr>fx_tv_sec = ucast (ph_tv_sec h), fx_tv_usec = ucast (ph_tv_usec h), fx_caplen = ph_caplen h, fx_len = ph_len h\<rparr>"
    and "plus_wf (convertFromStdHeader h p)" and "pp_std (convertFromStdHeader h p) = 0"
proof -
  obtain a b c d e f where u: "pp_union p = a @ b @ c @ d @ e @ f"
    and l: "length a = 4" "length b = 4" "length c = 4" "length d = 4" "length e = 4" "length f = 4"
    using union_split assms unfolding plus_wf_def by metis
  have w: "pp_union (convertFromStdHeader h p) = word_le 4 (ucast (ph_tv_sec h) :: u32)
      @ word_le 4 (ucast (ph_tv_usec h) :: u32) @ word_le 4 (ph_caplen h) @ word_le 4 (ph_len h) @ e @ f"
    by (simp add: convertFromStdHeader_def Let_def u l byte_simps)
  show "header_fix_size (convertFromStdHeader h p)
      = \<lparr>fx_tv_sec = ucast (ph_tv_sec h), fx_tv_usec = ucast (ph_tv_usec h), fx_caplen = ph_caplen h, fx_len = ph_len h\<rparr>"
    by (simp add: header_fix_size_def w le_word_word_le Let_def)
  show "plus_wf (convertFromStdHeader h p)" by (simp add: plus_wf_def w l)
  show "pp_std (convertFromStdHeader h p) = 0" by (simp add: convertFromStdHeader_def Let_def)
qed

lemma convertToStdHeader_wf: "plus_wf p \<Longrightarrow> plus_wf (convertToStdHeader p)"
  by (simp add: convertToStdHeader_def plus_wf_def Let_def)

lemma convertToStdHeader_std: "pp_std (convertToStdHeader p) \<noteq> 0"
  by (simp add: convertToStdHeader_def Let_def)

text \<open>No getter sees which layout the header is in.\<close>

lemma convertToStdHeader_getters [simp]:
  "get_caplen (convertToStdHeader p) = get_caplen p"
  "get_len (convertToStdHeader p) = get_len p"
  "get_tv_sec (convertToStdHeader p) = get_tv_sec p"
  "get_tv_usec (convertToStdHeader p) = get_tv_usec p"
  "get_time_ms (convertToStdHeader p) = get_time_ms p"
proof -
  have a: "get_caplen (convertToStdHeader p) = get_caplen p" "get_len (convertToStdHeader p) = get_len p"
    by (simp_all add: get_caplen_def get_len_def convertToStdHeader_def Let_def)
  have b: "get_tv_sec (convertToStdHeader p) = get_tv_sec p" "get_tv_usec (convertToStdHeader p) = get_tv_usec p"
    by (simp_all add: get_tv_sec_def get_tv_usec_def convertToStdHeader_def Let_def)
  show "get_caplen (convertToStdHeader p) = get_caplen p" "get_len (convertToStdHeader p) = get_len p"
    "get_tv_sec (convertToStdHeader p) = get_tv_sec p" "get_tv_usec (convertToStdHeader p) = get_tv_usec p"
    "get_time_ms (convertToStdHeader p) = get_time_ms p"
    using a b by (simp_all add: get_time_ms_def)
qed

lemma set_getters:
  assumes "plus_wf p"
  shows "get_caplen (set_caplen n p) = n" and "get_len (set_caplen n p) = get_len p"
    and "get_len (set_len n p) = n" and "get_caplen (set_len n p) = get_caplen p"
    and "plus_wf (set_caplen n p)" and "plus_wf (set_len n p)"
proof -
  obtain a b c d e f where u: "pp_union p = a @ b @ c @ d @ e @ f"
    and l: "length a = 4" "length b = 4" "length c = 4" "length d = 4" "length e = 4" "length f = 4"
    using union_split assms unfolding plus_wf_def by metis
  have c: "pp_union (set_caplen n p) = (if pp_std p \<noteq> 0 then a @ b @ c @ d @ word_le 4 n @ f
      else a @ b @ word_le 4 n @ d @ e @ f)" "pp_std (set_caplen n p) = pp_std p"
    by (simp_all add: set_caplen_def u l put_at_def)
  have n: "pp_union (set_len n p) = (if pp_std p \<noteq> 0 then a @ b @ c @ d @ e @ word_le 4 n
      else a @ b @ c @ word_le 4 n @ e @ f)" "pp_std (set_len n p) = pp_std p"
    by (simp_all add: set_len_def u l put_at_def)
  show "get_caplen (set_caplen n p) = n" "get_len (set_caplen n p) = get_len p"
    by (simp_all add: get_caplen_def get_len_def header_std_def header_fix_size_def Let_def c u l le_word_word_le)
  show "get_len (set_len n p) = n" "get_caplen (set_len n p) = get_caplen p"
    by (simp_all add: get_caplen_def get_len_def header_std_def header_fix_size_def Let_def n u l le_word_word_le)
  show "plus_wf (set_caplen n p)" "plus_wf (set_len n p)"
    using assms by (simp_all add: plus_wf_def set_caplen_def set_len_def)
qed

text \<open>The time in milliseconds does not overflow 64 bits.\<close>

lemma unat_ucast_64 [simp]: "unat (ucast (w :: u32) :: u64) = unat w"
proof -
  have "unat w < 2 ^ 64" using unsigned_less [of w, where ?'a = nat] by simp
  then show ?thesis by (simp add: unsigned_ucast_eq take_bit_nat_eq_self)
qed

lemma get_time_ms_exact: "unat (get_time_ms p) = unat (get_tv_sec p) * 1000 + unat (get_tv_usec p) div 1000"
proof -
  have "unat (get_tv_sec p) < 2 ^ 32" "unat (get_tv_usec p) < 2 ^ 32"
    using unsigned_less [of "get_tv_sec p", where ?'a = nat] unsigned_less [of "get_tv_usec p", where ?'a = nat] by simp_all
  then show ?thesis
    by (simp add: get_time_ms_def unat_word_ariths unat_div_distrib)
qed

text \<open>A packet header survives the block store: the header converted in (\<open>convertFromStdHeader\<close>) and
  out again (\<open>convertToStdHeader\<close>) is the header of libpcap, whatever the union held before, when its
  time fits 32 bits; every getter agrees with it on both sides of the conversion, and a second
  conversion changes nothing. The lengths survive always, the time modulo \<open>2 ^ 32\<close>.\<close>

lemma std_header_roundtrip:
  assumes "plus_wf p"
  shows "let q = convertFromStdHeader h p in header_std (convertToStdHeader q)
      = h\<lparr>ph_tv_sec := take_bit 32 (ph_tv_sec h), ph_tv_usec := take_bit 32 (ph_tv_usec h)\<rparr>
    \<and> getStdHeader q = header_std (convertToStdHeader q)
    \<and> convertToStdHeader (convertToStdHeader q) = convertToStdHeader q
    \<and> (\<forall>r \<in> {q, convertToStdHeader q}. get_caplen r = ph_caplen h \<and> get_len r = ph_len h
        \<and> get_tv_sec r = ucast (ph_tv_sec h) \<and> get_tv_usec r = ucast (ph_tv_usec h))"
proof -
  note fx = convertFromStdHeader_fix [OF assms(1), of h]
  have u: "ucast (ucast (w :: u64) :: u32) = take_bit 32 w" for w
    by (simp add: word_unat_eq_iff unsigned_ucast_eq unsigned_take_bit_eq take_bit_take_bit min_def)
  have v: "(ucast (take_bit 32 w) :: u32) = ucast (w :: u64)" for w
    by (simp add: word_unat_eq_iff unsigned_ucast_eq unsigned_take_bit_eq take_bit_take_bit min_def)
  show ?thesis
    using fx by (simp add: get_caplen_def get_len_def get_tv_sec_def get_tv_usec_def
        convertToStdHeader_def getStdHeader_def u v Let_def)
qed

lemma std_header_roundtrip_witness:
  "header_std (convertToStdHeader (convertFromStdHeader
      \<lparr>ph_tv_sec = 0x165000000, ph_tv_usec = 7, ph_caplen = 60, ph_len = 90\<rparr> pkthdr_plus_new))
    = \<lparr>ph_tv_sec = 0x65000000, ph_tv_usec = 7, ph_caplen = 60, ph_len = 90\<rparr>"
  using std_header_roundtrip [of pkthdr_plus_new "\<lparr>ph_tv_sec = 0x165000000, ph_tv_usec = 7, ph_caplen = 60, ph_len = 90\<rparr>"]
  by (simp add: plus_wf_def pkthdr_plus_new_def take_bit_eq_mask mask_numeral Let_def)

text \<open>\<open>getStdHeader\<close> reads the fixed-size layout whatever \<open>std\<close> says, unlike the other getters: once the
  header has been converted, it returns other bytes of the union. And the zeroed header counts as
  one whose VLAN is set, to 0.\<close>

lemma getStdHeader_after_conversion:
  "ph_caplen (getStdHeader (convertToStdHeader p)) = get_tv_usec p \<or> pp_std p \<noteq> 0"
  "ph_tv_usec (getStdHeader (convertToStdHeader p)) = 0 \<or> pp_std p \<noteq> 0"
proof -
  have z: "word_le 8 (ucast (w :: u32) :: u64) = word_le 4 w @ replicate 4 0" for w
  proof -
    have "to_le (m + n) v = to_le m v @ to_le n (v div 256 ^ m)" for m n v
      by (induction m arbitrary: v) (simp_all add: div_mult2_eq)
    from this [of 4 4 "unat w"]
    have "to_le 8 (unat w) = to_le 4 (unat w) @ to_le 4 (unat w div 256 ^ 4)" by simp
    moreover have "unat w div 256 ^ 4 = 0"
      using unsigned_less [of w, where ?'a = nat] by simp
    ultimately show ?thesis by (simp add: word_le_def)
  qed
  show "ph_caplen (getStdHeader (convertToStdHeader p)) = get_tv_usec p \<or> pp_std p \<noteq> 0"
    "ph_tv_usec (getStdHeader (convertToStdHeader p)) = 0 \<or> pp_std p \<noteq> 0"
    by (simp_all add: convertToStdHeader_def getStdHeader_def header_fix_size_def pkthdr_bytes_def
        get_tv_usec_def z le_word_word_le Let_def)
qed

lemma zeroed_header_has_vlan: "VLAN_IS_SET (pid_vlan (pp_pid pkthdr_plus_new))"
  by (simp add: VLAN_IS_SET_iff pkthdr_plus_new_def)

subsection \<open>pcap_block_store_header\<close>

record block_store_header =
  bh_title :: bytes
  bh_version :: byte
  bh_size :: u32
  bh_size_compress :: u32
  bh_count :: u32
  bh_dlink :: u16
  bh_sensor_id :: u16
  bh_ifname :: bytes
  bh_hm :: byte
  bh_checksum :: u32
  bh_counter :: u32
  bh_require_confirmation :: byte
  bh_time_s :: u32

datatype header_mode = hm_plus | hm_plus2

definition header_mode_val :: "header_mode \<Rightarrow> byte" where
  "header_mode_val hm = (case hm of hm_plus \<Rightarrow> 0 | hm_plus2 \<Rightarrow> 1)"

definition strncpy :: "bytes \<Rightarrow> nat \<Rightarrow> bytes" where
  "strncpy s n = (let t = takeWhile (\<lambda>b. b \<noteq> 0) s in take n (t @ replicate n 0))"

text \<open>\<open>conf\<close> is the external variable \<open>opt_pcap_queues_mirror_require_confirmation\<close>.\<close>

definition block_store_header_new :: "bool \<Rightarrow> block_store_header" where
  "block_store_header_new conf =
     \<lparr>bh_title = strncpy block_title 16, bh_version = 6, bh_size = 0, bh_size_compress = 0, bh_count = 0,
      bh_dlink = 0, bh_sensor_id = 0, bh_ifname = replicate 10 0, bh_hm = header_mode_val hm_plus, bh_checksum = 0,
      bh_counter = 0, bh_require_confirmation = (if conf then 1 else 0), bh_time_s = 0\<rparr>"

text \<open>The 64 bytes of the struct; \<open>pad\<close> are the three bytes after \<open>version\<close>, the one after \<open>hm\<close> and the
  three after \<open>require_confirmation\<close>.\<close>

definition block_store_header_bytes :: "bytes \<times> byte \<times> bytes \<Rightarrow> block_store_header \<Rightarrow> bytes" where
  "block_store_header_bytes = (\<lambda>(p1, p2, p3) h.
     bh_title h @ [bh_version h] @ p1 @ word_le 4 (bh_size h) @ word_le 4 (bh_size_compress h)
     @ word_le 4 (bh_count h) @ word_le 2 (bh_dlink h) @ word_le 2 (bh_sensor_id h) @ bh_ifname h
     @ [bh_hm h] @ [p2] @ word_le 4 (bh_checksum h) @ word_le 4 (bh_counter h)
     @ [bh_require_confirmation h] @ p3 @ word_le 4 (bh_time_s h))"

definition block_store_header_wf :: "bytes \<times> byte \<times> bytes \<Rightarrow> block_store_header \<Rightarrow> bool" where
  "block_store_header_wf = (\<lambda>(p1, p2, p3) h.
     length p1 = 3 \<and> length p3 = 3 \<and> length (bh_title h) = 16 \<and> length (bh_ifname h) = 10)"

lemma strncpy_title [simp]: "strncpy block_title 16 = block_title"
proof -
  have "takeWhile (\<lambda>b. b \<noteq> 0) block_title = block_title"
    by (simp add: block_title_def)
  then show ?thesis unfolding strncpy_def Let_def by (simp only:) simp
qed

lemma block_store_header_new_wf [simp]:
  "length p1 = 3 \<Longrightarrow> length p3 = 3 \<Longrightarrow> block_store_header_wf (p1, p2, p3) (block_store_header_new conf)"
  by (simp add: block_store_header_wf_def block_store_header_new_def)

lemma length_block_store_header_bytes:
  "block_store_header_wf pad h \<Longrightarrow> length (block_store_header_bytes pad h) = 64"
  by (cases pad) (simp add: block_store_header_wf_def block_store_header_bytes_def)

lemma block_store_header_fields:
  assumes "block_store_header_wf pad h"
  shows "take 16 (block_store_header_bytes pad h @ x) = bh_title h"
    and "le_word (take 4 (drop 20 (block_store_header_bytes pad h @ x))) = bh_size h"
    and "le_word (take 4 (drop 24 (block_store_header_bytes pad h @ x))) = bh_size_compress h"
    and "le_word (take 4 (drop 28 (block_store_header_bytes pad h @ x))) = bh_count h"
    and "le_word (take 1 (drop 46 (block_store_header_bytes pad h @ x))) = bh_hm h"
proof -
  obtain p1 p2 p3 where p: "pad = (p1, p2, p3)" by (cases pad)
  have l: "length p1 = 3" "length p3 = 3" "length (bh_title h) = 16" "length (bh_ifname h) = 10"
    using assms by (simp_all add: p block_store_header_wf_def)
  show "take 16 (block_store_header_bytes pad h @ x) = bh_title h"
    "le_word (take 4 (drop 20 (block_store_header_bytes pad h @ x))) = bh_size h"
    "le_word (take 4 (drop 24 (block_store_header_bytes pad h @ x))) = bh_size_compress h"
    "le_word (take 4 (drop 28 (block_store_header_bytes pad h @ x))) = bh_count h"
    by (simp_all add: block_store_header_bytes_def p l le_word_word_le)
  have "take 1 (drop 46 (block_store_header_bytes pad h @ x)) = [bh_hm h]"
    by (simp add: block_store_header_bytes_def p l)
  moreover have "le_word [b] = (b :: byte)" for b
    by (simp add: le_word_def)
  ultimately show "le_word (take 1 (drop 46 (block_store_header_bytes pad h @ x))) = bh_hm h" by simp
qed

subsection \<open>pcap_block_store\<close>

record block_store =
  bs_hm :: header_mode
  bs_offsets :: "u32 list"
  bs_block :: bytes
  bs_size :: u64
  bs_size_compress :: u64
  bs_count :: u64
  bs_offsets_size :: u64
  bs_restoreBuffer :: bytes
  bs_restoreBufferSize :: u64
  bs_idFileStore :: u32
  bs_filePosition :: u64
  bs_timestampMS :: u64
  bs_sync_packet_lock :: u32
  bs_is_voip :: "bytes option"

text \<open>The constructor; \<open>destroy\<close> and \<open>destroyRestoreBuffer\<close> are declared only, \<open>m\<close> is the memory before.\<close>

definition block_store_new ::
  "(block_store \<Rightarrow> block_store) \<Rightarrow> (block_store \<Rightarrow> block_store) \<Rightarrow> header_mode \<Rightarrow> block_store \<Rightarrow> block_store" where
  "block_store_new destroy destroyRestoreBuffer hm m =
     (let s = destroy (m\<lparr>bs_hm := hm, bs_offsets := [], bs_block := [], bs_is_voip := None\<rparr>);
          s = destroyRestoreBuffer (s\<lparr>bs_restoreBuffer := []\<rparr>)
      in s\<lparr>bs_idFileStore := 0, bs_filePosition := 0, bs_timestampMS := 0, bs_sync_packet_lock := 0\<rparr>)"

definition offset_at :: "block_store \<Rightarrow> u64 \<Rightarrow> u32 result" where
  "offset_at s i = (if unat i < length (bs_offsets s) then Inr (bs_offsets s ! unat i) else Inl BadAccess)"

definition header_size :: "header_mode \<Rightarrow> nat" where
  "header_size hm = (if hm = hm_plus2 then 58 else 34)"

record pkthdr_pcap =
  pk_header :: "nat option"
  pk_packet :: "nat option"

definition block_item :: "block_store \<Rightarrow> u64 \<Rightarrow> pkthdr_pcap result" where
  "block_item s indexItem =
     (if indexItem < bs_count s then
        rbind (offset_at s indexItem) (\<lambda>o32.
          Inr \<lparr>pk_header = Some (unat o32), pk_packet = Some (unat o32 + header_size (bs_hm s))\<rparr>)
      else Inr \<lparr>pk_header = None, pk_packet = None\<rparr>)"

definition get_header :: "block_store \<Rightarrow> u64 \<Rightarrow> nat result" where
  "get_header s indexItem = rbind (offset_at s indexItem) (\<lambda>o32. Inr (unat o32))"

definition get_packet :: "block_store \<Rightarrow> u64 \<Rightarrow> nat result" where
  "get_packet s indexItem = rbind (offset_at s indexItem) (\<lambda>o32. Inr (unat o32 + header_size (bs_hm s)))"

definition is_ignore :: "block_store \<Rightarrow> u64 \<Rightarrow> bool result" where
  "is_ignore s indexItem =
     rbind (offset_at s indexItem) (\<lambda>o32. rbind (rdw (unat o32 + 56) 1 (bs_block s)) (\<lambda>b :: byte. Inr (b \<noteq> 0)))"

definition getUseSize :: "block_store \<Rightarrow> u64" where
  "getUseSize s = (if bs_size_compress s \<noteq> 0 then bs_size_compress s else bs_size s)"

definition getSizeSaveBuffer :: "block_store \<Rightarrow> u64" where
  "getSizeSaveBuffer s = 64 + bs_count s * 4 + getUseSize s"

text \<open>The sum is a \<open>size_t\<close>; returning it as an \<open>int\<close> keeps its low 32 bits, signed.\<close>

definition getSizeSaveBufferFromRestoreBuffer :: "block_store \<Rightarrow> int result" where
  "getSizeSaveBufferFromRestoreBuffer s =
     (if 64 \<le> bs_restoreBufferSize s then
        rbind (rdw 28 4 (bs_restoreBuffer s)) (\<lambda>count :: u32.
        rbind (rdw 24 4 (bs_restoreBuffer s)) (\<lambda>size_compress :: u32.
        rbind (rdw 20 4 (bs_restoreBuffer s)) (\<lambda>size :: u32.
          Inr (sint (ucast (64 + ucast count * 4 + ucast (if size_compress \<noteq> 0 then size_compress else size) :: u64) :: u32)))))
      else Inr (- 1))"

function check_offsets_loop :: "u32 list \<Rightarrow> nat \<Rightarrow> nat \<Rightarrow> bool result" where
  "check_offsets_loop offs n i =
     (if i < n then
        (if i + 1 < length offs then
           (if offs ! (i + 1) \<le> offs ! i then Inr False else check_offsets_loop offs n (i + 1))
         else Inl BadAccess)
      else Inr True)"
  by auto
termination by (relation "measure (\<lambda>(offs, n, i). n - i)") auto

declare check_offsets_loop.simps [simp del]

definition check_offsets :: "block_store \<Rightarrow> bool result" where
  "check_offsets s =
     rbind (check_offsets_loop (bs_offsets s) (unat (bs_offsets_size s - 1)) 0) (\<lambda>ascend.
       if ascend then rbind (offset_at s (bs_offsets_size s - 1)) (\<lambda>o32. Inr (ucast o32 < bs_size s))
       else Inr False)"

fun check_headers_loop :: "bytes \<Rightarrow> u32 list \<Rightarrow> nat \<Rightarrow> bool result" where
  "check_headers_loop block offs 0 = Inr True"
| "check_headers_loop block [] (Suc n) = Inl BadAccess"
| "check_headers_loop block (off # offs) (Suc n) =
     rbind (rdw (unat off + 8) 4 block) (\<lambda>caplen :: u32.
       if 65535 < caplen then Inr False else
       rbind (rdw (unat off + 24) 2 block) (\<lambda>ip_offset :: u16.
         if 1000 < ip_offset then Inr False else check_headers_loop block offs n))"

definition check_headers :: "block_store \<Rightarrow> bool result" where
  "check_headers s = check_headers_loop (bs_block s) (bs_offsets s) (unat (bs_count s))"

definition lock_packet :: "block_store \<Rightarrow> block_store" where
  "lock_packet s = s\<lparr>bs_sync_packet_lock := bs_sync_packet_lock s + 1\<rparr>"

definition unlock_packet :: "block_store \<Rightarrow> block_store" where
  "unlock_packet s = s\<lparr>bs_sync_packet_lock := bs_sync_packet_lock s - 1\<rparr>"

definition enableDestroy :: "block_store \<Rightarrow> bool" where
  "enableDestroy s \<longleftrightarrow> bs_sync_packet_lock s = 0"

definition setVoipPacket :: "int \<Rightarrow> block_store \<Rightarrow> block_store result" where
  "setVoipPacket index s =
     (case bs_is_voip s of
        None \<Rightarrow> Inr s
      | Some v \<Rightarrow>
          if index < sint (ucast (bs_count s) :: u32) then
            (if 0 \<le> index \<and> nat index < length v then Inr (s\<lparr>bs_is_voip := Some (v[nat index := 1])\<rparr>)
             else Inl BadAccess)
          else Inr s)"

text \<open>\<open>getTimeMS(a, b)\<close> is the macro \<open>(a+b)\<close> here, on two 32-bit operands.\<close>

definition getTimeMS :: "u32 \<Rightarrow> u32 \<Rightarrow> u32" where
  "getTimeMS a b = a + b"

definition getLastPacketHeaderTimeMS :: "block_store \<Rightarrow> u64 result" where
  "getLastPacketHeaderTimeMS s =
     rbind (offset_at s (bs_count s - 1)) (\<lambda>o32.
     rbind (rdw (unat o32) 4 (bs_block s)) (\<lambda>sec.
     rbind (rdw (unat o32 + 4) 4 (bs_block s)) (\<lambda>usec. Inr (ucast (getTimeMS sec usec)))))"

subsection \<open>The sensor's format and the structs\<close>

text \<open>The 34 bytes of a \<open>pcap_pkthdr_plus\<close>; \<open>pad\<close> is the byte after \<open>pid.flags\<close>.\<close>

definition plus_bytes :: "byte \<Rightarrow> 'a pkthdr_plus_scheme \<Rightarrow> bytes" where
  "plus_bytes pad p = pp_union p @ word_le 2 (pp_header_ip_offset p) @ word_le 2 (pp_std p) @ word_le 2 (pp_dlink p)
     @ word_le 2 (pid_vlan (pp_pid p)) @ [pid_flags (pp_pid p), pad]"

definition std_header_of :: "block_rec \<Rightarrow> pcap_pkthdr" where
  "std_header_of = (\<lambda>(sec, usec, frame).
     \<lparr>ph_tv_sec = ucast sec, ph_tv_usec = ucast usec, ph_caplen = word_of_nat (length frame), ph_len = word_of_nat (length frame)\<rparr>)"

lemma length_plus_bytes: "plus_wf p \<Longrightarrow> length (plus_bytes pad p) = 34"
  by (simp add: plus_bytes_def plus_wf_def)

text \<open>The records and the block header of the reference encoder of Voip are the bytes of the structs
  as their own operations fill them.\<close>

lemma plus_record_is_struct:
  "plus_record (sec, usec, frame) = plus_bytes 0 (convertFromStdHeader (std_header_of (sec, usec, frame)) pkthdr_plus_new) @ frame"
proof -
  have z: "replicate 24 (0 :: byte) = replicate 4 0 @ replicate 4 0 @ replicate 4 0 @ replicate 4 0 @ replicate 8 0"
    "replicate 18 (0 :: byte) = replicate 8 0 @ replicate 2 0 @ replicate 2 0 @ replicate 2 0 @ replicate 2 0 @ [0, 0]"
    by (simp_all add: numeral_eq_Suc)
  show ?thesis
    by (simp add: plus_record_def plus_bytes_def convertFromStdHeader_def std_header_of_def pkthdr_plus_new_def
        put_at_def z Let_def)
qed

lemma block_header_is_struct:
  "block_header n m = block_store_header_bytes ([0, 0, 0], 0, [0, 0, 0])
     ((block_store_header_new False)\<lparr>bh_size := word_of_nat m, bh_count := word_of_nat n\<rparr>)"
  by (simp add: block_header_def block_store_header_bytes_def block_store_header_new_def header_mode_val_def)
    (simp add: numeral_eq_Suc)

subsection \<open>The offsets\<close>

lemma check_offsets_loop_eq:
  assumes "n < length offs" and "i \<le> n"
  shows "check_offsets_loop offs n i = Inr (\<forall>j. i \<le> j \<and> j < n \<longrightarrow> offs ! j < offs ! Suc j)"
  using assms
proof (induction offs n i rule: check_offsets_loop.induct)
  case (1 offs n i)
  show ?case
  proof (cases "i < n")
    case True
    have s: "(\<forall>j. i \<le> j \<and> j < n \<longrightarrow> offs ! j < offs ! Suc j)
      \<longleftrightarrow> offs ! i < offs ! Suc i \<and> (\<forall>j. i + 1 \<le> j \<and> j < n \<longrightarrow> offs ! j < offs ! Suc j)"
      using True by (auto simp: Suc_le_eq) (auto simp: le_less)
    have "check_offsets_loop offs n i
      = (if offs ! (i + 1) \<le> offs ! i then Inr False else check_offsets_loop offs n (i + 1))"
      using True 1(2) by (subst check_offsets_loop.simps) simp
    then show ?thesis
      using 1 True unfolding s by (cases "offs ! i < offs ! Suc i") (auto simp: not_le)
  next
    case False
    then show ?thesis by (subst check_offsets_loop.simps) auto
  qed
qed

text \<open>\<open>check_offsets\<close> is exact: for a store with at least one offset it answers whether the offsets
  ascend strictly and all lie below the size of the block.\<close>

lemma check_offsets_exact:
  assumes "bs_offsets_size s \<noteq> 0" and "unat (bs_offsets_size s) \<le> length (bs_offsets s)"
  defines "offs \<equiv> take (unat (bs_offsets_size s)) (bs_offsets s)"
  shows "check_offsets s = Inr (sorted_wrt (<) offs \<and> (\<forall>x \<in> set offs. unat x < unat (bs_size s)))"
proof -
  define n where "n = unat (bs_offsets_size s - 1)"
  have n: "Suc n = unat (bs_offsets_size s)"
    using assms(1) unat_gt_0 [of "bs_offsets_size s"] by (simp add: n_def unat_minus_one)
  have len: "length offs = Suc n" using assms(2) n by (simp add: offs_def)
  have nth: "bs_offsets s ! j = offs ! j" if "j < Suc n" for j
    using that n by (simp add: offs_def)
  have loop: "check_offsets_loop (bs_offsets s) n 0 = Inr (sorted_wrt (<) offs)"
  proof -
    have "check_offsets_loop (bs_offsets s) n 0 = Inr (\<forall>j < n. offs ! j < offs ! Suc j)"
      using check_offsets_loop_eq [of n "bs_offsets s" 0] assms(2) n nth by auto
    also have "(\<forall>j < n. offs ! j < offs ! Suc j) \<longleftrightarrow> sorted_wrt (<) offs"
      by (subst sorted_wrt_iff_nth_Suc_transp) (auto simp: len transp_on_def)
    finally show ?thesis .
  qed
  have last: "offset_at s (bs_offsets_size s - 1) = Inr (offs ! n)"
    using assms(2) n nth by (simp add: offset_at_def flip: n_def)
  have all: "(\<forall>x \<in> set offs. unat x < unat (bs_size s)) \<longleftrightarrow> unat (offs ! n) < unat (bs_size s)"
    if sorted: "sorted_wrt (<) offs"
  proof -
    have "x \<le> offs ! n" if x: "x \<in> set offs" for x
    proof -
      obtain j where j: "j < Suc n" "x = offs ! j" using x len by (metis in_set_conv_nth)
      then show ?thesis using sorted_wrt_nth_less [OF sorted, of j n] len by (cases "j = n") auto
    qed
    then show ?thesis using len nth_mem [of n offs] by (auto simp: word_le_nat_alt intro: le_less_trans)
  qed
  show ?thesis
    using loop last all by (simp add: check_offsets_def word_less_nat_alt flip: n_def)
qed

text \<open>So every item of a checked store lies in its block, and the items ascend; past the count there is
  none.\<close>

lemma block_item_in_block:
  assumes "check_offsets s = Inr True" and "bs_offsets_size s = bs_count s" and "unat (bs_count s) = length (bs_offsets s)"
  shows "block_item s i = (if i < bs_count s
      then Inr \<lparr>pk_header = Some (unat (bs_offsets s ! unat i)),
        pk_packet = Some (unat (bs_offsets s ! unat i) + header_size (bs_hm s))\<rparr>
      else Inr \<lparr>pk_header = None, pk_packet = None\<rparr>)"
    and "i < bs_count s \<Longrightarrow> get_header s i = Inr (unat (bs_offsets s ! unat i)) \<and> unat (bs_offsets s ! unat i) < unat (bs_size s)"
    and "i < j \<Longrightarrow> j < bs_count s \<Longrightarrow> bs_offsets s ! unat i < bs_offsets s ! unat j"
proof -
  have nz: "bs_offsets_size s \<noteq> 0" if "i < bs_count s" for i using that assms(2) by auto
  have len: "unat i < length (bs_offsets s)" if "i < bs_count s" for i
    using that assms(3) by (simp add: word_less_nat_alt)
  show "block_item s i = (if i < bs_count s
      then Inr \<lparr>pk_header = Some (unat (bs_offsets s ! unat i)),
        pk_packet = Some (unat (bs_offsets s ! unat i) + header_size (bs_hm s))\<rparr>
      else Inr \<lparr>pk_header = None, pk_packet = None\<rparr>)"
    using len by (simp add: block_item_def offset_at_def)
  have ok: "sorted_wrt (<) (bs_offsets s)" "\<forall>x \<in> set (bs_offsets s). unat x < unat (bs_size s)"
    if "i < bs_count s" for i
    using check_offsets_exact [OF nz [OF that]] assms by simp_all
  show "get_header s i = Inr (unat (bs_offsets s ! unat i)) \<and> unat (bs_offsets s ! unat i) < unat (bs_size s)"
    if "i < bs_count s"
    using that len [OF that] ok(2) [OF that] by (simp add: get_header_def offset_at_def)
  show "bs_offsets s ! unat i < bs_offsets s ! unat j" if "i < j" "j < bs_count s"
    using that len [of j] ok(1) [of j] by (simp add: word_less_nat_alt [of i j] sorted_wrt_nth_less)
qed

text \<open>With no offset, \<open>offsets_size - 1\<close> wraps around: the loop reads the array it does not have.\<close>

lemma check_offsets_empty: "bs_offsets_size s = 0 \<Longrightarrow> bs_offsets s = [] \<Longrightarrow> check_offsets s = Inl BadAccess"
  by (simp add: check_offsets_def check_offsets_loop.simps offset_at_def)

text \<open>A sorted array passes the looser check of the receiver, \<open>Reassembler::parse\<close>.\<close>

lemma check_block_offsets_sorted:
  "sorted_wrt (<) offs \<Longrightarrow> (\<forall>x \<in> set offs. l \<le> x) \<Longrightarrow> offs \<noteq> []
     \<Longrightarrow> check_block_offsets l offs = Inr (last offs)"
proof (induction l offs rule: check_block_offsets.induct)
  case (2 l off offs)
  then show ?case by (cases "offs = []") (auto simp: not_less less_imp_le)
qed simp

lemma block_packets_total: obtains ps where "block_packets ntop d offs hm = Inr ps"
  using block_packets_safe [of ntop d offs hm] by (auto elim: is_okE)

text \<open>A store of an uncompressed block: as many offsets as packets, at least one packet, and sizes that
  fit the 32-bit fields of the block header.\<close>

definition store_wf :: "block_store \<Rightarrow> bool" where
  "store_wf s \<longleftrightarrow> 0 < bs_count s \<and> unat (bs_count s) < 2 ^ 32 \<and> bs_offsets_size s = bs_count s
     \<and> length (bs_offsets s) = unat (bs_count s) \<and> bs_size_compress s = 0
     \<and> unat (bs_size s) < 2 ^ 32 \<and> length (bs_block s) = unat (bs_size s)"

text \<open>Bytes that carry such a store: a \<open>pcap_block_store_header\<close> with its title, sizes, count and kind of
  record headers (the offsets are those of the struct), then the offsets, then the block. The fields
  that the receiver does not look at may hold anything.\<close>

definition carries_store :: "block_store \<Rightarrow> bytes \<Rightarrow> bool" where
  "carries_store s b \<longleftrightarrow> (\<exists>h. length h = 64 \<and> b = h @ concat (map (word_le 4) (bs_offsets s)) @ bs_block s
     \<and> take 16 h = block_title \<and> le_word (take 4 (drop 20 h)) = (ucast (bs_size s) :: u32)
     \<and> le_word (take 4 (drop 24 h)) = (0 :: u32) \<and> le_word (take 4 (drop 28 h)) = (ucast (bs_count s) :: u32)
     \<and> le_word (take 1 (drop 46 h)) = header_mode_val (bs_hm s))"

lemma unat_ucast_32 [simp]: "unat (w :: u64) < 2 ^ 32 \<Longrightarrow> unat (ucast w :: u32) = unat w"
  by (simp add: unsigned_ucast_eq take_bit_nat_eq_self)

lemma getSizeSaveBuffer_exact:
  assumes "store_wf s"
  shows "unat (getSizeSaveBuffer s) = 64 + unat (bs_count s) * 4 + unat (bs_size s)"
  using assms by (simp add: getSizeSaveBuffer_def getUseSize_def store_wf_def unat_word_ariths)

lemma length_carries_store: "store_wf s \<Longrightarrow> carries_store s b \<Longrightarrow> length b = unat (getSizeSaveBuffer s)"
  by (auto simp: carries_store_def getSizeSaveBuffer_exact length_words store_wf_def)

lemma carries_store_fields:
  assumes "store_wf s" and "carries_store s b" and "64 \<le> n" and "n \<le> length b"
  shows "take 16 (take n b) = block_title" "le_word (take 4 (drop 20 (take n b))) = (ucast (bs_size s) :: u32)"
    "le_word (take 4 (drop 24 (take n b))) = (0 :: u32)" "le_word (take 4 (drop 28 (take n b))) = (ucast (bs_count s) :: u32)"
    "le_word (take 1 (drop 46 (take n b))) = header_mode_val (bs_hm s)"
    "take (unat (bs_count s) * 4) (drop 64 b) = concat (map (word_le 4) (bs_offsets s))"
    "take (unat (bs_size s)) (drop (64 + unat (bs_count s) * 4) b) = bs_block s"
  using assms by (auto simp: carries_store_def length_words store_wf_def drop_take min_def)

text \<open>A store that passes its own check has a non-empty block, and its offsets pass the receiver's.\<close>

lemma checked_store:
  assumes "store_wf s" and "check_offsets s = Inr True"
  shows "check_block_offsets 0 (bs_offsets s) = Inr (last (bs_offsets s))"
    "unat (last (bs_offsets s)) < unat (bs_size s)" "ucast (bs_count s) \<noteq> (0 :: u32)"
proof -
  note wf = assms(1)[unfolded store_wf_def]
  have nz: "bs_offsets_size s \<noteq> 0" using wf by auto
  have sorted: "sorted_wrt (<) (bs_offsets s)" and below: "\<forall>x \<in> set (bs_offsets s). unat x < unat (bs_size s)"
    using check_offsets_exact [OF nz] wf assms(2) by simp_all
  have ne: "bs_offsets s \<noteq> []" using wf by (auto simp: unat_eq_0)
  then show "unat (last (bs_offsets s)) < unat (bs_size s)" using below by simp
  show "check_block_offsets 0 (bs_offsets s) = Inr (last (bs_offsets s))"
    using check_block_offsets_sorted [OF sorted _ ne, of 0] by simp
  have "0 < unat (bs_count s)" using wf by (simp add: unat_gt_0 word_neq_0_conv)
  moreover have "unat (ucast (bs_count s) :: u32) = unat (bs_count s)" using wf by simp
  ultimately show "ucast (bs_count s) \<noteq> (0 :: u32)" by auto
qed

text \<open>C9: what the block store's own check accepts, the VoIP reassembler accepts. Take an uncompressed
  store with at least one packet, as many offsets as packets and a block of less than 4 GiB, whose
  \<open>check_offsets\<close> holds, and any bytes that carry it: a block header with its title, sizes, count and
  kind of records, the offsets and the block. They are \<open>getSizeSaveBuffer\<close> bytes, \<open>Reassembler::parse\<close>
  gets through all its checks to the packets of the block, and from every shorter beginning that
  holds the header it waits for exactly that many bytes.\<close>

theorem checked_block_accepted:
  assumes "store_wf s" and "check_offsets s = Inr True" and "carries_store s b"
  shows "length b = unat (getSizeSaveBuffer s)
    \<and> (\<exists>ps. parse_block snap ntop b r = Inr (ps, r)
        \<and> block_packets ntop (bs_block s) (bs_offsets s) (header_mode_val (bs_hm s)) = Inr ps)
    \<and> (\<forall>n. 64 \<le> n \<longrightarrow> n < length b \<longrightarrow> parse_block snap ntop (take n b) r
        = Inr ([], r\<lparr>ra_state := READ_BODY, ra_dataSize := unat (getSizeSaveBuffer s),
                    ra_buffer := ra_buffer r @ take n b\<rparr>))"
proof (intro conjI allI impI)
  note wf = assms(1)[unfolded store_wf_def] and c = checked_store [OF assms(1,2)]
  have sz: "ucast (bs_size s) \<noteq> (0 :: u32)" using c(2) wf by (metis less_nat_zero_code unat_ucast_32 unsigned_0)
  have nle: "\<not> ucast (bs_size s) \<le> last (bs_offsets s)" using c(2) wf by (simp add: word_le_nat_alt)
  have pos: "0 < unat (bs_size s)" using c(2) by simp
  note len = length_carries_store [OF assms(1,3)] getSizeSaveBuffer_exact [OF assms(1)]
  then show "length b = unat (getSizeSaveBuffer s)" by simp
  {
    note f = carries_store_fields [OF assms(1,3), of "length b"]
    obtain ps where ps: "block_packets ntop (bs_block s) (bs_offsets s) (header_mode_val (bs_hm s)) = Inr ps"
      by (rule block_packets_total)
    have "bs_block s \<noteq> []" using pos wf by auto
    then show "\<exists>ps. parse_block snap ntop b r = Inr (ps, r)
        \<and> block_packets ntop (bs_block s) (bs_offsets s) (header_mode_val (bs_hm s)) = Inr ps"
      using f len ps wf c sz nle pos by (simp add: parse_block_def words32_word_le Let_def)
  next
    fix n assume n: "64 \<le> n" "n < length b"
    note f = carries_store_fields [OF assms(1,3) n(1) less_imp_le [OF n(2)]]
    show "parse_block snap ntop (take n b) r
      = Inr ([], r\<lparr>ra_state := READ_BODY, ra_dataSize := unat (getSizeSaveBuffer s), ra_buffer := ra_buffer r @ take n b\<rparr>)"
      using f(1-4) n len wf c(3) sz pos by (simp add: parse_block_def Let_def)
  }
qed

definition demo_store :: block_store where
  "demo_store = (block_store_new id id hm_plus undefined)\<lparr>bs_offsets := [0, 34], bs_block := replicate 70 0, bs_size := 70,
     bs_size_compress := 0, bs_count := 2, bs_offsets_size := 2, bs_restoreBuffer := replicate 64 0, bs_restoreBufferSize := 64,
     bs_is_voip := Some [0, 0]\<rparr>"

lemma demo_store_sel [simp]:
  "bs_hm demo_store = hm_plus" "bs_offsets demo_store = [0, 34]" "bs_block demo_store = replicate 70 0"
  "bs_size demo_store = 70" "bs_size_compress demo_store = 0" "bs_count demo_store = 2"
  "bs_offsets_size demo_store = 2" "bs_restoreBuffer demo_store = replicate 64 0"
  "bs_restoreBufferSize demo_store = 64" "bs_is_voip demo_store = Some [0, 0]" "bs_sync_packet_lock demo_store = 0"
  by (simp_all add: demo_store_def block_store_new_def Let_def)

lemma demo_store_wf: "store_wf demo_store"
  by (simp add: store_wf_def)

lemma demo_store_checked: "check_offsets demo_store = Inr True"
  by (simp add: check_offsets_def check_offsets_loop.simps offset_at_def)

definition demo_saved :: bytes where
  "demo_saved = block_header 2 70 @ word_le 4 (0 :: u32) @ word_le 4 (34 :: u32) @ replicate 70 0"

theorem checked_block_accepted_witness:
  "\<exists>ps. parse_block demo_snap demo_ntop demo_saved (reassembler_new ''s'') = Inr (ps, reassembler_new ''s'')"
proof -
  have "carries_store demo_store demo_saved"
    unfolding carries_store_def
    using header_fields [where n = 2 and m = 70 and x = "[]", unfolded append_Nil2]
    by (intro exI [of _ "block_header 2 70"]) (simp add: demo_saved_def length_block_header header_mode_val_def)
  from checked_block_accepted [OF demo_store_wf demo_store_checked this] show ?thesis by blast
qed

subsection \<open>The size of a block that arrives in pieces\<close>

lemma unat_ucast_mult4:
  fixes c d :: u32
  shows "unat (64 + ucast c * 4 + ucast d :: u64) = 64 + unat c * 4 + unat d"
proof -
  have "unat c < 2 ^ 32" "unat d < 2 ^ 32"
    using unsigned_less [of c, where ?'a = nat] unsigned_less [of d, where ?'a = nat] by simp_all
  then show ?thesis by (simp add: unat_word_ariths)
qed

lemma sint_ucast_small:
  assumes "unat (w :: u64) < 2 ^ 31"
  shows "sint (ucast w :: u32) = int (unat w)"
proof -
  have "unat (ucast w :: u32) = unat w" using assms by (simp add: unsigned_ucast_eq take_bit_nat_eq_self)
  then have u: "uint (ucast w :: u32) = int (unat w)" by (metis uint_nat)
  have "sint (ucast w :: u32) = signed_take_bit 31 (int (unat w))"
    unfolding sint_uint u by simp
  also have "\<dots> = int (unat w)"
  proof (rule signed_take_bit_int_eq_self)
    have "int (unat w) < int (2 ^ 31)" using assms by (simp only: of_nat_less_iff)
    then show "int (unat w) < 2 ^ 31" by (simp only: of_nat_power of_nat_numeral)
  qed (rule order.trans [of _ 0]; simp)
  finally show ?thesis .
qed

text \<open>C29: the store and the reassembler wait for the same number of bytes, below 2 GiB. When
  \<open>Reassembler::parse\<close>, waiting for a header, finds the bytes received to be an incomplete block and
  goes over to reading its body, the size it waits for is what \<open>getSizeSaveBufferFromRestoreBuffer\<close>
  computes from the same bytes, provided that it is below \<open>2 ^ 31\<close>; with fewer than 64 bytes the store
  answers -1. Nothing is said of bytes that \<open>parse\<close> refuses, and for larger sizes the two differ: the
  store's answer is an \<open>int\<close>, which wraps (lemma \<open>restore_size_collides\<close>).\<close>

theorem restore_size_agrees:
  assumes "parse_block snap ntop b r = Inr (ps, r')" and "ra_state r = READ_HEADER" and "ra_state r' = READ_BODY"
    and "bs_restoreBuffer s = b" and "unat (bs_restoreBufferSize s) = length b" and "ra_dataSize r' < 2 ^ 31"
  shows "getSizeSaveBufferFromRestoreBuffer s = Inr (if 64 \<le> length b then int (ra_dataSize r') else - 1)"
proof (cases "64 \<le> length b")
  case True
  let ?f = "\<lambda>k. le_word (take 4 (drop k b)) :: u32"
  let ?d = "if ?f 24 \<noteq> 0 then ?f 24 else ?f 20"
  have size: "ra_dataSize r' = 64 + unat (?f 28) * 4 + unat ?d"
    using assms(1-3) True by (auto simp: parse_block_def Let_def rbind_eq_Inr split: if_splits)
  have read: "getSizeSaveBufferFromRestoreBuffer s = Inr (sint (ucast (64 + ucast (?f 28) * 4 + ucast ?d :: u64) :: u32))"
    using assms(4,5) True by (simp add: getSizeSaveBufferFromRestoreBuffer_def word_le_nat_alt)
  have "unat (64 + ucast (?f 28) * 4 + ucast ?d :: u64) < 2 ^ 31"
    using assms(6) size by (simp only: unat_ucast_mult4)
  then show ?thesis
    using read size True by (simp only: sint_ucast_small unat_ucast_mult4 if_True simp_thms)
next
  case False
  then show ?thesis
    using assms(5) by (simp add: getSizeSaveBufferFromRestoreBuffer_def word_le_nat_alt)
qed

definition demo_header :: bytes where
  "demo_header = block_header 2 70"

theorem restore_size_agrees_witness:
  "getSizeSaveBufferFromRestoreBuffer (demo_store\<lparr>bs_restoreBuffer := demo_header\<rparr>) = Inr 142"
proof -
  let ?r = "(reassembler_new ''s'')\<lparr>ra_state := READ_HEADER\<rparr>"
  let ?r' = "?r\<lparr>ra_state := READ_BODY, ra_dataSize := 142, ra_buffer := demo_header\<rparr>"
  note f = header_fields [where n = 2 and m = 70 and x = "[]", unfolded append_Nil2]
  have "parse_block demo_snap demo_ntop demo_header ?r = Inr ([], ?r')"
    using f by (simp add: parse_block_def demo_header_def reassembler_new_def Let_def)
  then show ?thesis
    using restore_size_agrees [of demo_snap demo_ntop demo_header ?r "[]" ?r' "demo_store\<lparr>bs_restoreBuffer := demo_header\<rparr>"]
    by (simp add: demo_header_def)
qed

text \<open>A header whose sizes exceed an \<open>int\<close> is not told apart from too few bytes: the sum \<open>2 ^ 32 - 1\<close> is
  returned as -1.\<close>

lemma restore_size_collides:
  assumes "bs_restoreBuffer s = block_header 2 (2 ^ 32 - 73)" and "bs_restoreBufferSize s = 64"
  shows "getSizeSaveBufferFromRestoreBuffer s = Inr (- 1)"
proof -
  note f = header_fields [where n = 2 and m = "2 ^ 32 - 73" and x = "[]", unfolded append_Nil2]
  show ?thesis
    using assms f by (simp add: getSizeSaveBufferFromRestoreBuffer_def)
qed

subsection \<open>The lock count of the packets\<close>

datatype sync_op = Lock | Unlock

fun sync_run :: "sync_op list \<Rightarrow> block_store \<Rightarrow> block_store" where
  "sync_run [] s = s"
| "sync_run (Lock # ops) s = sync_run ops (lock_packet s)"
| "sync_run (Unlock # ops) s = sync_run ops (unlock_packet s)"

lemma sync_run_lock:
  "bs_sync_packet_lock (sync_run ops s)
    = bs_sync_packet_lock s + of_nat (count_list ops Lock) - of_nat (count_list ops Unlock)"
  by (induction ops s rule: sync_run.induct) (simp_all add: lock_packet_def unlock_packet_def)

text \<open>A block is destroyed only when every packet has been released: after any interleaving of
  \<open>lock_packet\<close> and \<open>unlock_packet\<close> on a fresh store with fewer than \<open>2 ^ 32\<close> locks outstanding,
  \<open>enableDestroy\<close> holds exactly when there were as many releases as locks.\<close>

lemma destroy_when_released:
  assumes "bs_sync_packet_lock s = 0" and "count_list ops Unlock \<le> count_list ops Lock"
    and "count_list ops Lock - count_list ops Unlock < 2 ^ 32"
  shows "enableDestroy (sync_run ops s) \<longleftrightarrow> count_list ops Lock = count_list ops Unlock"
proof -
  let ?n = "count_list ops Lock - count_list ops Unlock"
  have "bs_sync_packet_lock (sync_run ops s) = of_nat ?n"
    using assms(1,2) by (simp add: sync_run_lock of_nat_diff)
  moreover have "of_nat ?n = (0 :: u32) \<longleftrightarrow> ?n = 0"
    using assms(3) by (subst word_of_nat_eq_0_iff) (auto dest!: dvd_imp_le)
  ultimately show ?thesis using assms(2) by (auto simp: enableDestroy_def)
qed

subsection \<open>Reading the headers of a block\<close>

definition header_plausible :: "bytes \<Rightarrow> u32 \<Rightarrow> bool" where
  "header_plausible block x \<longleftrightarrow> (le_word (take 4 (drop (unat x + 8) block)) :: u32) \<le> 65535
     \<and> (le_word (take 2 (drop (unat x + 24) block)) :: u16) \<le> 1000"

lemma check_headers_loop_Cons:
  "unat x + 34 \<le> length block \<Longrightarrow> check_headers_loop block (x # offs) (Suc n)
     = (if header_plausible block x then check_headers_loop block offs n else Inr False)"
  by (simp add: header_plausible_def flip: not_le)

lemma check_headers_loop_reads:
  assumes "\<forall>x \<in> set offs. unat x + 34 \<le> length block" and "n \<le> length offs"
  shows "check_headers_loop block offs n = Inr (\<forall>x \<in> set (take n offs). header_plausible block x)"
  using assms
proof (induction offs arbitrary: n)
  case (Cons x offs)
  then show ?case by (cases n) (simp_all add: check_headers_loop_Cons del: check_headers_loop.simps(3))
qed simp

text \<open>\<open>check_offsets\<close> does not see to it that a header fits behind the last offset: a store it accepts
  whose last offset is the last byte of the block is read out of bounds by \<open>check_headers\<close>.\<close>

lemma check_headers_overread:
  "let s = demo_store\<lparr>bs_offsets := [0, 69]\<rparr> in check_offsets s = Inr True \<and> check_headers s = Inl BadAccess"
proof -
  have sel: "bs_block (demo_store\<lparr>bs_offsets := [0, 69]\<rparr>) = replicate 70 0"
    "bs_offsets (demo_store\<lparr>bs_offsets := [0, 69]\<rparr>) = [0, 69]" "bs_count (demo_store\<lparr>bs_offsets := [0, 69]\<rparr>) = 2"
    by simp_all
  have p: "header_plausible (replicate 70 0) 0"
    by (simp add: header_plausible_def)
  have "check_headers_loop (replicate 70 0) [0, 69] (Suc (Suc 0)) = Inl BadAccess"
    by (subst check_headers_loop_Cons) (simp_all add: p)
  moreover have "unat (2 :: u64) = Suc (Suc 0)" by (simp only: flip: numeral_2_eq_2) simp
  ultimately have "check_headers_loop (replicate 70 0) [0, 69] (unat (2 :: u64)) = Inl BadAccess" by (simp only:)
  then have "check_headers (demo_store\<lparr>bs_offsets := [0, 69]\<rparr>) = Inl BadAccess"
    using sel by (simp only: check_headers_def)
  moreover have "check_offsets (demo_store\<lparr>bs_offsets := [0, 69]\<rparr>) = Inr True"
    by (simp add: check_offsets_def check_offsets_loop.simps offset_at_def)
  ultimately show ?thesis by (simp only: Let_def)
qed

text \<open>The time of the last packet is the sum of its seconds and microseconds, not the milliseconds of
  \<open>get_time_ms\<close>.\<close>

lemma last_packet_time:
  assumes "offset_at s (bs_count s - 1) = Inr x" and "unat x + 34 \<le> length (bs_block s)"
    and "take 34 (drop (unat x) (bs_block s)) = plus_bytes pad p" and "plus_wf p" and "pp_std p = 0"
  shows "getLastPacketHeaderTimeMS s = Inr (ucast (get_tv_sec p + get_tv_usec p))"
proof -
  have r: "take 4 (drop (unat x + k) (bs_block s)) = take 4 (drop k (pp_union p))" if "k + 4 \<le> 24" for k
  proof -
    have "take 4 (drop (unat x + k) (bs_block s)) = take 4 (drop k (take 34 (drop (unat x) (bs_block s))))"
      using that by (simp add: take_drop add.commute)
    then show ?thesis using that assms(3,4) by (simp add: plus_bytes_def plus_wf_def)
  qed
  show ?thesis
    using assms r [of 0] r [of 4]
    by (simp add: getLastPacketHeaderTimeMS_def getTimeMS_def get_tv_sec_def get_tv_usec_def header_fix_size_def Let_def)
qed

lemma setVoipPacket_negative:
  assumes "bs_is_voip s = Some v" and "index < 0" and "unat (bs_count s) < 2 ^ 31"
  shows "setVoipPacket index s = Inl BadAccess"
  using assms by (simp add: setVoipPacket_def sint_ucast_small nat_less_iff del: of_nat_unat)

lemma setVoipPacket_in_range:
  assumes "bs_is_voip s = Some v" and "length v = unat (bs_count s)" and "unat (bs_count s) < 2 ^ 31" and "0 \<le> index"
  shows "setVoipPacket index s = Inr (if index < int (length v) then s\<lparr>bs_is_voip := Some (v[nat index := 1])\<rparr> else s)"
  using assms by (simp add: setVoipPacket_def sint_ucast_small nat_less_iff del: of_nat_unat)

end
