(* ===== verification/Scgi_Parser.thy ===== *)
theory Scgi_Parser
  imports Prelude
begin

section \<open>SCGI framing (scgi/message.h, scgi/parser.cpp)\<close>

text \<open>
  A message on an SCGI connection is an 8-byte header, the marker \<open>0xFB\<close> and the size, both 32-bit
  little-endian, followed by the JSON text. \<open>Parser::process\<close> gets what one \<open>read\<close> of the socket
  returned. Its loop \<open>while (i < size)\<close> is a function of the bytes not yet consumed. The
  dispatcher is the argument \<open>onMessage\<close>, which may throw and changes a state of its own; the calls of
  \<open>connection->close()\<close> are counted in \<open>sp_closed\<close>. A copy outside \<open>msgbuf_\<close> is a bad access.
\<close>

type_synonym 'd on_message = "bytes \<Rightarrow> 'd \<Rightarrow> bool result \<times> 'd"

definition kMARKER_VALUE :: u32 where
  "kMARKER_VALUE = 0x000000FB"

definition kMAX_MSG_SIZE :: u32 where
  "kMAX_MSG_SIZE = 1 * 1024 * 1024"

text \<open>The constructor of \<open>Message\<close> puts the header in front of the data.\<close>

definition scgi_header :: "nat \<Rightarrow> bytes" where
  "scgi_header sz = word_le 4 kMARKER_VALUE @ word_le 4 (word_of_nat sz :: u32)"

definition scgi_message :: "bytes \<Rightarrow> bytes" where
  "scgi_message d = scgi_header (length d) @ d"

record scgi_parser =
  sp_header :: bytes
  sp_msgbuf :: bytes
  sp_failed :: bool
  sp_skipmsg :: bool
  sp_msgsize :: nat
  sp_nread :: nat
  sp_closed :: nat

definition scgi_parser_new :: scgi_parser where
  "scgi_parser_new = \<lparr>sp_header = scgi_header 0, sp_msgbuf = [], sp_failed = False, sp_skipmsg = False,
     sp_msgsize = 0, sp_nread = 0, sp_closed = 0\<rparr>"

definition hdr_marker :: "scgi_parser \<Rightarrow> u32" where
  "hdr_marker p = le_word (take 4 (sp_header p))"

definition hdr_size :: "scgi_parser \<Rightarrow> u32" where
  "hdr_size p = le_word (take 4 (drop 4 (sp_header p)))"

definition hdr_valid :: "scgi_parser \<Rightarrow> bool" where
  "hdr_valid p \<longleftrightarrow> hdr_marker p = kMARKER_VALUE"

definition hdr_overflow :: "scgi_parser \<Rightarrow> bool" where
  "hdr_overflow p \<longleftrightarrow> kMAX_MSG_SIZE < hdr_size p"

definition scgi_fail :: "scgi_parser \<Rightarrow> scgi_parser" where
  "scgi_fail p = p\<lparr>sp_closed := sp_closed p + 1, sp_failed := True\<rparr>"

text \<open>The check of a complete header: refuse it, start over after a size of zero, or go on.\<close>

datatype hdr_check = HdrBad | HdrZero scgi_parser | HdrGo scgi_parser

definition check_header :: "scgi_parser \<Rightarrow> hdr_check" where
  "check_header p =
     (if sp_nread p \<noteq> 8 then HdrGo p
      else if \<not> hdr_valid p then HdrBad
      else if hdr_overflow p then HdrGo (p\<lparr>sp_skipmsg := True\<rparr>)
      else (let p = p\<lparr>sp_skipmsg := False, sp_msgsize := 0, sp_msgbuf := take (unat (hdr_size p)) (sp_msgbuf p)
                       @ replicate (unat (hdr_size p) - length (sp_msgbuf p)) 0\<rparr>
            in if hdr_size p = 0 then HdrZero (p\<lparr>sp_nread := 0\<rparr>) else HdrGo p))"

text \<open>How many bytes of the input the current message takes. Were more bytes counted than the message
  has, the \<open>size_t\<close> difference would wrap to a number above every buffer, that is, take everything.\<close>

definition body_needs :: "scgi_parser \<Rightarrow> nat \<Rightarrow> nat" where
  "body_needs p avail =
     (if sp_msgsize p \<le> unat (hdr_size p) then min (unat (hdr_size p) - sp_msgsize p) avail else avail)"

text \<open>One round of the loop in the body of a message: the result says whether to go on.\<close>

definition scgi_body :: "'d on_message \<Rightarrow> bytes \<Rightarrow> scgi_parser \<Rightarrow> 'd \<Rightarrow> (nat \<times> bool \<times> scgi_parser \<times> 'd) result" where
  "scgi_body onMessage rest p d =
     (let needs = body_needs p (length rest) in
      rbind (if sp_skipmsg p then Inr p
             else if sp_msgsize p + needs \<le> length (sp_msgbuf p)
             then Inr (p\<lparr>sp_msgbuf := put_at (sp_msgsize p) (take needs rest) (sp_msgbuf p)\<rparr>)
             else Inl BadAccess) (\<lambda>p.
      let p = p\<lparr>sp_msgsize := sp_msgsize p + needs\<rparr> in
      if sp_msgsize p = unat (hdr_size p) then
        (if \<not> sp_skipmsg p then
           (case onMessage (sp_msgbuf p) d of
              (r, d) \<Rightarrow>
                (let ret = (case r of Inl _ \<Rightarrow> False | Inr b \<Rightarrow> b);
                     p = p\<lparr>sp_msgbuf := []\<rparr>
                 in if \<not> ret then Inr (needs, False, scgi_fail p, d)
                    else Inr (needs, True, p\<lparr>sp_msgsize := 0, sp_nread := 0\<rparr>, d)))
         else Inr (needs, True, p\<lparr>sp_skipmsg := False, sp_msgsize := 0, sp_nread := 0\<rparr>, d))
      else Inr (needs, True, p\<lparr>sp_nread := sp_nread p + needs\<rparr>, d)))"

definition put_header_byte :: "byte \<Rightarrow> scgi_parser \<Rightarrow> scgi_parser" where
  "put_header_byte b p = p\<lparr>sp_header := (sp_header p)[sp_nread p := b], sp_nread := sp_nread p + 1\<rparr>"

lemma scgi_body_progress:
  assumes "scgi_body onMessage rest p d = Inr (needs, True, p', d')" and "rest \<noteq> []"
  shows "0 < needs \<or> sp_nread p' = 0"
proof (cases "sp_msgsize p = unat (hdr_size p)")
  case True
  then have "hdr_size (p\<lparr>sp_msgbuf := b, sp_msgsize := n\<rparr>) = hdr_size p" for b n by (simp add: hdr_size_def)
  with True show ?thesis using assms(1)
    by (auto simp: scgi_body_def Let_def rbind_eq_Inr body_needs_def hdr_size_def split: if_splits prod.splits sum.splits)
next
  case False
  then have "0 < body_needs p (length rest)" using assms(2) by (auto simp: body_needs_def)
  then show ?thesis using assms(1)
    by (auto simp: scgi_body_def Let_def rbind_eq_Inr split: if_splits prod.splits sum.splits)
qed

text \<open>The loop of \<open>process\<close> over the bytes not yet consumed.\<close>

function scgi_loop ::
  "'d on_message \<Rightarrow> bytes \<Rightarrow> scgi_parser \<Rightarrow> 'd \<Rightarrow> (bool \<times> scgi_parser \<times> 'd) result" where
  "scgi_loop onMessage rest p d =
     (case rest of
        [] \<Rightarrow> Inr (True, p, d)
      | b # bs \<Rightarrow>
          if sp_nread p < 8 then scgi_loop onMessage bs (put_header_byte b p) d
          else (case check_header p of
              HdrBad \<Rightarrow> Inr (False, scgi_fail p, d)
            | HdrZero p' \<Rightarrow> scgi_loop onMessage rest p' d
            | HdrGo p' \<Rightarrow>
                (case scgi_body onMessage rest p' d of
                   Inl e \<Rightarrow> Inl e
                 | Inr (needs, go, p'', d') \<Rightarrow>
                     if go then scgi_loop onMessage (drop needs rest) p'' d' else Inr (False, p'', d'))))"
  by pat_completeness auto

lemma check_header_zero: "check_header p = HdrZero p' \<Longrightarrow> sp_nread p' = 0"
  by (auto simp: check_header_def Let_def split: if_splits)

termination scgi_loop
proof (relation "measure (\<lambda>(_, rest, p, _). 2 * length rest + (if 8 \<le> sp_nread p then 1 else 0))", goal_cases)
  case (4 onMessage rest p d b bs p' needs r go p'' d' x)
  then show ?case by (cases go) (use scgi_body_progress in fastforce)+
qed (auto simp: put_header_byte_def dest: check_header_zero)

declare scgi_loop.simps [simp del]

definition scgi_process ::
  "'d on_message \<Rightarrow> bytes \<Rightarrow> scgi_parser \<Rightarrow> 'd \<Rightarrow> (bool \<times> scgi_parser \<times> 'd) result" where
  "scgi_process onMessage buf p d =
     (if sp_failed p then Inr (False, p, d) else scgi_loop onMessage buf p d)"

text \<open>\<open>Parser::read\<close>: the handler reads on as long as \<open>process\<close> returns true; the state of the
  conversation is the last answer of \<open>process\<close>.\<close>

definition scgi_feed ::
  "'d on_message \<Rightarrow> bytes \<Rightarrow> (bool \<times> scgi_parser \<times> 'd) result \<Rightarrow> (bool \<times> scgi_parser \<times> 'd) result" where
  "scgi_feed onMessage buf s =
     rbind s (\<lambda>(go, p, d). if go then scgi_process onMessage buf p d else Inr (go, p, d))"


subsection \<open>The cuts of the stream do not matter\<close>

lemma hdr_size_update [simp]:
  "hdr_size (p\<lparr>sp_msgbuf := b\<rparr>) = hdr_size p" "hdr_size (p\<lparr>sp_msgsize := n\<rparr>) = hdr_size p"
  "hdr_size (p\<lparr>sp_nread := m\<rparr>) = hdr_size p" "hdr_size (p\<lparr>sp_skipmsg := c\<rparr>) = hdr_size p"
  by (simp_all add: hdr_size_def)

lemma put_at_put_at:
  assumes "m + length xs + length zs \<le> length b"
  shows "put_at (m + length xs) zs (put_at m xs b) = put_at m (xs @ zs) b"
  using assms by (simp add: put_at_def drop_drop add.commute add.left_commute)

lemma scgi_body_prefix:
  assumes "body_needs p (length (xs @ ys)) \<le> length xs"
  shows "scgi_body f (xs @ ys) p d = scgi_body f xs p d"
proof -
  have "body_needs p (length (xs @ ys)) = body_needs p (length xs)"
    using assms by (auto simp: body_needs_def split: if_splits)
  then show ?thesis using assms by (simp add: scgi_body_def Let_def)
qed

lemma scgi_body_partial:
  assumes "length xs < body_needs p (length (xs @ ys))"
  shows "scgi_body f xs p d =
    rbind (if sp_skipmsg p then Inr p
           else if sp_msgsize p + length xs \<le> length (sp_msgbuf p)
           then Inr (p\<lparr>sp_msgbuf := put_at (sp_msgsize p) xs (sp_msgbuf p)\<rparr>)
           else Inl BadAccess)
      (\<lambda>p. Inr (length xs, True, p\<lparr>sp_msgsize := sp_msgsize p + length xs, sp_nread := sp_nread p + length xs\<rparr>, d))"
proof -
  have n: "body_needs p (length xs) = length xs" and "sp_msgsize p + length xs \<noteq> unat (hdr_size p)"
    using assms by (auto simp: body_needs_def split: if_splits)
  then show ?thesis by (simp add: scgi_body_def Let_def)
qed

text \<open>A failed parser is dead, so the count of bytes it stopped at is nothing one can observe.\<close>

definition scgi_quiet :: "scgi_parser \<Rightarrow> scgi_parser" where
  "scgi_quiet p = (if sp_failed p then p\<lparr>sp_nread := 0\<rparr> else p)"

definition body_view :: "(nat \<times> bool \<times> scgi_parser \<times> 'd) result \<Rightarrow> (nat \<times> bool \<times> scgi_parser \<times> 'd) result" where
  "body_view r = rbind r (\<lambda>(n, go, p, d). Inr (n, go, scgi_quiet p, d))"

lemma scgi_quiet_simps [simp]:
  "\<not> sp_failed p \<Longrightarrow> scgi_quiet p = p"
  "scgi_quiet (scgi_fail (p\<lparr>sp_nread := n\<rparr>)) = scgi_quiet (scgi_fail p)"
  "sp_failed (scgi_quiet p) = sp_failed p" "sp_failed (scgi_fail p)"
  by (simp_all add: scgi_quiet_def scgi_fail_def)

lemma scgi_body_split:
  assumes "length xs < body_needs p (length (xs @ ys))" and "\<not> sp_failed p"
  shows "body_view (scgi_body f (xs @ ys) p d) =
    body_view (rbind (scgi_body f xs p d) (\<lambda>(n, go, p1, d1).
      rbind (scgi_body f ys p1 d1) (\<lambda>(n', r). Inr (length xs + n', r))))"
proof -
  let ?k = "body_needs p (length (xs @ ys))"
  let ?p1 = "\<lambda>b. p\<lparr>sp_msgbuf := b, sp_msgsize := sp_msgsize p + length xs, sp_nread := sp_nread p + length xs\<rparr>"
  have k: "body_needs (?p1 b) (length ys) = ?k - length xs" for b
    using assms(1) by (auto simp: body_needs_def split: if_splits)
  have k': "body_needs (p\<lparr>sp_msgsize := sp_msgsize p + length xs, sp_nread := sp_nread p + length xs\<rparr>) (length ys) = ?k - length xs"
    using k [of "sp_msgbuf p"] by simp
  have len: "sp_msgsize p + length xs + (?k - length xs) = sp_msgsize p + ?k" using assms(1) by simp
  have tk: "take ?k (xs @ ys) = xs @ take (?k - length xs) ys" using assms(1) by simp
  have kle: "?k - length xs \<le> length ys" using assms(1) by (auto simp: body_needs_def split: if_splits)
  have fail: "scgi_quiet (scgi_fail (p\<lparr>sp_nread := n, sp_msgsize := m, sp_msgbuf := b\<rparr>))
      = scgi_quiet (scgi_fail (p\<lparr>sp_msgsize := m, sp_msgbuf := b\<rparr>))" for n m b
    by (simp add: scgi_quiet_def scgi_fail_def)
  consider "sp_skipmsg p" | "\<not> sp_skipmsg p" "sp_msgsize p + ?k \<le> length (sp_msgbuf p)"
    | "\<not> sp_skipmsg p" "length (sp_msgbuf p) < sp_msgsize p + ?k" by linarith
  then show ?thesis
  proof cases
    case 1
    then show ?thesis
      unfolding scgi_body_partial [OF assms(1)]
      by (simp add: scgi_body_def k' len Let_def) (use assms in \<open>simp add: add.assoc\<close>)
  next
    case 2
    then have "sp_msgsize p + length xs \<le> length (sp_msgbuf p)" using assms(1) by linarith
    moreover have "put_at (sp_msgsize p + length xs) (take (?k - length xs) ys) (put_at (sp_msgsize p) xs (sp_msgbuf p))
        = put_at (sp_msgsize p) (take ?k (xs @ ys)) (sp_msgbuf p)"
      unfolding tk using 2(2) assms(1) kle by (intro put_at_put_at) simp
    ultimately show ?thesis
      using 2
      unfolding scgi_body_partial [OF assms(1)] scgi_body_def [of f "xs @ ys"] scgi_body_def [of f ys]
      by (cases "f (put_at (sp_msgsize p) (take ?k (xs @ ys)) (sp_msgbuf p)) d")
        (use assms in \<open>simp add: k len Let_def body_view_def fail add.assoc\<close>)
  next
    case 3
    then show ?thesis
      unfolding scgi_body_partial [OF assms(1)]
      by (simp add: scgi_body_def k len Let_def)
  qed
qed

definition scgi_obs :: "(bool \<times> scgi_parser \<times> 'd) result \<Rightarrow> (bool \<times> scgi_parser \<times> 'd) result" where
  "scgi_obs r = rbind r (\<lambda>(go, p, d). Inr (go, scgi_quiet p, d))"

lemma scgi_body_failed:
  "scgi_body f rest p d = Inr (n, go, p', d') \<Longrightarrow> \<not> sp_failed p \<Longrightarrow> sp_failed p' = (\<not> go)"
  by (auto simp: scgi_body_def Let_def rbind_eq_Inr scgi_fail_def split: if_splits prod.splits sum.splits)

lemma check_header_go:
  assumes "check_header p = HdrGo p'"
  shows "sp_nread p' = sp_nread p" "sp_failed p' = sp_failed p"
  using assms by (auto simp: check_header_def Let_def split: if_splits)

lemma check_header_zero_failed: "check_header p = HdrZero p' \<Longrightarrow> sp_failed p' = sp_failed p"
  by (auto simp: check_header_def Let_def split: if_splits)

text \<open>The loop, one case of its body at a time.\<close>

lemma scgi_loop_Nil [simp]: "scgi_loop f [] p d = Inr (True, p, d)"
  by (simp add: scgi_loop.simps)

lemma scgi_loop_header: "sp_nread p < 8 \<Longrightarrow> scgi_loop f (b # bs) p d = scgi_loop f bs (put_header_byte b p) d"
  by (simp add: scgi_loop.simps [of f "b # bs"])

lemma scgi_loop_bad:
  "xs \<noteq> [] \<Longrightarrow> \<not> sp_nread p < 8 \<Longrightarrow> check_header p = HdrBad \<Longrightarrow> scgi_loop f xs p d = Inr (False, scgi_fail p, d)"
  by (subst scgi_loop.simps) (simp split: list.splits)

lemma scgi_loop_zero:
  "xs \<noteq> [] \<Longrightarrow> \<not> sp_nread p < 8 \<Longrightarrow> check_header p = HdrZero q \<Longrightarrow> scgi_loop f xs p d = scgi_loop f xs q d"
  by (subst scgi_loop.simps) (simp split: list.splits)

lemma scgi_loop_go:
  "xs \<noteq> [] \<Longrightarrow> \<not> sp_nread p < 8 \<Longrightarrow> check_header p = HdrGo q \<Longrightarrow>
    scgi_loop f xs p d = rbind (scgi_body f xs q d) (\<lambda>(n, go, p1, d1).
      if go then scgi_loop f (drop n xs) p1 d1 else Inr (False, p1, d1))"
  by (subst scgi_loop.simps) (simp add: rbind_def split: list.splits)

lemma scgi_loop_failed:
  "scgi_loop f rest p d = Inr (go, p', d') \<Longrightarrow> \<not> sp_failed p \<Longrightarrow> sp_failed p' = (\<not> go)"
proof (induction f rest p d rule: scgi_loop.induct)
  case (1 f rest p d)
  show ?case
  proof (cases rest)
    case Nil
    then show ?thesis using 1(4,5) by (auto simp: scgi_loop.simps)
  next
    case (Cons b bs)
    show ?thesis
    proof (cases "sp_nread p < 8")
      case True
      then show ?thesis using 1(1) [OF Cons] 1(4,5) Cons
        by (simp add: scgi_loop.simps [of f "b # bs"] put_header_byte_def)
    next
      case False
      show ?thesis
      proof (cases "check_header p")
        case HdrBad
        then show ?thesis using 1(4,5) Cons False by (auto simp: scgi_loop.simps [of f "b # bs"])
      next
        case (HdrZero q)
        then show ?thesis using 1(2) [OF Cons False HdrZero] 1(4,5) Cons False check_header_zero_failed [OF HdrZero]
          by (simp add: scgi_loop.simps [of f "b # bs" p])
      next
        case (HdrGo q)
        have ne: "rest \<noteq> []" using Cons by simp
        note step = scgi_loop_go [OF ne False HdrGo, of f d]
        obtain n go1 p1 d1 where body: "scgi_body f rest q d = Inr (n, go1, p1, d1)"
          using 1(4) step by (auto simp: rbind_eq_Inr)
        have f1: "sp_failed p1 = (\<not> go1)"
          using scgi_body_failed [OF body] check_header_go(2) [OF HdrGo] 1(5) by simp
        show ?thesis
        proof (cases go1)
          case True
          then show ?thesis
            using 1(3) [OF Cons \<open>\<not> sp_nread p < 8\<close> HdrGo body refl refl refl True] 1(4) step body f1 by simp
        next
          case False
          then show ?thesis using 1(4) step body f1 by simp
        qed
      qed
    qed
  qed
qed

definition scgi_cont ::
  "'d on_message \<Rightarrow> bytes \<Rightarrow> bool \<times> scgi_parser \<times> 'd \<Rightarrow> (bool \<times> scgi_parser \<times> 'd) result" where
  "scgi_cont f ys = (\<lambda>(go, p, d). if go then scgi_loop f ys p d else Inr (go, p, d))"

lemma scgi_cont_simps [simp]:
  "scgi_cont f ys (True, p, d) = scgi_loop f ys p d" "scgi_cont f ys (False, p, d) = Inr (False, p, d)"
  by (simp_all add: scgi_cont_def)

lemma scgi_obs_Inr [simp]: "scgi_obs (Inr (go, p, d)) = Inr (go, scgi_quiet p, d)" "scgi_obs (Inl e) = Inl e"
  by (simp_all add: scgi_obs_def)

lemma scgi_quiet_closed: "sp_closed (scgi_quiet p) = sp_closed p"
  by (simp add: scgi_quiet_def)

lemma scgi_obs_eq_Inr: "scgi_obs r = Inr (go, q, d) \<longleftrightarrow> (\<exists>p. r = Inr (go, p, d) \<and> scgi_quiet p = q)"
  by (cases r) (auto simp: scgi_obs_def)

text \<open>A piece that ends inside a message body, then the rest.\<close>

lemma scgi_loop_cut_body:
  assumes short: "length xs < body_needs q (length (xs @ ys))" and alive: "\<not> sp_failed q"
    and n8: "8 \<le> sp_nread q" and "xs \<noteq> []" and "ys \<noteq> []"
  shows "scgi_obs (rbind (scgi_body f (xs @ ys) q d) (\<lambda>(n, go, p1, d1).
      if go then scgi_loop f (drop n (xs @ ys)) p1 d1 else Inr (False, p1, d1)))
    = scgi_obs (rbind (scgi_body f xs q d) (\<lambda>(n, go, p1, d1). scgi_loop f ys p1 d1))"
proof (cases "scgi_body f xs q d")
  case (Inl e)
  then have "body_view (scgi_body f (xs @ ys) q d) = Inl e"
    using scgi_body_split [OF short alive, of f d] by (simp add: body_view_def)
  then have "scgi_body f (xs @ ys) q d = Inl e"
    by (cases "scgi_body f (xs @ ys) q d") (auto simp: body_view_def split: prod.splits)
  then show ?thesis using Inl by simp
next
  case (Inr r)
  then obtain p1 where r: "r = (length xs, True, p1, d)" and p1: "sp_nread p1 = sp_nread q + length xs" "sp_failed p1 = sp_failed q"
    using scgi_body_partial [OF short, of f d] by (auto simp: rbind_eq_Inr split: if_splits)
  have x: "0 < length xs" using assms(4) by simp
  then have "sp_nread p1 \<noteq> 8" using p1(1) n8 by linarith
  then have chk: "check_header p1 = HdrGo p1" by (simp add: check_header_def)
  have "\<not> sp_nread p1 < 8" using p1(1) n8 by simp
  note loop = scgi_loop_go [OF assms(5) this chk, of f d]
  have split: "body_view (scgi_body f (xs @ ys) q d) =
      body_view (rbind (scgi_body f ys p1 d) (\<lambda>(n', r). Inr (length xs + n', r)))"
    using scgi_body_split [OF short alive, of f d] by (simp add: Inr r)
  show ?thesis
  proof (cases "scgi_body f ys p1 d")
    case (Inl e)
    then have "scgi_body f (xs @ ys) q d = Inl e"
      using split by (cases "scgi_body f (xs @ ys) q d") (auto simp: body_view_def split: prod.splits)
    then show ?thesis using Inl Inr r loop by simp
  next
    case B: (Inr s)
    obtain n' go p2 d2 where s: "s = (n', go, p2, d2)" by (cases s)
    obtain p2' where b: "scgi_body f (xs @ ys) q d = Inr (length xs + n', go, p2', d2)" and qu: "scgi_quiet p2' = scgi_quiet p2"
      using split B s by (cases "scgi_body f (xs @ ys) q d") (auto simp: body_view_def split: prod.splits)
    have "go \<Longrightarrow> p2' = p2"
      using qu scgi_body_failed [OF b alive] scgi_body_failed [OF B [unfolded s]] p1(2) alive by simp
    then show ?thesis using b B s Inr r loop qu by (cases go) simp_all
  qed
qed

lemma scgi_loop_append:
  assumes "\<not> sp_failed p"
  shows "scgi_obs (scgi_loop f (xs @ ys) p d) = scgi_obs (rbind (scgi_loop f xs p d) (scgi_cont f ys))"
proof (cases "ys = []")
  case True
  have "rbind m (scgi_cont f []) = m" for m :: "(bool \<times> scgi_parser \<times> 'a) result"
    by (cases m) (auto simp: scgi_cont_def)
  then show ?thesis using True by simp
next
  case ys: False
  show ?thesis using assms
  proof (induction f xs p d rule: scgi_loop.induct)
    case (1 f xs p d)
    show ?case
    proof (cases xs)
      case Nil
      then show ?thesis by simp
    next
      case (Cons b bs)
      then have ne: "xs \<noteq> []" "xs @ ys \<noteq> []" by simp_all
      consider (hdr) "sp_nread p < 8" | (bad) "\<not> sp_nread p < 8" "check_header p = HdrBad"
        | (zero) q where "\<not> sp_nread p < 8" "check_header p = HdrZero q"
        | (go) q where "\<not> sp_nread p < 8" "check_header p = HdrGo q"
        by (cases "check_header p") auto
      then show ?thesis
      proof cases
        case hdr
        then show ?thesis using 1(1) [OF Cons hdr] 1(4) Cons
          by (simp add: scgi_loop_header put_header_byte_def)
      next
        case bad
        then show ?thesis using ne by (simp add: scgi_loop_bad)
      next
        case zero
        then show ?thesis using 1(2) [OF Cons zero] 1(4) ne check_header_zero_failed [OF zero(2)]
          by (simp add: scgi_loop_zero)
      next
        case go
        note q = check_header_go [OF go(2)]
        note L = scgi_loop_go [OF ne(2) go, of f d] and R = scgi_loop_go [OF ne(1) go, of f d]
        show ?thesis
        proof (cases "length xs < body_needs q (length (xs @ ys))")
          case True
          have "rbind (scgi_loop f xs p d) (scgi_cont f ys)
              = rbind (scgi_body f xs q d) (\<lambda>(n, go, p1, d1). scgi_loop f ys p1 d1)"
            unfolding R scgi_body_partial [OF True] by simp
          then show ?thesis
            unfolding L using scgi_loop_cut_body [OF True _ _ ne(1) ys, of f d] q go(1) 1(4) by simp
        next
          case False
          then have pre: "scgi_body f (xs @ ys) q d = scgi_body f xs q d" by (intro scgi_body_prefix) simp
          show ?thesis
          proof (cases "scgi_body f xs q d")
            case (Inl e)
            then show ?thesis unfolding L R pre by simp
          next
            case (Inr r)
            obtain n g p1 d1 where r: "r = (n, g, p1, d1)" by (cases r)
            have body: "scgi_body f xs q d = Inr (n, g, p1, d1)" using Inr r by simp
            have "n = body_needs q (length xs)"
              using body by (auto simp: scgi_body_def Let_def rbind_eq_Inr split: if_splits prod.splits sum.splits)
            then have "n \<le> length xs" by (auto simp: body_needs_def)
            moreover have "sp_failed p1 = (\<not> g)" using scgi_body_failed [OF body] q(2) 1(4) by simp
            ultimately show ?thesis
              using 1(3) [OF Cons go body refl refl refl] unfolding L R pre body by (cases g) simp_all
          qed
        qed
      qed
    qed
  qed
qed

definition scgi_good :: "(bool \<times> scgi_parser \<times> 'd) result \<Rightarrow> bool" where
  "scgi_good s = (case s of Inl _ \<Rightarrow> True | Inr (go, p, d) \<Rightarrow> go = (\<not> sp_failed p))"

lemma scgi_good_simps [simp]: "scgi_good (Inl e)" "scgi_good (Inr (go, p, d)) \<longleftrightarrow> go = (\<not> sp_failed p)"
  by (simp_all add: scgi_good_def)

lemma scgi_feed_simps [simp]:
  "scgi_feed f xs (Inl e) = Inl e" "scgi_feed f xs (Inr (False, p, d)) = Inr (False, p, d)"
  "\<not> sp_failed p \<Longrightarrow> scgi_feed f xs (Inr (True, p, d)) = scgi_loop f xs p d"
  by (simp_all add: scgi_feed_def scgi_process_def)

lemma scgi_good_feed: "scgi_good s \<Longrightarrow> scgi_good (scgi_feed f xs s)"
proof -
  assume g: "scgi_good s"
  have "scgi_good (scgi_loop f xs p d)" if "\<not> sp_failed p" for p d
    using that by (cases "scgi_loop f xs p d") (auto simp: scgi_loop_failed)
  with g show ?thesis by (cases s) (auto simp: scgi_feed_def scgi_process_def)
qed

lemma scgi_feed_append: "scgi_good s \<Longrightarrow> scgi_obs (scgi_feed f (xs @ ys) s) = scgi_obs (scgi_feed f ys (scgi_feed f xs s))"
proof (cases s)
  case (Inr r)
  obtain go p d where r: "r = (go, p, d)" by (cases r)
  assume "scgi_good s"
  then have go: "go = (\<not> sp_failed p)" using Inr r by simp
  show ?thesis
  proof (cases go)
    case True
    then have alive: "\<not> sp_failed p" using go by simp
    have "scgi_feed f ys (scgi_loop f xs p d) = rbind (scgi_loop f xs p d) (scgi_cont f ys)"
      using scgi_loop_failed [OF _ alive, of f xs d] by (cases "scgi_loop f xs p d") (auto simp: scgi_cont_def)
    then show ?thesis using scgi_loop_append [OF alive] Inr r True alive by simp
  next
    case False
    then show ?thesis using Inr r by simp
  qed
qed simp

lemma scgi_feed_obs:
  "scgi_good s \<Longrightarrow> scgi_good t \<Longrightarrow> scgi_obs s = scgi_obs t \<Longrightarrow> scgi_obs (scgi_feed f xs s) = scgi_obs (scgi_feed f xs t)"
  by (cases s; cases t) (auto simp: scgi_feed_def scgi_process_def scgi_obs_def split: if_splits)

interpretation scgi_stream: chunk_consumer "scgi_feed f" scgi_good scgi_obs for f
proof
  show "scgi_obs (scgi_feed f [] s) = scgi_obs s" if "scgi_good s" for f :: "'a on_message" and s
    using that by (cases s) (auto simp: scgi_feed_def scgi_process_def)
qed (rule scgi_good_feed scgi_feed_append scgi_feed_obs; assumption)+

abbreviation scgi_start :: "'d \<Rightarrow> (bool \<times> scgi_parser \<times> 'd) result" where
  "scgi_start d \<equiv> Inr (True, scgi_parser_new, d)"

lemma scgi_start_good [simp]: "scgi_good (scgi_start d)"
  by (simp add: scgi_parser_new_def)

text \<open>C22: the parser does not depend on how TCP cuts the stream: for every dispatcher, feeding the bytes
  read after read leads to the same answers of the dispatcher, the same parser state and the same
  decision to close as one call of \<open>process\<close> with all the bytes.\<close>

theorem scgi_cuts_irrelevant:
  "scgi_obs (fold (scgi_feed onMessage) chunks (scgi_start d))
     = scgi_obs (scgi_process onMessage (concat chunks) scgi_parser_new d)"
  using scgi_stream.feed_chunks [OF scgi_start_good, of onMessage chunks d]
  by (simp add: scgi_feed_def)


subsection \<open>No overrun of the message buffer\<close>

definition body_inv :: "scgi_parser \<Rightarrow> bool" where
  "body_inv p \<longleftrightarrow> sp_msgsize p < unat (hdr_size p) \<and> (sp_skipmsg p \<or> length (sp_msgbuf p) = unat (hdr_size p))"

definition scgi_inv :: "scgi_parser \<Rightarrow> bool" where
  "scgi_inv p \<longleftrightarrow> length (sp_header p) = 8 \<and> (sp_nread p \<le> 8 \<longrightarrow> sp_msgsize p = 0)
     \<and> (8 < sp_nread p \<longrightarrow> body_inv p)"

lemma check_header_inv:
  assumes "scgi_inv p" and "\<not> sp_nread p < 8"
  shows "check_header p = HdrZero q \<Longrightarrow> scgi_inv q" and "check_header p = HdrGo q \<Longrightarrow> body_inv q \<and> length (sp_header q) = 8"
proof -
  show "scgi_inv q" if "check_header p = HdrZero q"
    using that assms by (auto simp: check_header_def Let_def scgi_inv_def split: if_splits)
  have m: "unat kMAX_MSG_SIZE = 1048576" by (simp add: kMAX_MSG_SIZE_def)
  show "body_inv q \<and> length (sp_header q) = 8" if "check_header p = HdrGo q"
    using that assms m
    by (auto simp: check_header_def Let_def scgi_inv_def body_inv_def hdr_overflow_def word_less_nat_alt unat_gt_0
        hdr_size_def split: if_splits)
qed

lemma scgi_body_inv:
  assumes "body_inv q" and "length (sp_header q) = 8" and "8 \<le> sp_nread q" and "rest \<noteq> []"
  obtains n go p' d' where "scgi_body f rest q d = Inr (n, go, p', d')" and "go \<Longrightarrow> scgi_inv p'"
proof -
  let ?n = "body_needs q (length rest)"
  have n: "0 < ?n" "sp_msgsize q + ?n \<le> unat (hdr_size q)"
    using assms(1,4) by (auto simp: body_needs_def body_inv_def)
  have "sp_skipmsg q \<or> sp_msgsize q + ?n \<le> length (sp_msgbuf q)"
    using assms(1) n by (auto simp: body_inv_def)
  moreover have "?n \<le> length rest" by (auto simp: body_needs_def)
  ultimately have "\<exists>n go p' d'. scgi_body f rest q d = Inr (n, go, p', d') \<and> (go \<longrightarrow> scgi_inv p')"
    using n assms
    by (auto simp: scgi_body_def Let_def scgi_inv_def body_inv_def scgi_fail_def hdr_size_def
        split: prod.splits sum.splits)
  then show ?thesis using that by blast
qed

lemma scgi_loop_safe: "scgi_inv p \<Longrightarrow> is_ok (scgi_loop f rest p d)"
proof (induction f rest p d rule: scgi_loop.induct)
  case (1 f rest p d)
  show ?case
  proof (cases rest)
    case (Cons b bs)
    then have ne: "rest \<noteq> []" by simp
    consider (hdr) "sp_nread p < 8" | (bad) "\<not> sp_nread p < 8" "check_header p = HdrBad"
      | (zero) q where "\<not> sp_nread p < 8" "check_header p = HdrZero q"
      | (go) q where "\<not> sp_nread p < 8" "check_header p = HdrGo q"
      by (cases "check_header p") auto
    then show ?thesis
    proof cases
      case hdr
      then have "scgi_inv (put_header_byte b p)" using 1(4) by (auto simp: scgi_inv_def put_header_byte_def)
      then show ?thesis using 1(1) [OF Cons hdr] hdr Cons by (simp add: scgi_loop_header)
    next
      case bad
      then show ?thesis using ne by (simp add: scgi_loop_bad)
    next
      case zero
      then show ?thesis using 1(2) [OF Cons zero] check_header_inv(1) [OF 1(4) zero] ne by (simp add: scgi_loop_zero)
    next
      case go
      note inv = check_header_inv(2) [OF 1(4) go]
      have "8 \<le> sp_nread q" using go check_header_go(1) [OF go(2)] by simp
      with inv obtain n g p1 d1 where body: "scgi_body f rest q d = Inr (n, g, p1, d1)" and i: "g \<Longrightarrow> scgi_inv p1"
        using scgi_body_inv [of q rest f d] ne by metis
      show ?thesis
        using 1(3) [OF Cons go body refl refl refl] i scgi_loop_go [OF ne go, of f d] body by (cases g) simp_all
    qed
  qed simp
qed

lemma scgi_inv_new: "scgi_inv scgi_parser_new"
  by (simp add: scgi_inv_def scgi_parser_new_def scgi_header_def)

text \<open>Whatever a client sends and however it is cut, whatever the dispatcher answers or throws, the
  copy of a message body never leaves \<open>msgbuf_\<close>: the conversation always has a defined state.\<close>

lemma scgi_never_overruns:
  "is_ok (fold (scgi_feed onMessage) chunks (scgi_start d))"
proof -
  have "is_ok (scgi_process onMessage (concat chunks) scgi_parser_new d)"
    using scgi_loop_safe [OF scgi_inv_new] by (simp add: scgi_process_def scgi_parser_new_def)
  then have "is_ok (scgi_obs (fold (scgi_feed onMessage) chunks (scgi_start d)))"
    using scgi_stream.feed_chunks [OF scgi_start_good, of onMessage chunks d]
    by (auto simp: scgi_obs_def is_ok_rbind scgi_feed_def elim!: is_okE)
  then show ?thesis by (auto simp: scgi_obs_def is_ok_rbind)
qed


subsection \<open>Every message reaches the dispatcher\<close>

lemma scgi_loop_header_bytes:
  "length h + sp_nread p = 8 \<Longrightarrow> length (sp_header p) = 8 \<Longrightarrow>
    scgi_loop f (h @ rest) p d = scgi_loop f rest (p\<lparr>sp_header := take (sp_nread p) (sp_header p) @ h, sp_nread := 8\<rparr>) d"
proof (induction h arbitrary: p)
  case (Cons b h)
  have "scgi_loop f ((b # h) @ rest) p d = scgi_loop f (h @ rest) (put_header_byte b p) d"
    using Cons.prems by (simp add: scgi_loop_header)
  moreover have "take (Suc (sp_nread p)) ((sp_header p)[sp_nread p := b]) = take (sp_nread p) (sp_header p) @ [b]"
    using Cons.prems by (simp add: take_Suc_conv_app_nth)
  ultimately show ?case using Cons by (simp add: put_header_byte_def)
next
  case (Nil p)
  then have "p\<lparr>sp_header := take (sp_nread p) (sp_header p) @ [], sp_nread := 8\<rparr> = p" by (cases p) simp
  then show ?case by simp
qed

text \<open>The parser between two messages.\<close>

definition scgi_between :: "scgi_parser \<Rightarrow> bool" where
  "scgi_between p \<longleftrightarrow> sp_nread p = 0 \<and> sp_msgsize p = 0 \<and> \<not> sp_failed p \<and> length (sp_header p) = 8 \<and> sp_closed p = 0"

definition deliverable :: "bytes \<Rightarrow> bool" where
  "deliverable m \<longleftrightarrow> m \<noteq> [] \<and> length m \<le> 1048576"

lemma scgi_header_fields:
  assumes "n < 2 ^ 32"
  shows "le_word (take 4 (scgi_header n)) = kMARKER_VALUE" "unat (le_word (take 4 (drop 4 (scgi_header n))) :: u32) = n"
  using assms by (simp_all add: scgi_header_def le_word_word_le unat_of_nat)

lemma scgi_loop_message:
  assumes "scgi_between p" and "length m < 2 ^ 32" and acc: "fst (f m d) = Inr True"
  obtains (stop) p' where "rest = []" "m = []" "scgi_loop f (scgi_message m @ rest) p d = Inr (True, p', d)" "sp_closed p' = 0"
  | (more) p' where "scgi_between p'"
      "scgi_loop f (scgi_message m @ rest) p d = scgi_loop f rest p' (if deliverable m then snd (f m d) else d)"
proof -
  let ?h = "scgi_header (length m)"
  let ?p = "p\<lparr>sp_header := ?h, sp_nread := 8\<rparr>"
  have step: "scgi_loop f (scgi_message m @ rest) p d = scgi_loop f (m @ rest) ?p d"
    using scgi_loop_header_bytes [of ?h p f "m @ rest" d] assms(1)
    by (simp add: scgi_message_def scgi_between_def scgi_header_def)
  have sz: "unat (hdr_size ?p) = length m" and val: "hdr_valid ?p"
    using scgi_header_fields [OF assms(2)] by (simp_all add: hdr_size_def hdr_valid_def hdr_marker_def)
  have m1: "unat kMAX_MSG_SIZE = 1048576" by (simp add: kMAX_MSG_SIZE_def)
  have over: "hdr_overflow ?p \<longleftrightarrow> 1048576 < length m" using sz m1 by (simp add: hdr_overflow_def word_less_nat_alt)
  have n8: "\<not> sp_nread ?p < 8" by simp
  show ?thesis
  proof (cases "m @ rest = []")
    case True
    then show ?thesis using stop [of ?p] step assms(1) by (simp add: scgi_between_def)
  next
    case ne: False
    show ?thesis
    proof (cases "m = []")
      case True
      let ?q = "?p\<lparr>sp_skipmsg := False, sp_msgsize := 0, sp_msgbuf := [], sp_nread := 0\<rparr>"
      have "hdr_size ?p = 0" using sz True by (simp add: unat_eq_0)
      then have "check_header ?p = HdrZero ?q"
        using val over True by (simp add: check_header_def Let_def)
      from scgi_loop_zero [OF ne n8 this, of f d]
      have "scgi_loop f (scgi_message m @ rest) p d = scgi_loop f rest ?q (if deliverable m then snd (f m d) else d)"
        unfolding step using True by (simp add: deliverable_def)
      moreover have "scgi_between ?q" using assms(1) True by (simp add: scgi_between_def scgi_header_def)
      ultimately show ?thesis by (intro more [of ?q])
    next
      case False
      have nz: "hdr_size ?p \<noteq> 0" using sz False by (metis length_0_conv unat_0)
      show ?thesis
      proof (cases "1048576 < length m")
        case True
        let ?q = "?p\<lparr>sp_skipmsg := True\<rparr>"
        let ?r = "?p\<lparr>sp_skipmsg := False, sp_msgsize := 0, sp_nread := 0\<rparr>"
        have chk: "check_header ?p = HdrGo ?q" using val over True by (simp add: check_header_def)
        have "scgi_body f (m @ rest) ?q d = Inr (length m, True, ?r, d)"
          using sz assms(1) by (simp add: scgi_body_def body_needs_def Let_def scgi_between_def)
        with scgi_loop_go [OF ne n8 chk, of f d] more [of ?r] show ?thesis
          using step assms(1) True by (simp add: scgi_between_def deliverable_def scgi_header_def)
      next
        case small: False
        let ?q = "?p\<lparr>sp_skipmsg := False, sp_msgsize := 0, sp_msgbuf := take (length m) (sp_msgbuf p)
                       @ replicate (length m - length (sp_msgbuf p)) 0\<rparr>"
        let ?r = "?p\<lparr>sp_skipmsg := False, sp_msgsize := 0, sp_msgbuf := [], sp_nread := 0\<rparr>"
        have chk: "check_header ?p = HdrGo ?q" using val over small nz sz by (simp add: check_header_def Let_def)
        have "put_at 0 m (sp_msgbuf ?q) = m" by (simp add: put_at_def)
        then have "scgi_body f (m @ rest) ?q d = Inr (length m, True, ?r, snd (f m d))"
          using sz acc by (cases "f m d") (simp add: scgi_body_def body_needs_def Let_def)
        with scgi_loop_go [OF ne n8 chk, of f d] more [of ?r] show ?thesis
          using step assms(1) small False by (simp add: scgi_between_def deliverable_def scgi_header_def)
      qed
    qed
  qed
qed

lemma scgi_loop_messages:
  assumes "scgi_between p" and "\<forall>m \<in> set ms. length m < 2 ^ 32" and "\<And>m d. fst (f m d) = Inr True"
  shows "\<exists>p'. scgi_loop f (concat (map scgi_message ms)) p d
    = Inr (True, p', fold (\<lambda>m d. snd (f m d)) (filter deliverable ms) d) \<and> sp_closed p' = 0"
  using assms(1,2)
proof (induction ms arbitrary: p d)
  case Nil
  then show ?case by (simp add: scgi_between_def)
next
  case (Cons m ms)
  have lm: "length m < 2 ^ 32" using Cons.prems(2) by simp
  show ?case
  proof (rule scgi_loop_message [OF Cons.prems(1) lm assms(3), where rest = "concat (map scgi_message ms)"])
    fix p' assume "concat (map scgi_message ms) = []" "m = []" "sp_closed p' = 0"
      "scgi_loop f (scgi_message m @ concat (map scgi_message ms)) p d = Inr (True, p', d)"
    moreover from this(1) have "ms = []" by (cases ms) (simp_all add: scgi_message_def scgi_header_def)
    ultimately show ?thesis by (simp add: deliverable_def)
  next
    fix p' assume "scgi_between p'" and l: "scgi_loop f (scgi_message m @ concat (map scgi_message ms)) p d
      = scgi_loop f (concat (map scgi_message ms)) p' (if deliverable m then snd (f m d) else d)"
    then obtain q where "scgi_loop f (concat (map scgi_message ms)) p' (if deliverable m then snd (f m d) else d)
      = Inr (True, q, fold (\<lambda>m d. snd (f m d)) (filter deliverable ms) (if deliverable m then snd (f m d) else d))"
      "sp_closed q = 0"
      using Cons.IH Cons.prems(2) by fastforce
    then show ?thesis using l by simp
  qed
qed

lemma scgi_deliver_all:
  assumes "concat chunks = concat (map scgi_message ms)"
    and "\<forall>m \<in> set ms. length m < 2 ^ 32" and "\<And>m d. fst (onMessage m d) = Inr True"
  shows "\<exists>p. fold (scgi_feed onMessage) chunks (scgi_start d)
    = Inr (True, p, fold (\<lambda>m d. snd (onMessage m d)) (filter deliverable ms) d) \<and> sp_closed p = 0"
proof -
  have "scgi_between scgi_parser_new"
    by (simp add: scgi_between_def scgi_parser_new_def scgi_header_def)
  from scgi_loop_messages [where f = onMessage, OF this assms(2,3)] obtain p where
    p: "scgi_loop onMessage (concat chunks) scgi_parser_new d
      = Inr (True, p, fold (\<lambda>m d. snd (onMessage m d)) (filter deliverable ms) d)" "sp_closed p = 0"
    using assms(1) by auto
  have alive: "\<not> sp_failed scgi_parser_new" by (simp add: scgi_parser_new_def)
  have "\<not> sp_failed p" using scgi_loop_failed [OF p(1) alive] by simp
  then have "scgi_obs (fold (scgi_feed onMessage) chunks (scgi_start d))
      = Inr (True, p, fold (\<lambda>m d. snd (onMessage m d)) (filter deliverable ms) d)"
    using scgi_stream.feed_chunks [OF scgi_start_good, of onMessage chunks d] p(1) alive by simp
  then obtain q where "fold (scgi_feed onMessage) chunks (scgi_start d)
      = Inr (True, q, fold (\<lambda>m d. snd (onMessage m d)) (filter deliverable ms) d)" and "scgi_quiet q = p"
    by (auto simp: scgi_obs_eq_Inr)
  then show ?thesis using p(2) scgi_quiet_closed [of q] by auto
qed

text \<open>C2: the parser is the inverse of \<open>Message\<close>: when a client sends any messages and TCP cuts them in
  any way, the dispatcher gets exactly the messages of 1 to 1048576 bytes, complete and in order; an
  empty and an oversized message are skipped, those behind them are not lost, and the connection stays
  open.\<close>

theorem scgi_messages_delivered:
  assumes "concat chunks = concat (map scgi_message ms)"
    and "\<forall>m \<in> set ms. length m < 2 ^ 32" and "\<And>m d. fst (onMessage m d) = Inr True"
  shows "\<exists>p. fold (scgi_feed onMessage) chunks (scgi_start d)
    = Inr (True, p, fold (\<lambda>m d. snd (onMessage m d)) (filter deliverable ms) d) \<and> sp_closed p = 0"
  using assms by (rule scgi_deliver_all)

theorem scgi_messages_delivered_witness:
  "\<exists>p. fold (scgi_feed (\<lambda>m ds. (Inr True, ds @ [m]))) [scgi_header 2 @ [7], [8] @ scgi_message [] @ [0xFB, 0], drop 2 (scgi_message [9])] (scgi_start [])
    = Inr (True, p, [[7, 8], [9]])"
proof -
  have "word_le 4 kMARKER_VALUE = [0xFB, 0, 0, 0]"
    by (simp add: word_le_def kMARKER_VALUE_def to_le_4)
  then have take2: "[0xFB, 0] @ drop 2 (scgi_message [9]) = scgi_message [9]"
    by (simp add: scgi_message_def scgi_header_def)
  have "concat [scgi_header 2 @ [7], [8] @ scgi_message [] @ [0xFB, 0], drop 2 (scgi_message [9])]
      = concat (map scgi_message [[7, 8], [], [9]])"
    using take2 by (simp add: scgi_message_def numeral_2_eq_2)
  from scgi_messages_delivered [OF this, of "\<lambda>m ds. (Inr True, ds @ [m])" "[]"]
  show ?thesis by (auto simp: deliverable_def)
qed

text \<open>A bad header is refused, once, and nothing behind it is dispatched.\<close>

text \<open>A stream that does not start with the marker is refused: as soon as a byte behind its first
  eight arrives, the connection is closed, exactly once, the dispatcher is never called, and whatever
  arrives later is ignored.\<close>

lemma scgi_bad_marker_closes:
  assumes "concat chunks = h @ rest" and "length h = 8" and "rest \<noteq> []"
    and "(le_word (take 4 h) :: u32) \<noteq> kMARKER_VALUE"
  shows "\<exists>p. fold (scgi_feed onMessage) chunks (scgi_start d) = Inr (False, p, d) \<and> sp_closed p = 1 \<and> sp_failed p"
proof -
  let ?p = "scgi_parser_new\<lparr>sp_header := h, sp_nread := 8\<rparr>"
  have alive: "\<not> sp_failed scgi_parser_new" by (simp add: scgi_parser_new_def)
  have "scgi_loop onMessage (h @ rest) scgi_parser_new d = scgi_loop onMessage rest ?p d"
    using scgi_loop_header_bytes [of h scgi_parser_new onMessage rest d] assms(2)
    by (simp add: scgi_parser_new_def scgi_header_def)
  also have "\<dots> = Inr (False, scgi_fail ?p, d)"
    using assms(3,4) by (intro scgi_loop_bad) (simp_all add: check_header_def hdr_valid_def hdr_marker_def)
  finally have "scgi_obs (fold (scgi_feed onMessage) chunks (scgi_start d)) = Inr (False, scgi_quiet (scgi_fail ?p), d)"
    using scgi_stream.feed_chunks [OF scgi_start_good, of onMessage chunks d] assms(1) alive by simp
  then obtain p where "fold (scgi_feed onMessage) chunks (scgi_start d) = Inr (False, p, d)"
    and "scgi_quiet p = scgi_quiet (scgi_fail ?p)" by (auto simp: scgi_obs_eq_Inr)
  moreover have "sp_closed (scgi_fail ?p) = 1" "sp_failed (scgi_fail ?p)"
    by (simp_all add: scgi_fail_def scgi_parser_new_def)
  ultimately show ?thesis by (metis scgi_quiet_closed scgi_quiet_simps(3))
qed

lemma scgi_bad_marker_closes_witness:
  "\<exists>p. fold (scgi_feed (\<lambda>m ds. (Inr True, ds @ [m]))) [[0xFC, 0, 0], [0, 1, 0, 0, 0, 9]] (scgi_start []) = Inr (False, p, [])"
proof -
  have "(le_word (take 4 [0xFC, 0, 0, 0, 1, 0, 0, 0]) :: u32) \<noteq> kMARKER_VALUE"
    by (simp add: le_word_def kMARKER_VALUE_def)
  with scgi_bad_marker_closes [of "[[0xFC, 0, 0], [0, 1, 0, 0, 0, 9]]" "[0xFC, 0, 0, 0, 1, 0, 0, 0]" "[9]"
      "\<lambda>m ds. (Inr True, ds @ [m])" "[]"]
  show ?thesis by auto
qed

end
