(* ===== verification/Scgi_Service.thy ===== *)
theory Scgi_Service
  imports Scgi_Parser "HOL-Library.List_Lexorder" "HOL-Library.Char_ord"
begin

section \<open>SCGI requests, responses and the dispatcher (scgi/reqbase, request, response, dispatcher)\<close>

text \<open>
  Requests and responses are JSON objects. \<open>nlohmann::json\<close>, \<open>tools::Url\<close> and the enumeration helpers
  \<open>enums\<close> are libraries: their operations are the fields of \<open>env\<close>, a parameter of the definitions
  below, and \<open>json_laws\<close> names what the code relies on of them.
\<close>

datatype req_method = mUNKNOWN | mGET | mPOST | mPUT | mPATCH | mDELETE | mEVENT

record 'j env =
  js_parse :: "bytes \<Rightarrow> 'j result"
  js_dump :: "'j \<Rightarrow> bytes result"
  js_null :: 'j
  js_of_int :: "int \<Rightarrow> 'j"
  js_of_str :: "string \<Rightarrow> 'j"
  js_set :: "string \<Rightarrow> 'j \<Rightarrow> 'j \<Rightarrow> 'j"
  js_at :: "'j \<Rightarrow> string \<Rightarrow> 'j result"
  js_has :: "'j \<Rightarrow> string \<Rightarrow> bool"
  js_empty :: "'j \<Rightarrow> bool"
  js_is_null :: "'j \<Rightarrow> bool"
  js_u32 :: "'j \<Rightarrow> u32 result"
  js_int :: "'j \<Rightarrow> int result"
  js_str :: "'j \<Rightarrow> string result"
  en_toEnum :: "string \<Rightarrow> (req_method \<times> string) list \<Rightarrow> req_method result"
  en_toString :: "(req_method \<times> string) list \<Rightarrow> req_method \<Rightarrow> string"
  url_parts :: "string \<Rightarrow> (string \<times> string) option"

record 'j reqbase =
  rb_id :: u32
  rb_method :: req_method
  rb_uri :: string
  rb_sessionId :: string
  rb_data :: 'j

definition reqbase_new :: "'j env \<Rightarrow> 'j reqbase" where
  "reqbase_new env = \<lparr>rb_id = 0, rb_method = mUNKNOWN, rb_uri = [], rb_sessionId = [], rb_data = js_null env\<rparr>"

definition method_map :: "(req_method \<times> string) list" where
  "method_map = [(mUNKNOWN, ''UNKNOWN''), (mGET, ''GET''), (mPOST, ''POST''), (mPUT, ''PUT''),
     (mPATCH, ''PATCH''), (mDELETE, ''DELETE''), (mEVENT, ''EVENT'')]"

definition method_name :: "'j env \<Rightarrow> 'j reqbase \<Rightarrow> string" where
  "method_name env r = en_toString env method_map (rb_method r)"

subsection \<open>set_uri\<close>

definition slash :: "char \<Rightarrow> bool" where
  "slash c \<longleftrightarrow> c = CHR ''/'' \<or> c = CHR 0x5C"

text \<open>The loop of \<open>set_uri\<close>; it appends to \<open>uri_\<close>, which it does not clear.\<close>

fun uri_loop :: "string \<Rightarrow> bool \<Rightarrow> string \<Rightarrow> string" where
  "uri_loop [] sprev uri = uri"
| "uri_loop (c # cs) sprev uri =
     (if slash c then
        (if \<not> sprev then uri_loop cs True (uri @ [c]) else uri_loop cs sprev uri)
      else
        (let uri = (if length uri = 0 then uri @ ''/'' else uri)
         in uri_loop cs False (uri @ [c])))"

definition set_uri :: "string \<Rightarrow> 'j reqbase \<Rightarrow> 'j reqbase" where
  "set_uri v r = r\<lparr>rb_uri := uri_loop v False (rb_uri r)\<rparr>"

text \<open>\<open>Param\<close>: the path and the file of the URI, taken apart by \<open>tools::Url\<close>.\<close>

definition req_param :: "'j env \<Rightarrow> 'j reqbase \<Rightarrow> string \<times> string" where
  "req_param env r = (case url_parts env (''cgi://local'' @ rb_uri r) of Some p \<Rightarrow> p | None \<Rightarrow> ([], []))"

subsection \<open>JSON of requests and responses\<close>

definition reqbase_toJson :: "'j env \<Rightarrow> 'j reqbase \<Rightarrow> 'j" where
  "reqbase_toJson env r =
     (let j = js_set env ''id'' (js_of_int env (uint (rb_id r))) (js_null env);
          j = js_set env ''uri'' (js_of_str env (rb_uri r)) j;
          j = js_set env ''method'' (js_of_str env (method_name env r)) j;
          j = (if rb_sessionId r \<noteq> [] then js_set env ''sessionId'' (js_of_str env (rb_sessionId r)) j else j)
      in if \<not> js_empty env (rb_data r) \<and> \<not> js_is_null env (rb_data r)
         then js_set env ''data'' (rb_data r) j else j)"

definition reqbase_fromJson :: "'j env \<Rightarrow> 'j \<Rightarrow> 'j reqbase \<Rightarrow> 'j reqbase result" where
  "reqbase_fromJson env from r =
     rbind (rbind (js_at env from ''id'') (js_u32 env)) (\<lambda>i.
     rbind (rbind (js_at env from ''method'') (js_str env)) (\<lambda>ms.
     rbind (en_toEnum env ms method_map) (\<lambda>m.
     rbind (rbind (js_at env from ''uri'') (js_str env)) (\<lambda>u.
     let r = set_uri u (r\<lparr>rb_id := i, rb_method := m\<rparr>) in
     rbind (if js_has env from ''data'' then js_at env from ''data'' else Inr (js_null env)) (\<lambda>d.
     rbind (if js_has env from ''sessionId'' then rbind (js_at env from ''sessionId'') (js_str env) else Inr []) (\<lambda>s.
       Inr (r\<lparr>rb_data := d, rb_sessionId := s\<rparr>)))))))"

record 'j request =
  rq_base :: "'j reqbase"
  rq_from :: string
  rq_connection :: nat

definition request_toJson :: "'j env \<Rightarrow> 'j request \<Rightarrow> 'j" where
  "request_toJson env r = js_set env ''from'' (js_of_str env (rq_from r)) (reqbase_toJson env (rq_base r))"

definition request_fromJson :: "'j env \<Rightarrow> 'j \<Rightarrow> 'j request \<Rightarrow> 'j request result" where
  "request_fromJson env from r =
     rbind (reqbase_fromJson env from (rq_base r)) (\<lambda>b.
     rbind (rbind (js_at env from ''from'') (js_str env)) (\<lambda>s.
       Inr (r\<lparr>rq_base := b, rq_from := s\<rparr>)))"

definition request_new :: "'j env \<Rightarrow> nat \<Rightarrow> bytes \<Rightarrow> 'j request result" where
  "request_new env con msg =
     rbind (js_parse env msg) (\<lambda>j.
       request_fromJson env j \<lparr>rq_base = reqbase_new env, rq_from = [], rq_connection = con\<rparr>)"

record 'j response =
  rs_base :: "'j reqbase"
  rs_code :: int
  rs_status :: string

definition response_init :: "'j reqbase \<Rightarrow> 'j reqbase \<Rightarrow> 'j reqbase" where
  "response_init from b = (set_uri (rb_uri from) (b\<lparr>rb_id := rb_id from\<rparr>))\<lparr>rb_method := rb_method from\<rparr>"

definition response_new_data :: "'j env \<Rightarrow> 'j reqbase \<Rightarrow> 'j \<Rightarrow> 'j response" where
  "response_new_data env from d =
     \<lparr>rs_base = (response_init from (reqbase_new env))\<lparr>rb_data := d\<rparr>, rs_code = 200, rs_status = ''OK''\<rparr>"

definition response_new_status :: "'j env \<Rightarrow> 'j reqbase \<Rightarrow> int \<Rightarrow> string \<Rightarrow> 'j response" where
  "response_new_status env from code status =
     \<lparr>rs_base = response_init from (reqbase_new env), rs_code = code, rs_status = status\<rparr>"

definition response_toJson :: "'j env \<Rightarrow> 'j response \<Rightarrow> 'j" where
  "response_toJson env r =
     js_set env ''status'' (js_of_str env (rs_status r))
       (js_set env ''code'' (js_of_int env (rs_code r)) (reqbase_toJson env (rs_base r)))"

definition response_fromJson :: "'j env \<Rightarrow> 'j \<Rightarrow> 'j response \<Rightarrow> 'j response result" where
  "response_fromJson env from r =
     rbind (reqbase_fromJson env from (rs_base r)) (\<lambda>b.
     rbind (rbind (js_at env from ''code'') (js_int env)) (\<lambda>c.
     rbind (rbind (js_at env from ''status'') (js_str env)) (\<lambda>s.
       Inr (r\<lparr>rs_base := b, rs_code := c, rs_status := s\<rparr>))))"

text \<open>\<open>Request::reply\<close>: what is written to the connection, if it is alive; an exception is logged.\<close>

definition write_response :: "'j env \<Rightarrow> bool \<Rightarrow> 'j response \<Rightarrow> bytes list" where
  "write_response env alive rs =
     (if \<not> alive then []
      else case js_dump env (response_toJson env rs) of Inl _ \<Rightarrow> [] | Inr text \<Rightarrow> [scgi_message text])"

definition reply_status :: "'j env \<Rightarrow> bool \<Rightarrow> 'j request \<Rightarrow> int \<Rightarrow> string \<Rightarrow> bytes list" where
  "reply_status env alive r code status = write_response env alive (response_new_status env (rq_base r) code status)"

definition reply_data :: "'j env \<Rightarrow> bool \<Rightarrow> 'j request \<Rightarrow> 'j \<Rightarrow> bytes list" where
  "reply_data env alive r d = write_response env alive (response_new_data env (rq_base r) d)"

subsection \<open>Dispatcher\<close>

text \<open>
  The handlers are a \<open>std::map\<close> from patterns, kept in the order of its keys; a handler is known by a
  number. \<open>std::regex_match\<close> with its construction of the regular expression is the parameter \<open>rx\<close>,
  which may throw. The strand is the queue of the posted requests.
\<close>

record 'j dispatcher =
  dp_handlers :: "(string \<times> nat) list"
  dp_posted :: "'j request list"

definition createPattern :: "string \<Rightarrow> string" where
  "createPattern from = concat (map (\<lambda>c. if c = CHR ''/'' then [CHR 0x5C, CHR ''/''] else [c]) (''^'' @ from @ ''$''))"

fun map_put :: "string \<Rightarrow> 'v \<Rightarrow> (string \<times> 'v) list \<Rightarrow> (string \<times> 'v) list" where
  "map_put k v [] = [(k, v)]"
| "map_put k v ((k', v') # m) =
     (if k < k' then (k, v) # (k', v') # m else if k = k' then (k, v) # m else (k', v') # map_put k v m)"

definition map_erase :: "string \<Rightarrow> (string \<times> 'v) list \<Rightarrow> (string \<times> 'v) list" where
  "map_erase k m = filter (\<lambda>(k', _). k' \<noteq> k) m"

definition dispatcher_add :: "string \<Rightarrow> nat option \<Rightarrow> 'j dispatcher \<Rightarrow> 'j dispatcher" where
  "dispatcher_add pattern handler ds =
     (case handler of None \<Rightarrow> ds
      | Some h \<Rightarrow> ds\<lparr>dp_handlers := map_put (createPattern pattern) h (dp_handlers ds)\<rparr>)"

definition dispatcher_remove :: "string \<Rightarrow> 'j dispatcher \<Rightarrow> 'j dispatcher" where
  "dispatcher_remove pattern ds = ds\<lparr>dp_handlers := map_erase (createPattern pattern) (dp_handlers ds)\<rparr>"

definition dispatcher_cancel :: "'j dispatcher \<Rightarrow> 'j dispatcher" where
  "dispatcher_cancel ds = ds\<lparr>dp_handlers := []\<rparr>"

fun find_handler :: "(string \<Rightarrow> string \<Rightarrow> bool result) \<Rightarrow> string \<Rightarrow> (string \<times> nat) list \<Rightarrow> nat option result" where
  "find_handler rx uri [] = Inr None"
| "find_handler rx uri ((p, h) # m) = rbind (rx p uri) (\<lambda>b. if b then Inr (Some h) else find_handler rx uri m)"

text \<open>What running a request does: a handler is called, or the reply 404 is written.\<close>

datatype dispatch_effect = Called nat | Replied "bytes list"

definition dispatcher_exec ::
  "'j env \<Rightarrow> (string \<Rightarrow> string \<Rightarrow> bool result) \<Rightarrow> bool \<Rightarrow> 'j dispatcher \<Rightarrow> 'j request \<Rightarrow> dispatch_effect result" where
  "dispatcher_exec env rx alive ds r =
     rbind (find_handler rx (rb_uri (rq_base r)) (dp_handlers ds)) (\<lambda>h.
       case h of Some h \<Rightarrow> Inr (Called h)
       | None \<Rightarrow> Inr (Replied (reply_status env alive r 404 ''Not found'')))"

definition dispatcher_onMessage :: "'j env \<Rightarrow> nat \<Rightarrow> bytes \<Rightarrow> 'j dispatcher \<Rightarrow> bool result \<times> 'j dispatcher" where
  "dispatcher_onMessage env con msg ds =
     (case request_new env con msg of
        Inl _ \<Rightarrow> (Inr True, ds)
      | Inr r \<Rightarrow> (Inr True, ds\<lparr>dp_posted := dp_posted ds @ [r]\<rparr>))"


subsection \<open>What the code relies on of the libraries\<close>

definition json_laws :: "'j env \<Rightarrow> bool" where
  "json_laws env \<longleftrightarrow>
     (\<forall>k v j. js_at env (js_set env k v j) k = Inr v) \<and>
     (\<forall>k k' v j. k \<noteq> k' \<longrightarrow> js_at env (js_set env k v j) k' = js_at env j k') \<and>
     (\<forall>k k' v j. js_has env (js_set env k v j) k' \<longleftrightarrow> k' = k \<or> js_has env j k') \<and>
     (\<forall>k. \<not> js_has env (js_null env) k) \<and>
     (\<forall>w. js_u32 env (js_of_int env (uint w)) = Inr w) \<and>
     (\<forall>i. \<bar>i\<bar> < 2 ^ 31 \<longrightarrow> js_int env (js_of_int env i) = Inr i) \<and>
     (\<forall>s. js_str env (js_of_str env s) = Inr s) \<and>
     (\<forall>m \<in> set (map fst method_map). en_toEnum env (en_toString env method_map m) method_map = Inr m)"

lemma in_method_map [simp]: "m \<in> set (map fst method_map)"
  by (cases m) (simp_all add: method_map_def)

lemma json_lawsD:
  assumes "json_laws env"
  shows "js_at env (js_set env k v j) k' = (if k = k' then Inr v else js_at env j k')"
    and "js_has env (js_set env k v j) k' \<longleftrightarrow> k' = k \<or> js_has env j k'"
    and "\<not> js_has env (js_null env) k"
    and "js_u32 env (js_of_int env (uint w)) = Inr w"
    and "\<bar>i\<bar> < 2 ^ 31 \<Longrightarrow> js_int env (js_of_int env i) = Inr i"
    and "js_str env (js_of_str env s) = Inr s"
    and "en_toEnum env (en_toString env method_map m) method_map = Inr m"
  using assms in_method_map [of m] unfolding json_laws_def by auto

subsection \<open>Normal URIs\<close>

text \<open>A URI as handlers see it: it starts with a separator and has no two in a row.\<close>

fun no_double :: "string \<Rightarrow> bool" where
  "no_double (a # b # s) \<longleftrightarrow> \<not> (slash a \<and> slash b) \<and> no_double (b # s)"
| "no_double _ \<longleftrightarrow> True"

definition uri_normal :: "string \<Rightarrow> bool" where
  "uri_normal u \<longleftrightarrow> no_double u \<and> (u \<noteq> [] \<longrightarrow> slash (hd u))"

lemma no_double_snoc:
  "no_double (u @ [c]) \<longleftrightarrow> no_double u \<and> (u = [] \<or> \<not> (slash (last u) \<and> slash c))"
  by (induction u rule: no_double.induct) auto

lemma slash_simps [simp]: "slash (CHR ''/'')" by (simp add: slash_def)

lemma uri_loop_normal:
  assumes "uri_normal u" and "u \<noteq> [] \<Longrightarrow> sprev = slash (last u)" and "u = [] \<Longrightarrow> \<not> sprev"
  shows "uri_normal (uri_loop v sprev u)"
  using assms
proof (induction v sprev u rule: uri_loop.induct)
  case (2 c cs sprev u)
  show ?case
  proof (cases "slash c")
    case True
    show ?thesis
    proof (cases sprev)
      case True
      then have "u \<noteq> []" using 2(6) by auto
      then have "uri_normal (uri_loop cs sprev u)"
        using 2(2) [OF \<open>slash c\<close>] 2(4,5) True by blast
      then show ?thesis using True \<open>slash c\<close> by simp
    next
      case False
      have "uri_normal (u @ [c])"
        using 2(4-6) False \<open>slash c\<close> by (cases u) (auto simp: uri_normal_def no_double_snoc simp flip: append_Cons)
      then show ?thesis using 2(1) [OF \<open>slash c\<close> False] False \<open>slash c\<close> by simp
    qed
  next
    case False
    let ?u = "if length u = 0 then u @ ''/'' else u"
    have "uri_normal (?u @ [c])"
      using 2(4) False by (cases u) (auto simp: uri_normal_def no_double_snoc simp flip: append_Cons)
    then show ?thesis using 2(3) [OF False refl] False by simp
  qed
qed simp

lemma uri_loop_id:
  assumes "no_double (u @ v)" and "u \<noteq> [] \<Longrightarrow> sprev = slash (last u)" and "u = [] \<Longrightarrow> \<not> sprev"
    and "u @ v \<noteq> [] \<Longrightarrow> slash (hd (u @ v))"
  shows "uri_loop v sprev u = u @ v"
  using assms
proof (induction v sprev u rule: uri_loop.induct)
  case (2 c cs sprev u)
  have nd: "no_double (u @ [c])" using 2(4)
  proof (induction u rule: no_double.induct)
    case (1 a b s) then show ?case by simp
  qed auto
  show ?case
  proof (cases "slash c")
    case True
    then have "\<not> sprev" using nd 2(5,6) by (cases "u = []") (auto simp: no_double_snoc)
    then show ?thesis using 2(1) [OF True] 2(4-7) True by simp
  next
    case False
    then have "u \<noteq> []" using 2(7) by (cases u) auto
    then show ?thesis using 2(3) [OF False refl] 2(4-7) False by simp
  qed
qed simp


lemma set_uri_normal: "uri_normal (uri_loop v False [])"
  by (rule uri_loop_normal) (simp_all add: uri_normal_def)

lemma set_uri_same: "uri_normal u \<Longrightarrow> uri_loop u False [] = u"
  using uri_loop_id [of "[]" u False] by (auto simp: uri_normal_def)

text \<open>A URI is normalised when it is set on a new request: it gets a leading separator if it has
  none, runs of separators collapse to their first, and setting a normalised URI changes nothing.\<close>

lemma set_uri_normalises:
  "uri_normal (rb_uri (set_uri v (reqbase_new env)))
   \<and> rb_uri (set_uri (rb_uri (set_uri v (reqbase_new env))) (reqbase_new env)) = rb_uri (set_uri v (reqbase_new env))"
  using set_uri_normal [of v] set_uri_same [OF set_uri_normal [of v]]
  by (simp add: set_uri_def reqbase_new_def)

subsection \<open>Round trips\<close>

definition data_kept :: "'j env \<Rightarrow> 'j \<Rightarrow> bool" where
  "data_kept env d \<longleftrightarrow> d = js_null env \<and> js_is_null env d \<or> \<not> js_empty env d \<and> \<not> js_is_null env d"

lemma reqbase_roundtrip:
  assumes "json_laws env" and "uri_normal (rb_uri r)" and "data_kept env (rb_data r)"
    and "\<And>k. k \<in> {''id'', ''uri'', ''method'', ''sessionId'', ''data''} \<Longrightarrow> js_at env j k = js_at env (reqbase_toJson env r) k
      \<and> js_has env j k = js_has env (reqbase_toJson env r) k"
  shows "reqbase_fromJson env j (reqbase_new env) = Inr r"
proof -
  note L = json_lawsD [OF assms(1)]
  have k: "js_at env j k = js_at env (reqbase_toJson env r) k" "js_has env j k = js_has env (reqbase_toJson env r) k"
    if "k \<in> {''id'', ''uri'', ''method'', ''sessionId'', ''data''}" for k
    using assms(4) [OF that] by blast+
  have iu: "js_at env j ''id'' = Inr (js_of_int env (uint (rb_id r)))"
    "js_at env j ''uri'' = Inr (js_of_str env (rb_uri r))"
    "js_at env j ''method'' = Inr (js_of_str env (method_name env r))"
    by (simp_all add: k reqbase_toJson_def Let_def L)
  have sess: "(if js_has env j ''sessionId'' then rbind (js_at env j ''sessionId'') (js_str env) else Inr [])
      = Inr (rb_sessionId r)"
    by (simp add: k reqbase_toJson_def Let_def L)
  have dat: "(if js_has env j ''data'' then js_at env j ''data'' else Inr (js_null env)) = Inr (rb_data r)"
    using assms(3) by (auto simp: k reqbase_toJson_def Let_def L data_kept_def)
  have uri: "rb_uri (set_uri (rb_uri r) (reqbase_new env\<lparr>rb_id := i, rb_method := m\<rparr>)) = rb_uri r" for i m
    using set_uri_same [OF assms(2)] by (simp add: set_uri_def reqbase_new_def)
  show ?thesis
    unfolding reqbase_fromJson_def Let_def iu sess dat rbind_Inr L method_name_def
    using uri by (cases r) (simp add: set_uri_def reqbase_new_def)
qed

text \<open>An instance of the library interface: JSON objects as association lists.\<close>

datatype demo_json = JNull | JInt int | JStr string | JObj "(string \<times> demo_json) list"

fun jobj :: "demo_json \<Rightarrow> (string \<times> demo_json) list" where
  "jobj (JObj kvs) = kvs"
| "jobj _ = []"

definition demo_env :: "demo_json \<Rightarrow> demo_json env" where
  "demo_env parsed = \<lparr>
     js_parse = (\<lambda>_. Inr parsed),
     js_dump = (\<lambda>_. Inr [123, 125]),
     js_null = JNull,
     js_of_int = JInt,
     js_of_str = JStr,
     js_set = (\<lambda>k v j. JObj ((k, v) # jobj j)),
     js_at = (\<lambda>j k. case map_of (jobj j) k of Some v \<Rightarrow> Inr v | None \<Rightarrow> Inl (RuntimeError ''key'')),
     js_has = (\<lambda>j k. k \<in> set (map fst (jobj j))),
     js_empty = (\<lambda>j. j = JNull \<or> j = JObj []),
     js_is_null = (\<lambda>j. j = JNull),
     js_u32 = (\<lambda>j. case j of JInt i \<Rightarrow> Inr (word_of_int i) | _ \<Rightarrow> Inl (RuntimeError ''type'')),
     js_int = (\<lambda>j. case j of JInt i \<Rightarrow> Inr i | _ \<Rightarrow> Inl (RuntimeError ''type'')),
     js_str = (\<lambda>j. case j of JStr s \<Rightarrow> Inr s | _ \<Rightarrow> Inl (RuntimeError ''type'')),
     en_toEnum = (\<lambda>s m. case map_of (map (\<lambda>(a, b). (b, a)) m) s of Some x \<Rightarrow> Inr x | None \<Rightarrow> Inl (RuntimeError ''enum'')),
     en_toString = (\<lambda>m x. case map_of m x of Some s \<Rightarrow> s | None \<Rightarrow> []),
     url_parts = (\<lambda>_. None)\<rparr>"

lemma demo_env_laws: "json_laws (demo_env p)"
  by (auto simp: json_laws_def demo_env_def method_map_def)

definition demo_request :: "demo_json request" where
  "demo_request = \<lparr>rq_base = \<lparr>rb_id = 7, rb_method = mGET, rb_uri = ''/status'', rb_sessionId = ''s1'', rb_data = JStr ''x''\<rparr>,
     rq_from = ''client'', rq_connection = 3\<rparr>"

lemma demo_request_normal: "uri_normal (rb_uri (rq_base demo_request))"
  by (simp add: demo_request_def uri_normal_def slash_def)

text \<open>A request survives the wire: a request with a normalised URI and data that is null or not
  empty is rebuilt from its own JSON exactly, sender included.\<close>

lemma request_roundtrip:
  assumes "json_laws env" and "uri_normal (rb_uri (rq_base r))" and "data_kept env (rb_data (rq_base r))"
    and "js_parse env msg = Inr (request_toJson env r)"
  shows "request_new env (rq_connection r) msg = Inr r"
proof -
  have "reqbase_fromJson env (request_toJson env r) (reqbase_new env) = Inr (rq_base r)"
    using assms(1-3) by (rule reqbase_roundtrip) (auto simp: request_toJson_def json_lawsD [OF assms(1)])
  then show ?thesis
    using assms(1,4) by (cases r) (simp add: request_new_def request_fromJson_def request_toJson_def json_lawsD)
qed

lemma request_roundtrip_witness:
  "request_new (demo_env (request_toJson (demo_env JNull) demo_request)) 3 [1] = Inr demo_request"
proof -
  let ?env = "demo_env (request_toJson (demo_env JNull) demo_request)"
  have same: "request_toJson ?env demo_request = request_toJson (demo_env JNull) demo_request"
    by (simp add: request_toJson_def reqbase_toJson_def demo_env_def method_name_def Let_def)
  have "data_kept ?env (rb_data (rq_base demo_request))"
    by (simp add: data_kept_def demo_env_def demo_request_def)
  moreover have "js_parse ?env [1] = Inr (request_toJson ?env demo_request)"
    unfolding same by (simp add: demo_env_def)
  ultimately show ?thesis
    using request_roundtrip [OF demo_env_laws demo_request_normal] by (simp add: demo_request_def)
qed

lemma response_init_new:
  assumes "uri_normal (rb_uri from)"
  shows "response_init from (reqbase_new env)
    = \<lparr>rb_id = rb_id from, rb_method = rb_method from, rb_uri = rb_uri from, rb_sessionId = [], rb_data = js_null env\<rparr>"
  using set_uri_same [OF assms] by (simp add: response_init_def set_uri_def reqbase_new_def)

lemma response_data_roundtrip:
  assumes "json_laws env" and "uri_normal (rb_uri b)" and "data_kept env d"
  shows "response_fromJson env (response_toJson env (response_new_data env b d))
      \<lparr>rs_base = reqbase_new env, rs_code = 0, rs_status = []\<rparr> = Inr (response_new_data env b d)"
proof -
  let ?j = "response_toJson env (response_new_data env b d)" and ?b = "(response_init b (reqbase_new env))\<lparr>rb_data := d\<rparr>"
  note L = json_lawsD [OF assms(1)]
  have "reqbase_fromJson env ?j (reqbase_new env) = Inr ?b"
    using assms(1) by (rule reqbase_roundtrip)
      (use assms(2,3) in \<open>auto simp: response_init_new response_toJson_def response_new_data_def L\<close>)
  moreover have "js_at env ?j ''code'' = Inr (js_of_int env 200)" "js_at env ?j ''status'' = Inr (js_of_str env ''OK'')"
    by (simp_all add: response_toJson_def response_new_data_def L)
  ultimately show ?thesis by (simp add: response_fromJson_def L response_new_data_def)
qed

text \<open>A client can match a reply with its request: the message that \<open>reply(code, status)\<close> writes
  decodes to a response with the id, the method and the URI of the request, and the code and the
  status given; to a connection that is gone nothing is written.\<close>

lemma reply_carries_request:
  assumes "json_laws env" and "js_is_null env (js_null env)" and "uri_normal (rb_uri (rq_base r))"
    and "\<bar>code\<bar> < 2 ^ 31" and "js_dump env (response_toJson env (response_new_status env (rq_base r) code status)) = Inr text"
    and "js_parse env text = Inr (response_toJson env (response_new_status env (rq_base r) code status))"
  shows "reply_status env True r code status = [scgi_message text] \<and> reply_status env False r code status = []
    \<and> rbind (js_parse env text) (\<lambda>j. response_fromJson env j \<lparr>rs_base = reqbase_new env, rs_code = 0, rs_status = []\<rparr>)
      = Inr \<lparr>rs_base = \<lparr>rb_id = rb_id (rq_base r), rb_method = rb_method (rq_base r), rb_uri = rb_uri (rq_base r),
               rb_sessionId = [], rb_data = js_null env\<rparr>, rs_code = code, rs_status = status\<rparr>"
proof -
  let ?b = "response_init (rq_base r) (reqbase_new env)"
  let ?j = "response_toJson env (response_new_status env (rq_base r) code status)"
  note L = json_lawsD [OF assms(1)]
  have b: "?b = \<lparr>rb_id = rb_id (rq_base r), rb_method = rb_method (rq_base r), rb_uri = rb_uri (rq_base r),
               rb_sessionId = [], rb_data = js_null env\<rparr>"
    using assms(3) by (rule response_init_new)
  have "reqbase_fromJson env ?j (reqbase_new env) = Inr ?b"
    using assms(1) by (rule reqbase_roundtrip)
      (use assms(2,3) in \<open>auto simp: b data_kept_def response_toJson_def response_new_status_def L\<close>)
  moreover have "js_at env ?j ''code'' = Inr (js_of_int env code)" "js_at env ?j ''status'' = Inr (js_of_str env status)"
    by (simp_all add: response_toJson_def response_new_status_def L)
  ultimately show ?thesis
    using assms(4-6) by (simp add: reply_status_def write_response_def response_fromJson_def L b)
qed

lemma reply_carries_request_witness:
  "reply_status (demo_env (response_toJson (demo_env JNull) (response_new_status (demo_env JNull) (rq_base demo_request) 404 ''Not found'')))
     True demo_request 404 ''Not found'' = [scgi_message [123, 125]]"
proof -
  let ?env = "demo_env (response_toJson (demo_env JNull) (response_new_status (demo_env JNull) (rq_base demo_request) 404 ''Not found''))"
  have same: "response_toJson ?env (response_new_status ?env (rq_base demo_request) 404 ''Not found'')
    = response_toJson (demo_env JNull) (response_new_status (demo_env JNull) (rq_base demo_request) 404 ''Not found'')"
    by (simp add: response_toJson_def reqbase_toJson_def demo_env_def method_name_def response_new_status_def
        reqbase_new_def Let_def)
  have "js_is_null ?env (js_null ?env)" by (simp add: demo_env_def)
  moreover have "js_dump ?env (response_toJson ?env (response_new_status ?env (rq_base demo_request) 404 ''Not found'')) = Inr [123, 125]"
    by (simp add: demo_env_def)
  moreover have "js_parse ?env [123, 125] = Inr (response_toJson ?env (response_new_status ?env (rq_base demo_request) 404 ''Not found''))"
    unfolding same by (simp add: demo_env_def)
  ultimately show ?thesis
    using reply_carries_request [OF demo_env_laws _ demo_request_normal, of _ 404 "''Not found''" "[123, 125]"] by simp
qed

subsection \<open>Which handler runs\<close>

text \<open>The invariant of \<open>std::map\<close>: the keys ascend.\<close>

definition handlers_ok :: "(string \<times> 'v) list \<Rightarrow> bool" where
  "handlers_ok m \<longleftrightarrow> sorted_wrt (<) (map fst m)"

lemma map_put_keys: "set (map fst (map_put k v m)) = insert k (set (map fst m))"
  by (induction k v m rule: map_put.induct) auto

lemma map_put_ok: "handlers_ok m \<Longrightarrow> handlers_ok (map_put k v m)"
  unfolding handlers_ok_def
proof (induction k v m rule: map_put.induct)
  case (2 k v k' v' m)
  have gt: "k' < x" if "x \<in> set (map fst m)" for x using 2(2) that by auto
  consider "k < k'" | "k = k'" | "k' < k" by (rule linorder_cases)
  then show ?case
  proof cases
    case 1
    then have "k < x" if "x \<in> set (map fst m)" for x using gt [OF that] by (rule less_trans)
    then show ?thesis using 1 2(2) by simp
  next
    case 2
    then show ?thesis using \<open>sorted_wrt (<) (map fst ((k', v') # m))\<close> by simp
  next
    case 3
    then have ne: "\<not> k < k'" "k \<noteq> k'" by auto
    have "k' < x" if "x \<in> set (map fst (map_put k v m))" for x
      using that gt 3 unfolding map_put_keys by auto
    then show ?thesis using 2(1) [OF ne] 2(2) ne by simp
  qed
qed simp

lemma map_put_lookup: "handlers_ok m \<Longrightarrow> map_of (map_put k v m) = (map_of m)(k \<mapsto> v)"
  unfolding handlers_ok_def
proof (induction k v m rule: map_put.induct)
  case (2 k v k' v' m)
  then show ?case by (cases "k < k'") (auto simp: fun_eq_iff)
qed auto

lemma map_erase_ok: "handlers_ok m \<Longrightarrow> handlers_ok (map_erase k m)"
  unfolding handlers_ok_def map_erase_def by (induction m) auto

lemma map_erase_lookup: "map_of (map_erase k m) = (map_of m)(k := None)"
  unfolding map_erase_def by (induction m) (auto simp: fun_eq_iff)

lemma find_handler_Some:
  "handlers_ok m \<Longrightarrow> find_handler rx uri m = Inr (Some h) \<Longrightarrow>
    \<exists>p. map_of m p = Some h \<and> rx p uri = Inr True \<and> (\<forall>q. map_of m q \<noteq> None \<and> q < p \<longrightarrow> rx q uri = Inr False)"
  unfolding handlers_ok_def
proof (induction rx uri m rule: find_handler.induct)
  case (2 rx uri p' h' m)
  have gt: "p' < q" if "map_of m q \<noteq> None" for q
    using 2(2) that by (force dest!: map_of_SomeD)
  show ?case
  proof (cases "rx p' uri = Inr True")
    case True
    then have "h' = h" using 2(3) by simp
    moreover have "\<not> q < p'" if "map_of ((p', h') # m) q \<noteq> None" for q
      using gt [of q] that by (auto split: if_splits dest: less_asym)
    ultimately show ?thesis using True by (intro exI [of _ p']) auto
  next
    case False
    then have f: "rx p' uri = Inr False" "find_handler rx uri m = Inr (Some h)"
      using 2(3) by (auto simp: rbind_eq_Inr split: if_splits)
    have "sorted_wrt (<) (map fst m)" using 2(2) by simp
    then obtain p where p: "map_of m p = Some h" "rx p uri = Inr True"
      "\<And>q. map_of m q \<noteq> None \<Longrightarrow> q < p \<Longrightarrow> rx q uri = Inr False"
      using 2(1) [of False] f by auto
    have "p \<noteq> p'" using gt [of p] p(1) by auto
    moreover have "rx q uri = Inr False" if "map_of ((p', h') # m) q \<noteq> None" "q < p" for q
      using that p(3) f(1) by (cases "q = p'") auto
    ultimately show ?thesis using p(1,2) by (intro exI [of _ p]) auto
  qed
qed simp

lemma find_handler_least:
  "handlers_ok m \<Longrightarrow> map_of m p = Some h \<Longrightarrow> rx p uri = Inr True \<Longrightarrow>
    (\<And>q. map_of m q \<noteq> None \<Longrightarrow> q < p \<Longrightarrow> rx q uri = Inr False) \<Longrightarrow> find_handler rx uri m = Inr (Some h)"
  unfolding handlers_ok_def
proof (induction rx uri m rule: find_handler.induct)
  case (2 rx uri p' h' m)
  show ?case
  proof (cases "p = p'")
    case False
    then have m: "map_of m p = Some h" using 2(3) by simp
    then have "p \<in> set (map fst m)" by (force dest: map_of_SomeD)
    then have "p' < p" using 2(2) by auto
    then have f: "rx p' uri = Inr False" using 2(5) [of p'] by simp
    have keys: "map_of ((p', h') # m) q \<noteq> None" if "map_of m q \<noteq> None" for q using that by auto
    have "find_handler rx uri m = Inr (Some h)"
      using 2(1) [of False] 2(2,4) 2(5) [OF keys] m f by simp
    then show ?thesis using f by simp
  qed (use 2(3,4) in simp)
qed simp

lemma find_handler_None:
  "find_handler rx uri m = Inr None \<longleftrightarrow> (\<forall>p \<in> set (map fst m). rx p uri = Inr False)"
proof (induction rx uri m rule: find_handler.induct)
  case (2 rx uri p h m)
  then show ?case by (cases "rx p uri") (auto split: if_splits)
qed simp

text \<open>C34: the dispatcher runs the right handler. After any \<open>add\<close> the handlers are those registered, the
  newest for a pattern. A request goes to a handler exactly when that is registered with a pattern that
  matches its URI while every lesser pattern does not. Exactly when every registered pattern can be tried and none matches, the dispatcher replies itself,
  with a response to the request that has the code 404 and the status Not found.\<close>

theorem dispatcher_runs_matching:
  assumes "handlers_ok (dp_handlers ds)"
  shows "handlers_ok (dp_handlers (dispatcher_add pat h ds))
    \<and> handlers_ok (dp_handlers (dispatcher_remove pat ds))
    \<and> map_of (dp_handlers (dispatcher_remove pat ds)) = (map_of (dp_handlers ds))(createPattern pat := None)
    \<and> (h = Some hn \<longrightarrow> map_of (dp_handlers (dispatcher_add pat h ds)) = (map_of (dp_handlers ds))(createPattern pat \<mapsto> hn))
    \<and> (dispatcher_exec env rx alive ds r = Inr (Called k) \<longleftrightarrow>
         (\<exists>p. map_of (dp_handlers ds) p = Some k \<and> rx p (rb_uri (rq_base r)) = Inr True
            \<and> (\<forall>q. map_of (dp_handlers ds) q \<noteq> None \<and> q < p \<longrightarrow> rx q (rb_uri (rq_base r)) = Inr False)))
    \<and> (dispatcher_exec env rx alive ds r = Inr (Replied ws)
         \<longleftrightarrow> (\<forall>p \<in> set (map fst (dp_handlers ds)). rx p (rb_uri (rq_base r)) = Inr False)
            \<and> ws = write_response env alive
                \<lparr>rs_base = response_init (rq_base r) (reqbase_new env), rs_code = 404, rs_status = ''Not found''\<rparr>)"
proof -
  have "dispatcher_exec env rx alive ds r = Inr (Called k)
      \<longleftrightarrow> find_handler rx (rb_uri (rq_base r)) (dp_handlers ds) = Inr (Some k)"
    by (auto simp: dispatcher_exec_def rbind_eq_Inr split: option.splits)
  also have "\<dots> \<longleftrightarrow> (\<exists>p. map_of (dp_handlers ds) p = Some k \<and> rx p (rb_uri (rq_base r)) = Inr True
            \<and> (\<forall>q. map_of (dp_handlers ds) q \<noteq> None \<and> q < p \<longrightarrow> rx q (rb_uri (rq_base r)) = Inr False))"
    using find_handler_Some [OF assms] find_handler_least [OF assms] by blast
  finally have called: "dispatcher_exec env rx alive ds r = Inr (Called k)
      \<longleftrightarrow> (\<exists>p. map_of (dp_handlers ds) p = Some k \<and> rx p (rb_uri (rq_base r)) = Inr True
            \<and> (\<forall>q. map_of (dp_handlers ds) q \<noteq> None \<and> q < p \<longrightarrow> rx q (rb_uri (rq_base r)) = Inr False))" .
  moreover have "dispatcher_exec env rx alive ds r = Inr (Replied ws)
      \<longleftrightarrow> find_handler rx (rb_uri (rq_base r)) (dp_handlers ds) = Inr None
        \<and> ws = write_response env alive
            \<lparr>rs_base = response_init (rq_base r) (reqbase_new env), rs_code = 404, rs_status = ''Not found''\<rparr>"
    by (auto simp: dispatcher_exec_def rbind_eq_Inr reply_status_def response_new_status_def split: option.splits)
  ultimately show ?thesis
    using assms find_handler_None unfolding called
    by (simp add: dispatcher_add_def dispatcher_remove_def map_put_ok map_put_lookup map_erase_ok map_erase_lookup
        split: option.splits)
qed

text \<open>A request for \<open>/status\<close> among two handlers: the one whose pattern matches is called; without it the reply
  is the message of the response.\<close>

definition demo_dispatcher :: "demo_json dispatcher" where
  "demo_dispatcher = dispatcher_add ''/status'' (Some 4) (dispatcher_add ''/a'' (Some 3) \<lparr>dp_handlers = [], dp_posted = []\<rparr>)"

theorem dispatcher_runs_matching_witness:
  "dispatcher_exec (demo_env JNull) (\<lambda>_ _. Inr False) True demo_dispatcher demo_request = Inr (Replied [scgi_message [123, 125]])
   \<and> dispatcher_exec (demo_env JNull) (\<lambda>p _. Inr (p = createPattern ''/status'')) True demo_dispatcher demo_request = Inr (Called 4)"
proof -
  have ok: "handlers_ok (dp_handlers demo_dispatcher)"
    using less_linear [of "createPattern ''/status''" "createPattern ''/a''"]
    by (auto simp: demo_dispatcher_def dispatcher_add_def handlers_ok_def)
  note * = dispatcher_runs_matching [OF ok, THEN conjunct2, THEN conjunct2, THEN conjunct2, THEN conjunct2]
  have found: "map_of (dp_handlers demo_dispatcher) (createPattern ''/status'') = Some 4"
    by (auto simp: demo_dispatcher_def dispatcher_add_def)
  have "dispatcher_exec (demo_env JNull) (\<lambda>_ _. Inr False) True demo_dispatcher demo_request = Inr (Replied [scgi_message [123, 125]])"
    using * [of "demo_env JNull" "\<lambda>_ _. Inr False" True demo_request 4 "[scgi_message [123, 125]]"]
    by (simp add: write_response_def demo_env_def)
  moreover have "dispatcher_exec (demo_env JNull) (\<lambda>p _. Inr (p = createPattern ''/status'')) True demo_dispatcher demo_request = Inr (Called 4)"
    using * [of "demo_env JNull" "\<lambda>p _. Inr (p = createPattern ''/status'')" True demo_request 4 "[]"] found by auto
  ultimately show ?thesis by blast
qed

subsection \<open>From the wire to the strand\<close>

text \<open>The requests among some messages, as \<open>onMessage\<close> posts them.\<close>

definition requests_of :: "'j env \<Rightarrow> nat \<Rightarrow> bytes list \<Rightarrow> 'j request list" where
  "requests_of env con ms = concat (map (\<lambda>m. case request_new env con m of Inl _ \<Rightarrow> [] | Inr r \<Rightarrow> [r]) ms)"

lemma onMessage_accepts: "fst (dispatcher_onMessage env con m ds) = Inr True"
  by (simp add: dispatcher_onMessage_def split: sum.splits)

lemma fold_onMessage:
  "fold (\<lambda>m d. snd (dispatcher_onMessage env con m d)) ms ds = ds\<lparr>dp_posted := dp_posted ds @ requests_of env con ms\<rparr>"
proof (induction ms arbitrary: ds)
  case (Cons m ms)
  then show ?case by (simp add: dispatcher_onMessage_def requests_of_def split: sum.splits)
qed (simp add: requests_of_def)

text \<open>From the wire to the strand: whatever texts a client sends, in whatever cuts they arrive, the
  requests posted to the dispatcher's strand are exactly those of the texts of 1 to 1048576 bytes that
  are valid requests, in order; a text that is not one does no harm, the connection stays open.\<close>

lemma scgi_requests_posted:
  assumes "concat chunks = concat (map scgi_message ms)" and "\<forall>m \<in> set ms. length m < 2 ^ 32"
  shows "\<exists>p. fold (scgi_feed (dispatcher_onMessage env con)) chunks (scgi_start ds)
    = Inr (True, p, ds\<lparr>dp_posted := dp_posted ds @ requests_of env con (filter deliverable ms)\<rparr>) \<and> sp_closed p = 0"
  using scgi_deliver_all [of chunks ms "dispatcher_onMessage env con" ds, OF assms onMessage_accepts]
  unfolding fold_onMessage .

lemma scgi_requests_posted_witness:
  "\<exists>p. fold (scgi_feed (dispatcher_onMessage (demo_env JNull) 3)) [scgi_header 1, [65]] (scgi_start (\<lparr>dp_handlers = [], dp_posted = []\<rparr> :: demo_json dispatcher))
    = Inr (True, p, \<lparr>dp_handlers = [], dp_posted = []\<rparr>)"
proof -
  have "concat [scgi_header 1, [65]] = concat (map scgi_message [[65]])"
    by (simp add: scgi_message_def)
  from scgi_requests_posted [OF this, of "demo_env JNull" 3 "\<lparr>dp_handlers = [], dp_posted = []\<rparr>"]
  show ?thesis
    by (auto simp: deliverable_def requests_of_def request_new_def request_fromJson_def reqbase_fromJson_def demo_env_def)
qed

end
