(* ===== verification/Scgi_Server.thy ===== *)
theory Scgi_Server
  imports Scgi_Service
begin

section \<open>SCGI server: the pool of connections (scgi/pool.cpp, server.cpp, engine.cpp)\<close>

text \<open>
  The pool holds weak pointers to the connections it created. A connection object exists while its
  parser or a pending read holds it (\<open>wd_live\<close>); its destructor calls back \<open>freeConnection\<close>. The map
  from identifiers is the ascending list of its keys, and identifiers come from the process-wide
  counter of \<open>create_id\<close>.
\<close>

record pool =
  po_maxSize :: nat
  po_connections :: "nat list"
  po_shutdown :: bool

definition pool_new :: "nat \<Rightarrow> pool" where
  "pool_new maxSize = \<lparr>po_maxSize = maxSize, po_connections = [], po_shutdown = False\<rparr>"

text \<open>The counter is incremented by the constructor of the connection, which runs only below the limit.\<close>

definition create_id :: "nat \<Rightarrow> nat \<times> nat" where
  "create_id n = (n + 1, n + 1)"

definition getConnection :: "pool \<Rightarrow> nat \<Rightarrow> nat option \<times> pool \<times> nat" where
  "getConnection po counter =
     (if po_shutdown po then (None, po, counter)
      else if length (po_connections po) < po_maxSize po then
        (case create_id counter of
           (cid, counter) \<Rightarrow> (Some cid, po\<lparr>po_connections := insort cid (remove1 cid (po_connections po))\<rparr>, counter))
      else (None, po, counter))"

definition freeConnection :: "nat \<Rightarrow> pool \<Rightarrow> bool \<times> pool" where
  "freeConnection cid po =
     (if po_shutdown po then (False, po)
      else if cid \<in> set (po_connections po)
      then (True, po\<lparr>po_connections := remove1 cid (po_connections po)\<rparr>)
      else (False, po))"

text \<open>\<open>shutdown\<close> closes the connections that still exist; the second call does nothing.\<close>

definition pool_shutdown :: "nat set \<Rightarrow> pool \<Rightarrow> nat list \<times> pool" where
  "pool_shutdown live po =
     (if po_shutdown po then ([], po)
      else (filter (\<lambda>cid. cid \<in> live) (po_connections po), po\<lparr>po_shutdown := True\<rparr>))"

subsection \<open>The server\<close>

text \<open>
  The world of a server: its pool, the existing connections each with its parser, the connections it
  closed, the counter of identifiers, and the number of pending \<open>async_accept\<close> operations. The
  callback of \<open>accept\<close> runs for a new socket; it makes a connection and a parser or drops the socket,
  and then accepts again.
\<close>

record world =
  wd_pool :: pool
  wd_live :: "nat \<rightharpoonup> scgi_parser"
  wd_closed :: "nat set"
  wd_counter :: nat
  wd_accepts :: nat
  wd_running :: bool

definition server_accept :: "world \<Rightarrow> world" where
  "server_accept w = w\<lparr>wd_accepts := wd_accepts w + 1\<rparr>"

definition server_new :: "nat \<Rightarrow> nat \<Rightarrow> world" where
  "server_new maxSize counter =
     server_accept \<lparr>wd_pool = pool_new maxSize, wd_live = (\<lambda>_. None), wd_closed = {}, wd_counter = counter,
                    wd_accepts = 0, wd_running = True\<rparr>"

definition engine_new :: "nat \<Rightarrow> nat \<Rightarrow> world" where
  "engine_new maxSize counter = server_new maxSize counter"

definition server_onAccept :: "world \<Rightarrow> world" where
  "server_onAccept w =
     (case getConnection (wd_pool w) (wd_counter w) of
        (Some cid, po, n) \<Rightarrow>
          server_accept (w\<lparr>wd_pool := po, wd_counter := n, wd_live := (wd_live w)(cid \<mapsto> scgi_parser_new)\<rparr>)
      | (None, po, n) \<Rightarrow> server_accept (w\<lparr>wd_pool := po, wd_counter := n\<rparr>))"

definition connection_destroyed :: "nat \<Rightarrow> world \<Rightarrow> world" where
  "connection_destroyed cid w =
     w\<lparr>wd_live := (wd_live w)(cid := None), wd_pool := snd (freeConnection cid (wd_pool w))\<rparr>"

text \<open>The destructor cancels the listener, whose pending operation ends with an error that calls nothing,
  and shuts the pool down.\<close>

definition server_destroy :: "world \<Rightarrow> world" where
  "server_destroy w =
     (case pool_shutdown (dom (wd_live w)) (wd_pool w) of
        (cids, po) \<Rightarrow> w\<lparr>wd_pool := po, wd_closed := wd_closed w \<union> set cids, wd_accepts := 0, wd_running := False\<rparr>)"

text \<open>What can happen to a server, in any order: a client connects, a connection object is destroyed, an
  accept fails, the server is destroyed.\<close>

inductive srv_step :: "world \<Rightarrow> world \<Rightarrow> bool" where
  accepted: "0 < wd_accepts w \<Longrightarrow> srv_step w (server_onAccept (w\<lparr>wd_accepts := wd_accepts w - 1\<rparr>))"
| accept_error: "0 < wd_accepts w \<Longrightarrow> srv_step w (w\<lparr>wd_accepts := wd_accepts w - 1\<rparr>)"
| destroyed: "cid \<in> dom (wd_live w) \<Longrightarrow> srv_step w (connection_destroyed cid w)"
| shut: "wd_running w \<Longrightarrow> srv_step w (server_destroy w)"

inductive srv_reach :: "nat \<Rightarrow> nat \<Rightarrow> world \<Rightarrow> bool" for maxSize counter where
  start: "srv_reach maxSize counter (server_new maxSize counter)"
| step: "srv_reach maxSize counter w \<Longrightarrow> srv_step w w' \<Longrightarrow> srv_reach maxSize counter w'"

inductive_cases srv_stepE: "srv_step w w'"

text \<open>The invariant: the pool knows exactly the existing connections until it is shut down.\<close>

definition srv_inv :: "nat \<Rightarrow> world \<Rightarrow> bool" where
  "srv_inv maxSize w \<longleftrightarrow>
     po_maxSize (wd_pool w) = maxSize \<and> finite (dom (wd_live w)) \<and> card (dom (wd_live w)) \<le> maxSize \<and>
     (\<forall>cid \<in> dom (wd_live w). cid \<le> wd_counter w) \<and> wd_accepts w \<le> 1 \<and>
     (wd_running w \<longrightarrow> \<not> po_shutdown (wd_pool w)) \<and> (po_shutdown (wd_pool w) \<longrightarrow> dom (wd_live w) \<subseteq> wd_closed w \<and> wd_accepts w = 0) \<and>
     (\<not> po_shutdown (wd_pool w) \<longrightarrow> distinct (po_connections (wd_pool w)) \<and> set (po_connections (wd_pool w)) = dom (wd_live w))"

lemma srv_inv_start: "srv_inv maxSize (server_new maxSize counter)"
  by (simp add: srv_inv_def server_new_def server_accept_def pool_new_def)

lemma srv_inv_accept:
  assumes inv: "srv_inv m w" and "0 < wd_accepts w"
  shows "srv_inv m (server_onAccept (w\<lparr>wd_accepts := wd_accepts w - 1\<rparr>))"
proof -
  have one: "wd_accepts w = 1" using assms by (simp add: srv_inv_def)
  then have run: "\<not> po_shutdown (wd_pool w)" using inv by (auto simp: srv_inv_def)
  then have cs: "distinct (po_connections (wd_pool w))" "set (po_connections (wd_pool w)) = dom (wd_live w)"
    using inv by (simp_all add: srv_inv_def)
  then have len: "length (po_connections (wd_pool w)) = card (dom (wd_live w))"
    by (metis distinct_card)
  show ?thesis
  proof (cases "length (po_connections (wd_pool w)) < po_maxSize (wd_pool w)")
    case True
    have fresh: "wd_counter w + 1 \<notin> dom (wd_live w)"
      using inv unfolding srv_inv_def by (metis Suc_eq_plus1 Suc_n_not_le_n)
    then have "wd_counter w + 1 \<notin> set (po_connections (wd_pool w))" using cs by simp
    then have g: "getConnection (wd_pool w) (wd_counter w) = (Some (wd_counter w + 1),
        (wd_pool w)\<lparr>po_connections := insort (wd_counter w + 1) (po_connections (wd_pool w))\<rparr>, wd_counter w + 1)"
      using True run by (simp add: getConnection_def create_id_def remove1_idem)
    have "card (insert (wd_counter w + 1) (dom (wd_live w))) \<le> m"
      using True len fresh inv by (simp add: srv_inv_def)
    then show ?thesis
      using inv one cs fresh run
      by (auto simp: server_onAccept_def g server_accept_def srv_inv_def set_insort_key distinct_insort le_SucI)
  next
    case False
    then show ?thesis using inv one run
      by (simp add: server_onAccept_def getConnection_def server_accept_def srv_inv_def)
  qed
qed

lemma srv_inv_destroyed: "srv_inv m w \<Longrightarrow> srv_inv m (connection_destroyed cid w)"
proof -
  assume inv: "srv_inv m w"
  have "card (dom (wd_live w) - {cid}) \<le> card (dom (wd_live w))"
    using inv by (intro card_mono) (auto simp: srv_inv_def)
  then show ?thesis using inv
    by (cases "cid \<in> dom (wd_live w)")
      (auto simp: srv_inv_def connection_destroyed_def freeConnection_def)
qed

lemma srv_inv_step: "srv_step w w' \<Longrightarrow> srv_inv m w \<Longrightarrow> srv_inv m w'"
proof (induction rule: srv_step.induct)
  case (accepted w)
  then show ?case by (rule srv_inv_accept [rotated])
next
  case (accept_error w)
  then show ?case by (auto simp: srv_inv_def)
next
  case (destroyed cid w)
  then show ?case by (simp add: srv_inv_destroyed)
next
  case (shut w)
  then show ?case by (auto simp: srv_inv_def server_destroy_def pool_shutdown_def)
qed

text \<open>The pool bounds the server: at every moment of every run at most \<open>maxSize\<close> connection objects
  exist, and while the server runs the pool knows exactly those that exist, so a connection that is
  destroyed always makes room for a new one. After the shutdown the pool may list connections that are gone.
  (\<open>Scgi_Threads\<close> has this with the calls of the pool interleaved.)\<close>

lemma pool_bounds_connections:
  assumes "srv_reach maxSize counter w"
  shows "card (dom (wd_live w)) \<le> maxSize \<and>
    (wd_running w \<longrightarrow> set (po_connections (wd_pool w)) = dom (wd_live w))"
proof -
  from assms have "srv_inv maxSize w"
    by (induction rule: srv_reach.induct) (auto intro: srv_inv_start srv_inv_step)
  then show ?thesis by (auto simp: srv_inv_def)
qed

lemma pool_bounds_connections_witness:
  "card (dom (wd_live (server_onAccept ((server_new 1 1000000)\<lparr>wd_accepts := 0\<rparr>)))) \<le> 1"
proof -
  have "srv_step (server_new 1 1000000) (server_onAccept ((server_new 1 1000000)\<lparr>wd_accepts := wd_accepts (server_new 1 1000000) - 1\<rparr>))"
    by (rule srv_step.accepted) (simp add: server_new_def server_accept_def)
  then have "srv_reach 1 1000000 (server_onAccept ((server_new 1 1000000)\<lparr>wd_accepts := 0\<rparr>))"
    using srv_reach.step [OF srv_reach.start] by (simp add: server_new_def server_accept_def)
  from pool_bounds_connections [OF this] show ?thesis by blast
qed

text \<open>One failed accept ends the service: the callback that would accept again is not called for an
  error, so from then on, whatever happens, no operation to accept is pending and no connection is
  ever added.\<close>

lemma accept_error_is_final:
  assumes "rtranclp srv_step w w'" and "wd_accepts w = 0"
  shows "wd_accepts w' = 0 \<and> dom (wd_live w') \<subseteq> dom (wd_live w)"
  using assms
proof (induction rule: rtranclp_induct)
  case (step y z)
  then have y: "wd_accepts y = 0" "dom (wd_live y) \<subseteq> dom (wd_live w)" by auto
  from step(2) have "wd_accepts z = 0 \<and> dom (wd_live z) \<subseteq> dom (wd_live y)"
    by (cases rule: srv_stepE) (use y(1) in \<open>auto simp: connection_destroyed_def server_destroy_def split: prod.splits if_splits\<close>)
  then show ?case using y(2) by blast
qed simp

lemma accept_error_is_final_witness:
  "wd_accepts (connection_destroyed 7 ((server_new 1 1000000)\<lparr>wd_accepts := 0, wd_live := [7 \<mapsto> scgi_parser_new]\<rparr>)) = 0"
proof -
  let ?w = "(server_new 1 1000000)\<lparr>wd_accepts := 0, wd_live := [7 \<mapsto> scgi_parser_new]\<rparr>"
  have "srv_step ?w (connection_destroyed 7 ?w)" by (rule srv_step.destroyed) simp
  then have "rtranclp srv_step ?w (connection_destroyed 7 ?w)" by blast
  from accept_error_is_final [OF this] show ?thesis by simp
qed

end
