(* ===== verification/Sockets.thy ===== *)
theory Sockets
  imports Scgi_Parser
begin

section \<open>Sockets: messages, connections and their write queue (sockets/)\<close>

text \<open>
  \<open>BaseConnection\<close> serialises the writes of a connection on a strand: a queue of messages of which the
  front one is being sent. The asynchronous operations of boost::asio are events: an operation that is
  started is pending until it completes with an error code. TCP, UDP and websocket connections supply
  \<open>send\<close> and the completion handlers of connect, read and receive.
\<close>

subsection \<open>Message\<close>

text \<open>
  \<open>data_\<close> owns the parts in the order they were added, \<open>buffer_\<close> refers to them in the order they are
  sent. \<open>port_\<close> has no initialiser, so a new message has the arbitrary port \<open>junk\<close>.
\<close>

record smsg =
  sm_data :: "bytes list"
  sm_buffer :: "bytes list"
  sm_addr :: string
  sm_port :: u16

definition smsg_new :: "u16 \<Rightarrow> bytes \<Rightarrow> smsg" where
  "smsg_new junk d = \<lparr>sm_data = [d], sm_buffer = [d], sm_addr = [], sm_port = junk\<rparr>"

definition smsg_new_count :: "u16 \<Rightarrow> bytes \<Rightarrow> nat \<Rightarrow> smsg result" where
  "smsg_new_count junk d count = rbind (rd 0 count d) (\<lambda>x. Inr (smsg_new junk x))"

definition dataSize :: "smsg \<Rightarrow> nat" where
  "dataSize m = fold (\<lambda>d sz. sz + length d) (sm_data m) 0"

definition destination :: "string \<Rightarrow> u16 \<Rightarrow> smsg \<Rightarrow> smsg" where
  "destination addr port m = m\<lparr>sm_addr := addr, sm_port := port\<rparr>"

definition push_front :: "bytes \<Rightarrow> smsg \<Rightarrow> smsg" where
  "push_front d m = m\<lparr>sm_data := sm_data m @ [d], sm_buffer := d # sm_buffer m\<rparr>"

definition push_back :: "bytes \<Rightarrow> smsg \<Rightarrow> smsg" where
  "push_back d m = m\<lparr>sm_data := sm_data m @ [d], sm_buffer := sm_buffer m @ [d]\<rparr>"

definition wire :: "smsg \<Rightarrow> bytes" where
  "wire m = concat (sm_buffer m)"

inductive smsg_built :: "smsg \<Rightarrow> bool" where
  built_new: "smsg_built (smsg_new junk d)"
| built_front: "smsg_built m \<Longrightarrow> smsg_built (push_front d m)"
| built_back: "smsg_built m \<Longrightarrow> smsg_built (push_back d m)"
| built_dest: "smsg_built m \<Longrightarrow> smsg_built (destination a p m)"

lemma fold_length: "fold (\<lambda>d sz. sz + length d) ds n = n + length (concat ds)"
  by (induction ds arbitrary: n) auto

lemma smsg_size:
  assumes "smsg_built m"
  shows "dataSize m = length (wire m)"
  using assms by (induction)
    (simp_all add: dataSize_def wire_def smsg_new_def push_front_def push_back_def destination_def fold_length)

text \<open>The SCGI message is a message with its header pushed to the front.\<close>

lemma scgi_message_wire: "wire (push_front (scgi_header (length d)) (smsg_new junk d)) = scgi_message d"
  by (simp add: wire_def push_front_def smsg_new_def scgi_message_def)

subsection \<open>The write queue of BaseConnection\<close>

text \<open>
  \<open>bc_posted\<close>, \<open>bc_sent\<close> and \<open>bc_done\<close> record the messages given to \<open>write\<close> in the order the strand
  runs them, those \<open>send\<close> was called with, and those whose send completed; \<open>bc_wire\<close> is what the transport took.
  \<open>snd_ok\<close> says for which messages \<open>send\<close> starts an operation; for the others it throws, which ends the
  strand's handler.
\<close>

record bconn =
  bc_queue :: "smsg list"
  bc_inflight :: nat
  bc_posted :: "smsg list"
  bc_sent :: "smsg list"
  bc_done :: "smsg list"
  bc_wire :: bytes

definition bconn_new :: bconn where
  "bconn_new = \<lparr>bc_queue = [], bc_inflight = 0, bc_posted = [], bc_sent = [], bc_done = [], bc_wire = []\<rparr>"

definition bc_send_front :: "(smsg \<Rightarrow> bool) \<Rightarrow> bconn \<Rightarrow> bconn" where
  "bc_send_front snd_ok c =
     (case bc_queue c of
        [] \<Rightarrow> c
      | m # _ \<Rightarrow> if snd_ok m then c\<lparr>bc_sent := bc_sent c @ [m], bc_inflight := bc_inflight c + 1\<rparr> else c)"

definition bc_write :: "(smsg \<Rightarrow> bool) \<Rightarrow> smsg \<Rightarrow> bconn \<Rightarrow> bconn" where
  "bc_write snd_ok m c =
     (let c = c\<lparr>bc_queue := bc_queue c @ [m], bc_posted := bc_posted c @ [m]\<rparr>
      in if 1 < length (bc_queue c) then c else bc_send_front snd_ok c)"

text \<open>The handler of a send that has ended: the transport has taken \<open>n\<close> bytes of the front message.\<close>

definition bc_handler :: "(smsg \<Rightarrow> bool) \<Rightarrow> bool \<Rightarrow> nat \<Rightarrow> bconn \<Rightarrow> bconn" where
  "bc_handler snd_ok err n c =
     (let c = c\<lparr>bc_inflight := bc_inflight c - 1, bc_wire := bc_wire c @ take n (concat (map wire (take 1 (bc_queue c))))\<rparr>
      in if \<not> err then
           (let c = c\<lparr>bc_done := bc_done c @ take 1 (bc_queue c), bc_queue := tl (bc_queue c)\<rparr>
            in if bc_queue c \<noteq> [] then bc_send_front snd_ok c else c)
         else c)"

text \<open>\<open>whole\<close> says that the transport ends a send without error only when it has taken the message as a whole, as
  datagrams and websocket messages are; the \<open>async_send\<close> of a TCP socket may have taken a part of it.\<close>

inductive bc_step :: "(smsg \<Rightarrow> bool) \<Rightarrow> bool \<Rightarrow> bconn \<Rightarrow> bconn \<Rightarrow> bool" for snd_ok whole where
  posted: "bc_step snd_ok whole c (bc_write snd_ok m c)"
| completed: "0 < bc_inflight c \<Longrightarrow> bc_queue c = m # q \<Longrightarrow> n \<le> length (wire m) \<Longrightarrow> (whole \<longrightarrow> n = length (wire m)) \<Longrightarrow>
    bc_step snd_ok whole c (bc_handler snd_ok False n c)"
| failed: "0 < bc_inflight c \<Longrightarrow> bc_step snd_ok whole c (bc_handler snd_ok True n c)"

inductive_cases bc_stepE: "bc_step snd_ok whole c c'"

text \<open>Stuck: messages wait and no operation is pending that could send them.\<close>

definition bc_stuck :: "bconn \<Rightarrow> bool" where
  "bc_stuck c \<longleftrightarrow> bc_inflight c = 0 \<and> bc_queue c \<noteq> []"

definition bc_inv :: "bool \<Rightarrow> bconn \<Rightarrow> bool" where
  "bc_inv whole c \<longleftrightarrow> bc_posted c = bc_done c @ bc_queue c \<and> bc_inflight c \<le> 1
     \<and> (bc_inflight c = 1 \<longrightarrow> bc_queue c \<noteq> [] \<and> bc_sent c = bc_done c @ [hd (bc_queue c)])
     \<and> (bc_queue c = [] \<longrightarrow> bc_sent c = bc_done c)
     \<and> (bc_stuck c \<longrightarrow> bc_sent c = bc_done c \<or> bc_sent c = bc_done c @ [hd (bc_queue c)])
     \<and> (whole \<and> \<not> bc_stuck c \<longrightarrow> bc_wire c = concat (map wire (bc_done c)))"

lemma bc_inv_new: "bc_inv whole bconn_new"
  by (simp add: bc_inv_def bconn_new_def bc_stuck_def)

lemma bc_inv_write: "bc_inv whole c \<Longrightarrow> bc_inv whole (bc_write ok m c)"
  by (cases "bc_queue c") (auto simp: bc_inv_def bc_write_def bc_send_front_def bc_stuck_def Let_def)

lemma bc_inv_handler:
  assumes "bc_inv whole c" and "0 < bc_inflight c" and "\<not> err \<longrightarrow> whole \<longrightarrow> n = length (wire (hd (bc_queue c)))"
  shows "bc_inv whole (bc_handler ok err n c)"
proof -
  obtain m q where q: "bc_queue c = m # q" using assms by (cases "bc_queue c") (auto simp: bc_inv_def)
  then show ?thesis using assms
    by (cases q) (auto simp: bc_inv_def bc_handler_def bc_send_front_def bc_stuck_def Let_def)
qed

lemma bc_inv_step: "bc_step ok whole c c' \<Longrightarrow> bc_inv whole c \<Longrightarrow> bc_inv whole c'"
  by (erule bc_stepE) (auto intro: bc_inv_write bc_inv_handler)

lemma bc_inv_reach: "rtranclp (bc_step ok whole) bconn_new c \<Longrightarrow> bc_inv whole c"
  by (induction rule: rtranclp_induct) (auto intro: bc_inv_new bc_inv_step)

text \<open>C18: a connection writes in order and one message at a time: in every run, what was given to \<open>send\<close>
  is a prefix of what was posted, at most one operation is pending, and when none is pending and the
  queue is empty every posted message has been sent, once and in order; over a transport that takes messages as a
  whole, what it has taken then is the bytes of the posted messages, one after the other.\<close>

theorem writes_in_order:
  assumes "rtranclp (bc_step snd_ok whole) bconn_new c"
  shows "(\<exists>rest. bc_posted c = bc_sent c @ rest) \<and> bc_inflight c \<le> 1
    \<and> (bc_queue c = [] \<longrightarrow> bc_sent c = bc_posted c \<and> bc_done c = bc_posted c
         \<and> (whole \<longrightarrow> bc_wire c = concat (map wire (bc_posted c))))"
proof -
  have inv: "bc_inv whole c" using assms by (rule bc_inv_reach)
  show ?thesis
  proof (cases "bc_queue c")
    case Nil
    then show ?thesis using inv by (simp add: bc_inv_def bc_stuck_def)
  next
    case (Cons m q)
    then have "bc_sent c = bc_done c \<or> bc_sent c = bc_done c @ [m]"
      using inv by (cases "bc_inflight c") (auto simp: bc_inv_def bc_stuck_def)
    then show ?thesis using inv Cons by (auto simp: bc_inv_def)
  qed
qed

text \<open>What the transport takes of the messages: a part of each, in order, whatever the sends end with. \<open>ks\<close> has the number
  of bytes for each send that has ended.\<close>

definition parts :: "nat list \<Rightarrow> bytes list \<Rightarrow> bytes" where
  "parts ks ts = concat (map2 take ks ts)"

lemma parts_append: "length ks = length ts \<Longrightarrow> parts (ks @ ks') (ts @ ts') = parts ks ts @ parts ks' ts'"
  by (simp add: parts_def)

lemma parts_more: "length ks \<le> length ts \<Longrightarrow> parts ks (ts @ ts') = parts ks ts"
  unfolding parts_def by (induction ks arbitrary: ts) (auto simp: Suc_le_length_iff)

lemma parts_Cons: "parts (k # ks) (t # ts) = take k t @ parts ks ts"
  by (simp add: parts_def)

lemma parts_length: "length (parts ks ts) \<le> length (concat ts)"
proof (induction ts arbitrary: ks)
  case (Cons t ts)
  show ?case
  proof (cases ks)
    case (Cons k ks')
    have "length (take k t) \<le> length t" by simp
    then show ?thesis using Cons.IH [of ks'] Cons by (simp add: parts_Cons)
  qed (simp add: parts_def)
qed (simp add: parts_def)

lemma parts_whole:
  assumes "length (parts ks ts) = length (concat ts)"
  shows "parts ks ts = concat ts"
  using assms
proof (induction ts arbitrary: ks)
  case (Cons t ts)
  show ?case
  proof (cases ks)
    case Nil
    then show ?thesis using Cons.prems by (simp add: parts_def)
  next
    case ks: (Cons k ks')
    have "length (take k t) + length (parts ks' ts) = length t + length (concat ts)"
      using Cons.prems by (simp add: ks parts_Cons)
    moreover have "length (take k t) \<le> length t" "length (parts ks' ts) \<le> length (concat ts)"
      using parts_length [of ks' ts] by simp_all
    ultimately have "length (take k t) = length t" "length (parts ks' ts) = length (concat ts)" by linarith+
    then have "take k t = t" "parts ks' ts = concat ts" using Cons.IH [of ks'] by simp_all
    then show ?thesis by (simp add: ks parts_Cons)
  qed
qed (simp add: parts_def)

definition bc_taken :: "nat list \<Rightarrow> bconn \<Rightarrow> bool" where
  "bc_taken ks c \<longleftrightarrow> bc_wire c = parts ks (map wire (bc_posted c)) \<and> bc_posted c = bc_done c @ bc_queue c
     \<and> length ks \<le> length (bc_posted c) \<and> bc_inflight c \<le> 1 \<and> (bc_inflight c = 1 \<longrightarrow> bc_queue c \<noteq> [])
     \<and> (bc_stuck c \<or> length ks = length (bc_done c))"

lemma bc_taken_new: "bc_taken [] bconn_new"
  by (simp add: bc_taken_def bconn_new_def parts_def)

lemma bc_taken_write:
  assumes "bc_taken ks c"
  shows "bc_taken ks (bc_write ok m c)"
proof -
  have "parts ks (map wire (bc_posted c) @ [wire m]) = parts ks (map wire (bc_posted c))"
    using assms unfolding bc_taken_def by (intro parts_more) (metis length_map)
  then show ?thesis using assms
    by (cases "bc_queue c") (auto simp: bc_taken_def bc_write_def bc_send_front_def bc_stuck_def Let_def)
qed

lemma bc_taken_handler:
  assumes "bc_taken ks c" and "0 < bc_inflight c"
  shows "bc_taken (ks @ [n]) (bc_handler ok err n c)"
proof -
  obtain m q where q: "bc_queue c = m # q" using assms by (cases "bc_queue c") (auto simp: bc_taken_def)
  have n: "length ks = length (map wire (bc_done c))" and i: "bc_inflight c = 1"
    using assms by (auto simp: bc_taken_def bc_stuck_def)
  have "parts (ks @ [n]) (map wire (bc_posted c)) = bc_wire c @ take n (wire m)"
    using assms(1) q n by (simp add: bc_taken_def parts_append parts_more) (simp add: parts_def)
  then show ?thesis using assms(1) q n i
    by (cases q) (auto simp: bc_taken_def bc_handler_def bc_send_front_def bc_stuck_def Let_def)
qed

lemma bc_taken_reach:
  assumes "rtranclp (bc_step ok whole) bconn_new c"
  shows "\<exists>ks. bc_taken ks c"
  using assms
proof (induction rule: rtranclp_induct)
  case (step y z)
  from step(3) obtain ks where ks: "bc_taken ks y" by blast
  from step(2) show ?case using bc_taken_write [OF ks] bc_taken_handler [OF ks] by (cases rule: bc_stepE) blast+
qed (blast intro: bc_taken_new)

text \<open>When the transport has taken as many bytes as were posted, they are those that were posted.\<close>

lemma bc_all_taken:
  assumes "rtranclp (bc_step ok whole) bconn_new c" and "length (bc_wire c) = length (concat (map wire (bc_posted c)))"
  shows "bc_wire c = concat (map wire (bc_posted c))"
proof -
  obtain ks where "bc_taken ks c" using bc_taken_reach [OF assms(1)] by blast
  then show ?thesis using assms(2) parts_whole [of ks "map wire (bc_posted c)"] by (simp add: bc_taken_def)
qed

lemma wire_smsg_new: "wire (smsg_new junk d) = d"
  by (simp add: wire_def smsg_new_def)

lemma bc_demo_run:
  assumes "n \<le> 2" and "whole \<longrightarrow> n = 2"
  shows "rtranclp (bc_step (\<lambda>_. True) whole) bconn_new
    (bc_handler (\<lambda>_. True) False 1 (bc_handler (\<lambda>_. True) False n
      (bc_write (\<lambda>_. True) (smsg_new 0 [3]) (bc_write (\<lambda>_. True) (smsg_new 0 [1, 2]) bconn_new))))"
proof -
  let ?ok = "\<lambda>_ :: smsg. True"
  let ?c = "bc_write ?ok (smsg_new 0 [3]) (bc_write ?ok (smsg_new 0 [1, 2]) bconn_new)"
  have c: "bc_queue ?c = [smsg_new 0 [1, 2], smsg_new 0 [3]]" "bc_inflight ?c = 1"
    by (simp_all add: bc_write_def bconn_new_def bc_send_front_def Let_def)
  have "bc_step ?ok whole ?c (bc_handler ?ok False n ?c)"
    by (rule bc_step.completed [where m = "smsg_new 0 [1, 2]" and q = "[smsg_new 0 [3]]"]) (use c assms in \<open>simp_all add: wire_smsg_new\<close>)
  moreover have "bc_queue (bc_handler ?ok False n ?c) = [smsg_new 0 [3]]" "bc_inflight (bc_handler ?ok False n ?c) = 1"
    using c by (simp_all add: bc_handler_def bc_send_front_def Let_def)
  then have "bc_step ?ok whole (bc_handler ?ok False n ?c) (bc_handler ?ok False 1 (bc_handler ?ok False n ?c))"
    by (intro bc_step.completed [where m = "smsg_new 0 [3]" and q = "[]"]) (simp_all add: wire_smsg_new)
  ultimately show ?thesis
    by (meson bc_step.posted rtranclp.rtrancl_into_rtrancl rtranclp.rtrancl_refl)
qed

lemma bc_demo_end:
  "bc_queue (bc_handler (\<lambda>_. True) False 1 (bc_handler (\<lambda>_. True) False n
      (bc_write (\<lambda>_. True) (smsg_new 0 [3]) (bc_write (\<lambda>_. True) (smsg_new 0 [1, 2]) bconn_new)))) = []"
  "bc_wire (bc_handler (\<lambda>_. True) False 1 (bc_handler (\<lambda>_. True) False n
      (bc_write (\<lambda>_. True) (smsg_new 0 [3]) (bc_write (\<lambda>_. True) (smsg_new 0 [1, 2]) bconn_new)))) = take n [1, 2] @ [3]"
  by (simp_all add: bc_handler_def bc_write_def bconn_new_def bc_send_front_def Let_def wire_def smsg_new_def)

theorem writes_in_order_witness:
  "concat (map wire (bc_posted (bc_handler (\<lambda>_. True) False 1 (bc_handler (\<lambda>_. True) False 2
      (bc_write (\<lambda>_. True) (smsg_new 0 [3]) (bc_write (\<lambda>_. True) (smsg_new 0 [1, 2]) bconn_new)))))) = [1, 2, 3]"
  using writes_in_order [OF bc_demo_run [of 2 True]] bc_demo_end [of 2] by simp

text \<open>The handler does not look at the number of bytes: when the transport takes a part of a message, the rest is
  dropped and the next message follows it.\<close>

lemma short_write_drops_bytes:
  "\<exists>c. rtranclp (bc_step (\<lambda>_. True) False) bconn_new c \<and> bc_queue c = []
     \<and> bc_posted c = [smsg_new 0 [1, 2], smsg_new 0 [3]] \<and> bc_wire c = [1, 3]"
proof -
  have "bc_posted (bc_handler (\<lambda>_. True) False 1 (bc_handler (\<lambda>_. True) False 1
      (bc_write (\<lambda>_. True) (smsg_new 0 [3]) (bc_write (\<lambda>_. True) (smsg_new 0 [1, 2]) bconn_new))))
    = [smsg_new 0 [1, 2], smsg_new 0 [3]]"
    by (simp add: bc_handler_def bc_write_def bconn_new_def bc_send_front_def Let_def)
  then show ?thesis using bc_demo_run [of 1 False] bc_demo_end [of 1] by (intro exI conjI) simp_all
qed

lemma bc_stuck_step:
  assumes "bc_step ok whole c c'" and "bc_stuck c"
  shows "bc_stuck c' \<and> bc_sent c' = bc_sent c"
  using assms(1) by (cases rule: bc_stepE) (use assms(2) in \<open>auto simp: bc_stuck_def bc_write_def Let_def\<close>)

text \<open>A write error stops a connection for good: the handler of a failed send leaves its message in
  the queue, so the queue is never empty again and no later \<open>write\<close> sends anything.\<close>

lemma write_error_is_final:
  assumes "rtranclp (bc_step snd_ok whole) bconn_new c" and "0 < bc_inflight c"
    and "rtranclp (bc_step snd_ok whole) (bc_handler snd_ok True n c) c'"
  shows "bc_sent c' = bc_sent c \<and> bc_queue c' \<noteq> []"
proof -
  have inv: "bc_inv whole c" using assms(1) by (rule bc_inv_reach)
  then have "bc_stuck (bc_handler snd_ok True n c)" and s: "bc_sent (bc_handler snd_ok True n c) = bc_sent c"
    using assms(2) by (auto simp: bc_inv_def bc_stuck_def bc_handler_def Let_def)
  from assms(3) this(1) have "bc_stuck c' \<and> bc_sent c' = bc_sent (bc_handler snd_ok True n c)"
    by (induction rule: rtranclp_induct) (auto dest: bc_stuck_step)
  then show ?thesis using s by (simp add: bc_stuck_def)
qed

subsection \<open>Completion handlers\<close>

text \<open>
  A completion handler calls the hook of the class and then the callback of the caller, if there is
  one, and logs an exception the callback throws. A callback is given by whether it throws; what a
  handler does is the list of its effects.
\<close>

datatype errcode = EcOk | EcEof | EcAborted | EcOther int

datatype sock_effect =
    OnConnect | OnConnectError errcode
  | OnReadComplete nat | OnReadError errcode nat
  | OnRecvComplete nat string u16 | OnRecvError errcode nat string u16
  | CallConnect errcode | CallRead errcode nat | CallRecv errcode nat string u16
  | LogDebug string | LogError string

definition run_callback :: "string \<Rightarrow> bool option \<Rightarrow> sock_effect \<Rightarrow> sock_effect list" where
  "run_callback what cb call =
     (case cb of None \<Rightarrow> [] | Some throws \<Rightarrow> call # (if throws then [LogError (''exception in '' @ what @ '' callback: '')] else []))"

definition onReadError :: "errcode \<Rightarrow> nat \<Rightarrow> sock_effect list" where
  "onReadError err nread =
     (if err = EcEof then [LogDebug ''EOF on socket... connection will be closed'']
      else if err = EcAborted then [LogDebug ''operation canceled'']
      else [LogError ''error reading from socket: '']) @ [OnReadError err nread]"

definition onRecvError :: "errcode \<Rightarrow> nat \<Rightarrow> string \<Rightarrow> u16 \<Rightarrow> sock_effect list" where
  "onRecvError err nread addr port =
     (if err = EcEof then [LogDebug ''EOF on socket...'']
      else if err = EcAborted then [LogDebug ''operation canceled'']
      else [LogError ''error recv from socket: '']) @ [OnRecvError err nread addr port]"

definition tcp_connect_handler :: "bool option \<Rightarrow> errcode \<Rightarrow> sock_effect list" where
  "tcp_connect_handler cb err =
     (if err = EcOk then [OnConnect] else [OnConnectError err]) @ run_callback ''connect'' cb (CallConnect err)"

definition tcp_read_handler :: "bool option \<Rightarrow> errcode \<Rightarrow> nat \<Rightarrow> sock_effect list" where
  "tcp_read_handler cb err nread =
     (if err = EcOk then [OnReadComplete nread] else onReadError err nread) @ run_callback ''read'' cb (CallRead err nread)"

definition udp_connect_handler :: "bool option \<Rightarrow> errcode \<Rightarrow> sock_effect list" where
  "udp_connect_handler cb err =
     (if err = EcOk then [OnConnect] else [OnConnectError err]) @ run_callback ''connect'' cb (CallConnect err)"

definition udp_read_handler :: "bool option \<Rightarrow> errcode \<Rightarrow> nat \<Rightarrow> sock_effect list" where
  "udp_read_handler cb err nread =
     (if err = EcOk then [OnReadComplete nread] else onReadError err nread) @ run_callback ''read'' cb (CallRead err nread)"

definition udp_recv_handler :: "bool option \<Rightarrow> errcode \<Rightarrow> nat \<Rightarrow> string \<Rightarrow> u16 \<Rightarrow> sock_effect list" where
  "udp_recv_handler cb err nread addr port =
     (if err = EcOk then [OnRecvComplete nread addr port] else onRecvError err nread addr port)
     @ run_callback ''recv'' cb (CallRecv err nread addr port)"

definition web_read_handler :: "bool option \<Rightarrow> errcode \<Rightarrow> nat \<Rightarrow> sock_effect list" where
  "web_read_handler cb err nread =
     (if err = EcOk then [OnReadComplete nread] else onReadError err nread) @ run_callback ''read'' cb (CallRead err nread)"

text \<open>\<open>udp::Connection::send\<close>: without a destination to the connected peer.\<close>

datatype udp_send_op = SendConnected | SendTo string u16

definition udp_send :: "(string \<Rightarrow> bool) \<Rightarrow> smsg \<Rightarrow> udp_send_op result" where
  "udp_send valid_addr m =
     (if sm_addr m = [] \<and> sm_port m = 0 then Inr SendConnected
      else if valid_addr (sm_addr m) then Inr (SendTo (sm_addr m) (sm_port m))
      else Inl (RuntimeError ''Invalid argument''))"

text \<open>\<open>ipv4addr\<close> and the constructors that open and bind a socket; the operations of the socket are the
  steps of \<open>bind_socket\<close>, of which \<open>ok\<close> says which succeed. The first that fails throws.\<close>

definition ipv4addr :: "string \<Rightarrow> string" where
  "ipv4addr addr = (if addr = [] then ''0.0.0.0'' else addr)"

datatype sock_call = FromString string | OpenSock | ReuseAddr | ReusePort | NonBlocking | Bind string u16 | Listen int

fun run_calls :: "(sock_call \<Rightarrow> bool) \<Rightarrow> sock_call list \<Rightarrow> sock_call list \<times> bool" where
  "run_calls ok [] = ([], True)"
| "run_calls ok (c # cs) = (if ok c then (case run_calls ok cs of (done, r) \<Rightarrow> (c # done, r)) else ([], False))"

definition tcp_create :: "(sock_call \<Rightarrow> bool) \<Rightarrow> u16 \<Rightarrow> string \<Rightarrow> sock_call list \<times> bool" where
  "tcp_create ok port addr = run_calls ok [FromString addr, OpenSock, ReuseAddr, Bind addr port]"

definition udp_bind :: "(sock_call \<Rightarrow> bool) \<Rightarrow> u16 \<Rightarrow> string \<Rightarrow> sock_call list \<times> bool" where
  "udp_bind ok port addr =
     (let a = ipv4addr addr in run_calls ok [FromString a, OpenSock, ReuseAddr, ReusePort, NonBlocking, Bind a port])"

text \<open>The filter \<open>bind\<close> attaches when several sockets share the port: random modulo their number.\<close>

definition udp_pick :: "nat \<Rightarrow> u32 \<Rightarrow> nat option" where
  "udp_pick children skb_random = (if 1 < children then Some (unat skb_random mod children) else None)"

subsection \<open>Websocket connections\<close>

text \<open>
  \<open>websocketpp\<close> calls the close handler or the fail handler of a connection when it ends.
  \<open>wc_close\<close> and \<open>wc_fail\<close> say whether they are set; \<open>onread_\<close> is the pending read callback, known by
  a number.
\<close>

record webconn =
  wc_onread :: "nat option"
  wc_handlersSet :: bool
  wc_close :: bool
  wc_fail :: bool

definition webconn_new :: webconn where
  "webconn_new = \<lparr>wc_onread = None, wc_handlersSet = False, wc_close = False, wc_fail = False\<rparr>"

definition web_setHandlers :: "webconn \<Rightarrow> webconn" where
  "web_setHandlers c =
     (if wc_handlersSet c then c else c\<lparr>wc_handlersSet := True, wc_close := True, wc_fail := True\<rparr>)"

definition web_read :: "nat \<Rightarrow> webconn \<Rightarrow> webconn" where
  "web_read cb c = web_setHandlers (c\<lparr>wc_onread := Some cb\<rparr>)"

definition web_resetHandlers :: "webconn \<Rightarrow> nat option \<times> webconn" where
  "web_resetHandlers c = (wc_onread c, c\<lparr>wc_close := False, wc_fail := False, wc_onread := None\<rparr>)"

text \<open>The connection ends: the pending read, if any, is called with end of file.\<close>

definition web_closed :: "webconn \<Rightarrow> (nat \<times> errcode) list \<times> webconn" where
  "web_closed c =
     (if wc_close c then
        (case web_resetHandlers c of (r, c') \<Rightarrow> (case r of None \<Rightarrow> [] | Some cb \<Rightarrow> [(cb, EcEof)], c'))
      else ([], c))"

definition web_failed :: "webconn \<Rightarrow> (nat \<times> errcode) list \<times> webconn" where
  "web_failed c =
     (if wc_fail c then
        (case web_resetHandlers c of (r, c') \<Rightarrow> (case r of None \<Rightarrow> [] | Some cb \<Rightarrow> [(cb, EcEof)], c'))
      else ([], c))"

text \<open>\<open>send\<close> sends every part of a message as a websocket message of its own and completes at once; the
  handler of \<open>write\<close>, running on the strand, sends on until the queue is empty.\<close>

fun web_send_parts :: "bytes list \<Rightarrow> bytes list \<Rightarrow> nat \<Rightarrow> bytes list \<times> nat" where
  "web_send_parts [] frames nwritten = (frames, nwritten)"
| "web_send_parts (b # bs) frames nwritten = web_send_parts bs (frames @ [b]) (nwritten + length b)"

definition web_send :: "smsg \<Rightarrow> bytes list \<times> nat" where
  "web_send m = web_send_parts (sm_buffer m) [] 0"

fun web_write_queue :: "smsg list \<Rightarrow> bytes list" where
  "web_write_queue [] = []"
| "web_write_queue (m # q) = fst (web_send m) @ web_write_queue q"

text \<open>The remote end point is text; \<open>tools::str::split\<close> is the parameter \<open>split\<close>.\<close>

definition web_remoteAddr :: "(string \<Rightarrow> string list) \<Rightarrow> string \<Rightarrow> string" where
  "web_remoteAddr split endpoint = (case split endpoint of p # _ \<Rightarrow> p | [] \<Rightarrow> endpoint)"

definition web_remotePort :: "(string \<Rightarrow> string list) \<Rightarrow> string \<Rightarrow> u16" where
  "web_remotePort split endpoint =
     (case split endpoint of [_, p] \<Rightarrow> word_of_int (ato_int p) | _ \<Rightarrow> 0)"

lemma web_send_parts_eq: "web_send_parts bs frames n = (frames @ bs, n + length (concat bs))"
  by (induction bs arbitrary: frames n) auto

text \<open>A websocket connection sends what it was given: the parts of the messages in the order of
  their buffers, nothing lost, and the size it reports is the size of the message.\<close>

lemma web_send_complete:
  assumes "smsg_built m"
  shows "concat (fst (web_send m)) = wire m \<and> snd (web_send m) = dataSize m"
  using smsg_size [OF assms] by (simp add: web_send_def web_send_parts_eq wire_def)

lemma web_send_complete_witness:
  "concat (fst (web_send (push_front [1, 2] (smsg_new 0 [3])))) = [1, 2, 3]"
  using web_send_complete [OF smsg_built.built_front [OF smsg_built.built_new], of "[1, 2]" 0 "[3]"]
  by (simp add: wire_def push_front_def smsg_new_def)

text \<open>A reader of a websocket connection learns that it ended, once: whichever of close and fail
  comes first calls the pending read with end of file, and after that neither calls anything; but a
  read that is started after the end is never answered.\<close>

lemma web_end_notified_once:
  assumes "web_closed (web_read cb webconn_new) = (calls, c)" and "web_failed (web_read cb webconn_new) = (calls', c')"
  shows "calls = [(cb, EcEof)] \<and> calls' = [(cb, EcEof)]
    \<and> fst (web_closed c) = [] \<and> fst (web_failed c) = []
    \<and> fst (web_closed (web_read cb' c)) = [] \<and> fst (web_failed (web_read cb' c)) = []"
  using assms by (auto simp: web_closed_def web_failed_def web_read_def web_setHandlers_def web_resetHandlers_def webconn_new_def)

lemma web_end_notified_once_witness:
  "fst (web_failed (web_read 1 webconn_new)) = [(1, EcEof)]"
  using web_end_notified_once [of 1 "fst (web_closed (web_read 1 webconn_new))" "snd (web_closed (web_read 1 webconn_new))"
      "fst (web_failed (web_read 1 webconn_new))" "snd (web_failed (web_read 1 webconn_new))"] by simp

subsection \<open>Listening on a range of ports\<close>

text \<open>
  The acceptor of boost::asio is a parameter: its state and its operations, each of which may throw.
  \<open>rnd\<close> supplies the random port of the \<open>k\<close>-th attempt.
\<close>

record 'a acceptor_ops =
  ac_open :: "'a \<Rightarrow> error option \<times> 'a"
  ac_reuse :: "'a \<Rightarrow> error option \<times> 'a"
  ac_bind :: "string \<Rightarrow> u16 \<Rightarrow> 'a \<Rightarrow> error option \<times> 'a"
  ac_listen :: "int \<Rightarrow> 'a \<Rightarrow> error option \<times> 'a"
  ac_addr_ok :: "string \<Rightarrow> error option"

definition then_do :: "error option \<times> 'a \<Rightarrow> ('a \<Rightarrow> error option \<times> 'a) \<Rightarrow> error option \<times> 'a" where
  "then_do r f = (case r of (Some e, a) \<Rightarrow> (Some e, a) | (None, a) \<Rightarrow> f a)"

definition tcp_listen :: "'a acceptor_ops \<Rightarrow> string \<Rightarrow> int \<Rightarrow> u16 \<Rightarrow> 'a \<Rightarrow> error option \<times> 'a" where
  "tcp_listen ops addr backlog port a =
     then_do (ac_addr_ok ops addr, a) (\<lambda>a. then_do (ac_open ops a) (\<lambda>a. then_do (ac_reuse ops a) (\<lambda>a.
       then_do (ac_bind ops addr port a) (ac_listen ops backlog))))"

definition random_port :: "(nat \<Rightarrow> u16 \<Rightarrow> u16 \<Rightarrow> u16) \<Rightarrow> nat \<Rightarrow> u16 \<Rightarrow> u16 \<Rightarrow> u16" where
  "random_port rnd k rmax rmin = (if rmin = rmax then rmax else rnd k rmin rmax)"

definition port_range :: "u16 \<Rightarrow> u16 \<Rightarrow> u16 \<times> u16" where
  "port_range minport maxport =
     (if maxport < minport then (if 0 < maxport then (maxport, minport) else (minport, minport))
      else (minport, maxport))"

definition port_tries :: "u16 \<Rightarrow> u16 \<Rightarrow> nat" where
  "port_tries minport maxport = min 5000 (unat maxport - unat minport + 1)"

text \<open>\<open>while (ntry-- > 0)\<close>; the log \<open>tried\<close> is the ports tried so far.\<close>

fun listen_loop ::
  "(u16 \<Rightarrow> 'a \<Rightarrow> error option \<times> 'a) \<Rightarrow> (nat \<Rightarrow> u16 \<Rightarrow> u16 \<Rightarrow> u16) \<Rightarrow> u16 \<Rightarrow> u16 \<Rightarrow> nat \<Rightarrow> u16 list \<Rightarrow> 'a
    \<Rightarrow> error option \<times> 'a \<times> u16 list" where
  "listen_loop listen1 rnd minport maxport 0 tried a = (None, a, tried)"
| "listen_loop listen1 rnd minport maxport (Suc ntry) tried a =
     (let p = random_port rnd ntry maxport minport in
      case listen1 p a of
        (None, a) \<Rightarrow> (None, a, tried @ [p])
      | (Some e, a) \<Rightarrow>
          if ntry = 0 then (Some e, a, tried @ [p])
          else listen_loop listen1 rnd minport maxport ntry (tried @ [p]) a)"

definition tcp_listen_range ::
  "'a acceptor_ops \<Rightarrow> (nat \<Rightarrow> u16 \<Rightarrow> u16 \<Rightarrow> u16) \<Rightarrow> string \<Rightarrow> u16 \<Rightarrow> u16 \<Rightarrow> int \<Rightarrow> 'a \<Rightarrow> error option \<times> 'a \<times> u16 list" where
  "tcp_listen_range ops rnd addr minport maxport backlog a =
     (case port_range minport maxport of
        (lo, hi) \<Rightarrow> listen_loop (tcp_listen ops (ipv4addr addr) backlog) rnd lo hi (port_tries lo hi) [] a)"

text \<open>The websocket server listens through \<open>websocketpp\<close> and remembers the port.\<close>

record 'a web_listener =
  wl_listener :: 'a
  wl_port :: u16

definition web_listen ::
  "(string \<Rightarrow> error option) \<Rightarrow> (string \<Rightarrow> u16 \<Rightarrow> 'a \<Rightarrow> error option \<times> 'a) \<Rightarrow> string \<Rightarrow> u16 \<Rightarrow> 'a web_listener
    \<Rightarrow> error option \<times> 'a web_listener" where
  "web_listen addr_ok listen1 addr port s =
     (case addr_ok addr of Some e \<Rightarrow> (Some e, s)
      | None \<Rightarrow> (case listen1 addr port (wl_listener s) of
                  (Some e, a) \<Rightarrow> (Some e, s\<lparr>wl_listener := a\<rparr>)
                | (None, a) \<Rightarrow> (None, s\<lparr>wl_listener := a, wl_port := port\<rparr>)))"

definition web_listen_range ::
  "(string \<Rightarrow> error option) \<Rightarrow> (string \<Rightarrow> u16 \<Rightarrow> 'a \<Rightarrow> error option \<times> 'a) \<Rightarrow> (nat \<Rightarrow> u16 \<Rightarrow> u16 \<Rightarrow> u16) \<Rightarrow> string
    \<Rightarrow> u16 \<Rightarrow> u16 \<Rightarrow> 'a web_listener \<Rightarrow> error option \<times> 'a web_listener \<times> u16 list" where
  "web_listen_range addr_ok listen1 rnd addr minport maxport s =
     (case port_range minport maxport of
        (lo, hi) \<Rightarrow> listen_loop (web_listen addr_ok listen1 (ipv4addr addr)) rnd lo hi (port_tries lo hi) [] s)"

text \<open>The completion of an accept: what is done with the new socket. The callback is given by its answer,
  \<open>None\<close> if it throws.\<close>

datatype accept_outcome = AcceptCalled | AcceptLogged | AcceptTerminated

definition tcp_accept_done :: "bool option \<Rightarrow> errcode \<Rightarrow> accept_outcome list" where
  "tcp_accept_done cb err =
     (if err = EcOk then AcceptCalled # (if cb = None then [AcceptLogged] else [])
      else [AcceptLogged])"

definition web_accept_done :: "bool option \<Rightarrow> errcode \<Rightarrow> accept_outcome list" where
  "web_accept_done cb err =
     (if err = EcOk then
        (case cb of
           Some True \<Rightarrow> [AcceptCalled]
         | Some False \<Rightarrow> [AcceptCalled, AcceptTerminated]
         | None \<Rightarrow> [AcceptCalled, AcceptLogged, AcceptTerminated])
      else [AcceptTerminated, AcceptLogged])"

lemma port_range_props:
  assumes "port_range a b = (lo, hi)"
  shows "lo \<le> hi" and "lo \<in> {a, b}" and "hi \<in> {a, b}"
  using assms by (auto simp: port_range_def split: if_splits)

lemma rnd_in_range:
  assumes "\<And>k lo hi. lo \<le> hi \<Longrightarrow> lo \<le> rnd k lo hi \<and> rnd k lo hi \<le> hi" and "lo \<le> hi"
  shows "lo \<le> random_port rnd n hi lo \<and> random_port rnd n hi lo \<le> hi"
  using assms by (auto simp: random_port_def)

lemma listen_loop_tried:
  assumes rnd: "\<And>k lo hi. lo \<le> hi \<Longrightarrow> lo \<le> rnd k lo hi \<and> rnd k lo hi \<le> hi" and le: "lo \<le> hi"
  shows "\<exists>new. snd (snd (listen_loop l rnd lo hi n tried a)) = tried @ new \<and> length new \<le> n
    \<and> (\<forall>p \<in> set new. lo \<le> p \<and> p \<le> hi)
    \<and> (fst (listen_loop l rnd lo hi n tried a) \<noteq> None \<longrightarrow> length new = n) \<and> (0 < n \<longrightarrow> new \<noteq> [])"
proof (induction n arbitrary: tried a)
  case (Suc n)
  let ?p = "random_port rnd n hi lo"
  have p: "lo \<le> ?p \<and> ?p \<le> hi" by (rule rnd_in_range [OF rnd le])
  obtain r a' where l: "l ?p a = (r, a')" by (cases "l ?p a")
  consider "r = None" | e where "r = Some e" "n = 0" | e where "r = Some e" "0 < n" by (cases r) auto
  then show ?case
  proof cases
    case 3
    obtain new where new: "snd (snd (listen_loop l rnd lo hi n (tried @ [?p]) a')) = (tried @ [?p]) @ new" "length new \<le> n"
      "\<forall>p \<in> set new. lo \<le> p \<and> p \<le> hi" "fst (listen_loop l rnd lo hi n (tried @ [?p]) a') \<noteq> None \<longrightarrow> length new = n"
      using Suc.IH by blast
    then show ?thesis using 3 l p by (intro exI [of _ "?p # new"]) (simp add: Let_def)
  qed (use l p in \<open>auto simp: Let_def\<close>)
qed simp

lemma port_range_bounds:
  assumes "port_range minport maxport = (lo, hi)"
  shows "unat lo = (if maxport = 0 then unat minport else min (unat minport) (unat maxport))"
    and "unat hi = max (unat minport) (unat maxport)"
  using assms by (auto simp: port_range_def word_less_nat_alt unat_gt_0 split: if_splits)

text \<open>C35: listening on a range of ports. The ports tried lie between the smaller and the larger of the two
  given, whichever way round they are; with 0 for the upper one only the lower one is tried. At least one
  port is tried, and never more than the range has, 5000 at most; the call fails only after exactly that many
  attempts.\<close>

theorem listen_range_bounded:
  assumes "\<And>k lo hi. lo \<le> hi \<Longrightarrow> lo \<le> rnd k lo hi \<and> rnd k lo hi \<le> hi"
    and "tcp_listen_range ops rnd addr minport maxport backlog a = (r, a', tried)"
  shows "let lo = (if maxport = 0 then unat minport else min (unat minport) (unat maxport));
             hi = max (unat minport) (unat maxport);
             n = (if hi - lo < 5000 then hi - lo + 1 else 5000)
         in (\<forall>p \<in> set tried. lo \<le> unat p \<and> unat p \<le> hi) \<and> tried \<noteq> [] \<and> length tried \<le> n
            \<and> (r \<noteq> None \<longrightarrow> length tried = n)"
proof -
  obtain lo hi where range: "port_range minport maxport = (lo, hi)" by (cases "port_range minport maxport")
  note b = port_range_bounds [OF range]
  let ?l = "listen_loop (tcp_listen ops (ipv4addr addr) backlog) rnd lo hi (port_tries lo hi) [] a"
  have "?l = (r, a', tried)" using assms(2) range by (simp add: tcp_listen_range_def)
  moreover have "\<exists>new. snd (snd ?l) = [] @ new \<and> length new \<le> port_tries lo hi
      \<and> (\<forall>p \<in> set new. lo \<le> p \<and> p \<le> hi) \<and> (fst ?l \<noteq> None \<longrightarrow> length new = port_tries lo hi)
      \<and> (0 < port_tries lo hi \<longrightarrow> new \<noteq> [])"
    by (rule listen_loop_tried [OF _ port_range_props(1) [OF range]]) (rule assms(1))
  moreover have "port_tries lo hi = (if unat hi - unat lo < 5000 then unat hi - unat lo + 1 else 5000)"
    by (auto simp: port_tries_def min_def)
  ultimately show ?thesis
    unfolding Let_def b [symmetric] by (auto simp: word_le_nat_alt)
qed

text \<open>An acceptor that behaves like that of boost::asio: opening an open one fails, and an acceptor that
  failed to bind stays open.\<close>

definition demo_acceptor :: "(u16 \<Rightarrow> bool) \<Rightarrow> bool acceptor_ops" where
  "demo_acceptor free =
     \<lparr>ac_open = (\<lambda>opn. if opn then (Some (RuntimeError ''Already open''), opn) else (None, True)),
      ac_reuse = (\<lambda>opn. (None, opn)),
      ac_bind = (\<lambda>addr port opn. if free port then (None, opn) else (Some (RuntimeError ''Address in use''), opn)),
      ac_listen = (\<lambda>backlog opn. (None, opn)),
      ac_addr_ok = (\<lambda>addr. None)\<rparr>"

definition demo_rnd :: "nat \<Rightarrow> u16 \<Rightarrow> u16 \<Rightarrow> u16" where
  "demo_rnd k lo hi = lo"

theorem listen_range_bounded_witness:
  "\<exists>r a' tried. tcp_listen_range (demo_acceptor (\<lambda>_. True)) demo_rnd [] 90 80 5 False = (r, a', tried) \<and> tried \<noteq> [] \<and> length tried \<le> 11"
proof -
  obtain r a' tried where l: "tcp_listen_range (demo_acceptor (\<lambda>_. True)) demo_rnd [] 90 80 5 False = (r, a', tried)"
    by (cases "tcp_listen_range (demo_acceptor (\<lambda>_. True)) demo_rnd [] 90 80 5 False")
  then show ?thesis using listen_range_bounded [of demo_rnd, OF _ l] by (simp add: demo_rnd_def Let_def)
qed

definition acceptor_laws :: "'a acceptor_ops \<Rightarrow> ('a \<Rightarrow> bool) \<Rightarrow> bool" where
  "acceptor_laws ops is_open \<longleftrightarrow>
     (\<forall>a. is_open a \<longrightarrow> fst (ac_open ops a) \<noteq> None \<and> is_open (snd (ac_open ops a)))
     \<and> (\<forall>a. fst (ac_open ops a) = None \<longrightarrow> is_open (snd (ac_open ops a)))
     \<and> (\<forall>a. is_open a \<longrightarrow> is_open (snd (ac_reuse ops a)))
     \<and> (\<forall>addr port a. is_open a \<longrightarrow> is_open (snd (ac_bind ops addr port a)))
     \<and> (\<forall>backlog a. is_open a \<longrightarrow> is_open (snd (ac_listen ops backlog a)))"

lemma then_do_simps [simp]:
  "then_do (Some e, a) f = (Some e, a)" "then_do (None, a) f = f a"
  by (simp_all add: then_do_def)

lemma tcp_listen_on_open:
  assumes "acceptor_laws ops is_open" and "is_open a"
  shows "fst (tcp_listen ops addr backlog port a) \<noteq> None \<and> is_open (snd (tcp_listen ops addr backlog port a))"
proof (cases "ac_addr_ok ops addr")
  case None
  obtain r a' where o: "ac_open ops a = (r, a')" by (cases "ac_open ops a")
  then have "r \<noteq> None" "is_open a'" using assms by (auto simp: acceptor_laws_def)
  then show ?thesis using None o by (auto simp: tcp_listen_def)
next
  case (Some e)
  then show ?thesis using assms(2) by (simp add: tcp_listen_def)
qed

lemma listen_loop_on_open:
  assumes "acceptor_laws ops is_open" and "is_open a" and "0 < n"
  shows "fst (listen_loop (tcp_listen ops addr backlog) rnd lo hi n tried a) \<noteq> None"
  using assms(2,3)
proof (induction n arbitrary: tried a)
  case (Suc n)
  let ?p = "random_port rnd n hi lo"
  obtain e a' where l: "tcp_listen ops addr backlog ?p a = (Some e, a')" and o: "is_open a'"
    using tcp_listen_on_open [OF assms(1) Suc.prems(1), of addr backlog ?p]
    by (metis fst_conv not_None_eq prod.exhaust_sel snd_conv)
  show ?case
  proof (cases "n = 0")
    case False
    then show ?thesis using Suc.IH [OF o] l by (simp add: Let_def)
  qed (use l in simp)
qed simp

text \<open>The retries of a range listen are in vain: once the acceptor is open, which it is after a
  first attempt that failed at \<open>bind\<close>, every further attempt fails at \<open>open\<close>, so if the first random
  port cannot be bound the whole listen fails, however many free ports the range has.\<close>

lemma listen_retry_in_vain:
  assumes "acceptor_laws ops is_open" and "port_range minport maxport = (lo, hi)"
    and "tcp_listen ops (ipv4addr addr) backlog (random_port rnd (port_tries lo hi - 1) hi lo) a = (Some e, a1)"
    and "is_open a1"
  shows "fst (tcp_listen_range ops rnd addr minport maxport backlog a) \<noteq> None"
proof -
  obtain n where n: "port_tries lo hi = Suc n" by (cases "port_tries lo hi") (auto simp: port_tries_def)
  show ?thesis
  proof (cases "n = 0")
    case True
    then show ?thesis using n assms(2,3) by (simp add: tcp_listen_range_def Let_def)
  next
    case False
    then show ?thesis
      using n assms(2,3) listen_loop_on_open [OF assms(1,4)] by (simp add: tcp_listen_range_def Let_def)
  qed
qed

lemma listen_retry_in_vain_witness:
  "fst (tcp_listen_range (demo_acceptor (\<lambda>p. p = 81)) demo_rnd [] 80 90 5 False) \<noteq> None"
proof (rule listen_retry_in_vain)
  show "acceptor_laws (demo_acceptor (\<lambda>p. p = 81)) (\<lambda>x. x)"
    by (simp add: acceptor_laws_def demo_acceptor_def)
  show "port_range 80 90 = (80, 90)" by (simp add: port_range_def)
  show "tcp_listen (demo_acceptor (\<lambda>p. p = 81)) (ipv4addr []) 5 (random_port demo_rnd (port_tries 80 90 - 1) 90 80) False
      = (Some (RuntimeError ''Address in use''), True)"
    by (simp add: tcp_listen_def demo_acceptor_def random_port_def demo_rnd_def)
  show "True" by simp
qed

end
