(* ===== verification/Scgi_Conversation.thy ===== *)
theory Scgi_Conversation
  imports Scgi_Service Sockets
begin

section \<open>A conversation over SCGI\<close>

text \<open>
  The composition of the SCGI side: \<open>Message\<close> and the write queue of \<open>BaseConnection\<close> at each end, the framing
  \<open>Parser\<close>, the \<open>Dispatcher\<close> and the replies of \<open>Request\<close>. The network may cut both streams anywhere.
\<close>

text \<open>\<open>async_send\<close> may end with a part of a message taken, or with an error. All was taken when it was as many bytes as were posted.\<close>

definition all_taken :: "bconn \<Rightarrow> bool" where
  "all_taken c \<longleftrightarrow> length (bc_wire c) = length (concat (map wire (bc_posted c)))"

lemma scgi_channel:
  assumes "rtranclp (bc_step snd_ok False) bconn_new c" and "all_taken c"
    and "map wire (bc_posted c) = map scgi_message ms" and "concat chunks = bc_wire c"
    and "\<forall>m \<in> set ms. deliverable m" and "\<And>m d. fst (onMessage m d) = Inr True"
  shows "\<exists>p. fold (scgi_feed onMessage) chunks (scgi_start d) = Inr (True, p, fold (\<lambda>m d. snd (onMessage m d)) ms d)"
proof -
  have "bc_wire c = concat (map wire (bc_posted c))"
    using bc_all_taken [OF assms(1)] assms(2) by (simp add: all_taken_def)
  with assms(3,4) have "concat chunks = concat (map scgi_message ms)" by simp
  moreover have "\<forall>m \<in> set ms. length m < 2 ^ 32" using assms(5) by (auto simp: deliverable_def)
  moreover have "filter deliverable ms = ms" using assms(5) by (simp add: filter_id_conv)
  ultimately show ?thesis using scgi_deliver_all [of chunks ms onMessage d, OF _ _ assms(6)] by auto
qed

lemma requests_of_texts:
  assumes "json_laws env" and "\<And>j t. js_dump env j = Inr t \<Longrightarrow> js_parse env t = Inr j"
    and "\<And>r. r \<in> set rs \<Longrightarrow> uri_normal (rb_uri (rq_base r)) \<and> data_kept env (rb_data (rq_base r))
      \<and> js_dump env (request_toJson env r) = Inr (qtext r)"
  shows "requests_of env con (map qtext rs) = map (\<lambda>r. r\<lparr>rq_connection := con\<rparr>) rs"
proof -
  have "request_new env con (qtext r) = Inr (r\<lparr>rq_connection := con\<rparr>)" if "r \<in> set rs" for r
    using request_roundtrip [OF assms(1), of "r\<lparr>rq_connection := con\<rparr>" "qtext r"] assms(2,3) that
    by (simp add: request_toJson_def)
  then show ?thesis by (simp add: requests_of_def cong: map_cong)
qed

lemma reply_data_texts:
  assumes "\<And>r. r \<in> set rs \<Longrightarrow> js_dump env (response_toJson env (response_new_data env (rq_base r) (h r))) = Inr (atext r)"
  shows "concat (map (\<lambda>r. reply_data env True (r\<lparr>rq_connection := con\<rparr>) (h r)) rs) = map scgi_message (map atext rs)"
  using assms by (induction rs) (simp_all add: reply_data_def write_response_def)

lemma fold_collect: "fold (\<lambda>m xs. xs @ [m]) ms xs = xs @ ms"
  by (induction ms arbitrary: xs) simp_all

text \<open>C6: a conversation over SCGI, with no byte lost: a client writes requests to its connection, whose URIs are in
  the form \<open>set_uri\<close> gives, whose data JSON keeps, and whose texts are neither empty nor too long for the parser. Once the
  transport has taken as many bytes as were posted, and whatever the pieces in which they arrive, the
  server's parser and dispatcher post exactly these requests, with the server's connection in them, in
  order. When every handler replies at once with data of the same kind through the server's connection, and again no byte is
  lost, the client's parser delivers one message for each request, in order, that decodes to the response to
  that request: its id, method and URI, code 200 and the data of the handler.\<close>

theorem scgi_conversation:
  fixes env :: "'j env" and h :: "'j request \<Rightarrow> 'j"
  assumes "json_laws env" and "\<And>j t. js_dump env j = Inr t \<Longrightarrow> js_parse env t = Inr j"
    and reqs: "\<And>r. r \<in> set rs \<Longrightarrow> uri_normal (rb_uri (rq_base r)) \<and> data_kept env (rb_data (rq_base r))
      \<and> js_dump env (request_toJson env r) = Inr (qtext r) \<and> deliverable (qtext r)"
    and answers: "\<And>r. r \<in> set rs \<Longrightarrow> data_kept env (h r)
      \<and> js_dump env (response_toJson env (response_new_data env (rq_base r) (h r))) = Inr (atext r) \<and> deliverable (atext r)"
    and client: "rtranclp (bc_step snd_ok False) bconn_new c" "all_taken c"
      "bc_posted c = map (\<lambda>r. push_front (scgi_header (length (qtext r))) (smsg_new junk (qtext r))) rs"
    and server: "rtranclp (bc_step snd_ok False) bconn_new s" "all_taken s"
      "map wire (bc_posted s) = concat (map (\<lambda>r. reply_data env True (r\<lparr>rq_connection := con\<rparr>) (h r)) rs)"
    and net: "concat chunks = bc_wire c" "concat chunks' = bc_wire s"
  shows "\<exists>p p' replies.
    fold (scgi_feed (dispatcher_onMessage env con)) chunks (scgi_start ds)
      = Inr (True, p, ds\<lparr>dp_posted := dp_posted ds @ map (\<lambda>r. r\<lparr>rq_connection := con\<rparr>) rs\<rparr>)
    \<and> fold (scgi_feed (\<lambda>m ms. (Inr True, ms @ [m]))) chunks' (scgi_start []) = Inr (True, p', replies)
    \<and> map (\<lambda>t. rbind (js_parse env t) (\<lambda>j. response_fromJson env j \<lparr>rs_base = reqbase_new env, rs_code = 0, rs_status = []\<rparr>)) replies
      = map (\<lambda>r. Inr (response_new_data env (rq_base r) (h r))) rs"
proof -
  have "map wire (bc_posted c) = map scgi_message (map qtext rs)"
    by (simp add: client(3) scgi_message_wire)
  then obtain p where p: "fold (scgi_feed (dispatcher_onMessage env con)) chunks (scgi_start ds)
      = Inr (True, p, fold (\<lambda>m d. snd (dispatcher_onMessage env con m d)) (map qtext rs) ds)"
    using scgi_channel [OF client(1,2) _ net(1), of "map qtext rs" "dispatcher_onMessage env con" ds] reqs
    by (auto simp: onMessage_accepts)
  have posted: "requests_of env con (map qtext rs) = map (\<lambda>r. r\<lparr>rq_connection := con\<rparr>) rs"
    using requests_of_texts [of env rs qtext con] assms(1,2) reqs by blast
  have "map wire (bc_posted s) = map scgi_message (map atext rs)"
    unfolding server(3) by (rule reply_data_texts) (simp add: answers)
  then obtain p' where p': "fold (scgi_feed (\<lambda>m ms. (Inr True, ms @ [m]))) chunks' (scgi_start [])
      = Inr (True, p', map atext rs)"
    using scgi_channel [OF server(1,2) _ net(2), of "map atext rs" "\<lambda>m ms. (Inr True, ms @ [m])" "[]"] answers
    by (auto simp: fold_collect)
  have "rbind (js_parse env (atext r)) (\<lambda>j. response_fromJson env j \<lparr>rs_base = reqbase_new env, rs_code = 0, rs_status = []\<rparr>)
      = Inr (response_new_data env (rq_base r) (h r))" if "r \<in> set rs" for r
  proof -
    have "js_parse env (atext r) = Inr (response_toJson env (response_new_data env (rq_base r) (h r)))"
      by (rule assms(2)) (simp add: answers [OF that])
    then show ?thesis
      using response_data_roundtrip [OF assms(1), of "rq_base r" "h r"] reqs [OF that] answers [OF that] by simp
  qed
  then have "map (\<lambda>t. rbind (js_parse env t) (\<lambda>j. response_fromJson env j \<lparr>rs_base = reqbase_new env, rs_code = 0, rs_status = []\<rparr>)) (map atext rs)
      = map (\<lambda>r. Inr (response_new_data env (rq_base r) (h r))) rs" by simp
  with p p' show ?thesis unfolding fold_onMessage posted by blast
qed

lemma bc_one_message:
  fixes m :: smsg
  defines "c \<equiv> bc_handler (\<lambda>_. True) False (length (wire m)) (bc_write (\<lambda>_. True) m bconn_new)"
  shows "rtranclp (bc_step (\<lambda>_. True) False) bconn_new c" "all_taken c" "bc_posted c = [m]" "bc_wire c = wire m"
proof -
  let ?ok = "\<lambda>_ :: smsg. True"
  have w: "bc_queue (bc_write ?ok m bconn_new) = [m]" "bc_inflight (bc_write ?ok m bconn_new) = 1"
    by (simp_all add: bc_write_def bconn_new_def bc_send_front_def Let_def)
  have "bc_step ?ok False (bc_write ?ok m bconn_new) c"
    unfolding c_def by (rule bc_step.completed [where m = m and q = "[]"]) (simp_all add: w)
  then show "rtranclp (bc_step ?ok False) bconn_new c"
    by (meson bc_step.posted rtranclp.rtrancl_into_rtrancl rtranclp.rtrancl_refl)
  show "all_taken c" "bc_posted c = [m]" "bc_wire c = wire m"
    by (simp_all add: all_taken_def c_def bc_handler_def bc_write_def bconn_new_def bc_send_front_def Let_def)
qed

definition demo_codec :: "demo_json env" where
  "demo_codec = (let e = demo_env JNull; q = request_toJson e demo_request;
       a = response_toJson e (response_new_data e (rq_base demo_request) (JStr ''y''))
     in e\<lparr>js_parse := (\<lambda>t. if t = [1] then Inr q else Inr a), js_dump := (\<lambda>j. if j = q then Inr [1] else if j = a then Inr [2] else Inl BadAccess)\<rparr>)"

lemma demo_codec_simps [simp]:
  "request_toJson demo_codec r = request_toJson (demo_env JNull) r"
  "response_toJson demo_codec a = response_toJson (demo_env JNull) a"
  "response_new_data demo_codec b d = response_new_data (demo_env JNull) b d"
  "json_laws demo_codec"
  "js_dump demo_codec j = Inr t \<Longrightarrow> js_parse demo_codec t = Inr j"
  "js_dump demo_codec (request_toJson (demo_env JNull) demo_request) = Inr [1]"
  "js_dump demo_codec (response_toJson (demo_env JNull) (response_new_data (demo_env JNull) (rq_base demo_request) (JStr ''y''))) = Inr [2]"
  "data_kept demo_codec (JStr s)"
proof -
  have env: "js_null demo_codec = JNull" "js_of_int demo_codec = JInt" "js_of_str demo_codec = JStr"
    "js_set demo_codec = js_set (demo_env JNull)" "js_at demo_codec = js_at (demo_env JNull)"
    "js_has demo_codec = js_has (demo_env JNull)" "js_empty demo_codec = js_empty (demo_env JNull)"
    "js_is_null demo_codec = js_is_null (demo_env JNull)" "js_u32 demo_codec = js_u32 (demo_env JNull)"
    "js_int demo_codec = js_int (demo_env JNull)" "js_str demo_codec = js_str (demo_env JNull)"
    "en_toEnum demo_codec = en_toEnum (demo_env JNull)" "en_toString demo_codec = en_toString (demo_env JNull)"
    by (simp_all add: demo_codec_def demo_env_def Let_def)
  have base: "reqbase_toJson demo_codec b = reqbase_toJson (demo_env JNull) b" for b
    unfolding reqbase_toJson_def method_name_def env by (simp add: demo_env_def Let_def)
  show "request_toJson demo_codec r = request_toJson (demo_env JNull) r"
    unfolding request_toJson_def env base by (simp add: demo_env_def)
  show "response_toJson demo_codec a = response_toJson (demo_env JNull) a"
    unfolding response_toJson_def env base by (simp add: demo_env_def)
  show "response_new_data demo_codec b d = response_new_data (demo_env JNull) b d"
    unfolding response_new_data_def reqbase_new_def env by (simp add: demo_env_def)
  show "json_laws demo_codec"
    using demo_env_laws [of JNull] unfolding json_laws_def env by (simp add: demo_env_def)
  show "js_dump demo_codec j = Inr t \<Longrightarrow> js_parse demo_codec t = Inr j"
    by (auto simp: demo_codec_def Let_def split: if_splits)
  show "js_dump demo_codec (request_toJson (demo_env JNull) demo_request) = Inr [1]"
    by (simp add: demo_codec_def Let_def)
  show "js_dump demo_codec (response_toJson (demo_env JNull) (response_new_data (demo_env JNull) (rq_base demo_request) (JStr ''y''))) = Inr [2]"
    by (simp add: demo_codec_def Let_def) (simp add: request_toJson_def response_toJson_def demo_env_def)
  show "data_kept demo_codec (JStr s)" unfolding data_kept_def env by (simp add: demo_env_def)
qed

theorem scgi_conversation_witness:
  "\<exists>p p' replies.
    fold (scgi_feed (dispatcher_onMessage demo_codec 3)) [scgi_header 1, [1]] (scgi_start \<lparr>dp_handlers = [], dp_posted = []\<rparr>)
      = Inr (True, p, \<lparr>dp_handlers = [], dp_posted = [demo_request\<lparr>rq_connection := 3\<rparr>]\<rparr>)
    \<and> fold (scgi_feed (\<lambda>m ms. (Inr True, ms @ [m]))) [scgi_message [2]] (scgi_start []) = Inr (True, p', replies)
    \<and> length replies = 1"
proof -
  let ?q = "push_front (scgi_header (length [1 :: byte])) (smsg_new 0 [1])" and ?a = "push_front (scgi_header (length [2 :: byte])) (smsg_new 0 [2])"
  obtain c where q: "rtranclp (bc_step (\<lambda>_. True) False) bconn_new c" "all_taken c" "bc_posted c = [?q]" "bc_wire c = wire ?q"
    using bc_one_message by blast
  obtain s where a: "rtranclp (bc_step (\<lambda>_. True) False) bconn_new s" "all_taken s" "bc_posted s = [?a]" "bc_wire s = wire ?a"
    using bc_one_message by blast
  have wire: "wire ?q = scgi_message [1]" "wire ?a = scgi_message [2]" by (rule scgi_message_wire)+
  have d: "deliverable [1]" "deliverable [2]" by (simp_all add: deliverable_def)
  have reply: "reply_data demo_codec True (demo_request\<lparr>rq_connection := 3\<rparr>) (JStr ''y'') = [scgi_message [2]]"
    by (simp add: reply_data_def write_response_def)
  have kept: "data_kept demo_codec (rb_data (rq_base demo_request))" by (simp add: demo_request_def)
  have cut: "concat [scgi_header 1, [1]] = wire ?q" unfolding wire by (simp add: scgi_message_def)
  have "\<exists>p p' replies.
    fold (scgi_feed (dispatcher_onMessage demo_codec 3)) [scgi_header 1, [1]] (scgi_start \<lparr>dp_handlers = [], dp_posted = []\<rparr>)
      = Inr (True, p, \<lparr>dp_handlers = [], dp_posted = []\<rparr>\<lparr>dp_posted := dp_posted \<lparr>dp_handlers = [], dp_posted = []\<rparr> @ map (\<lambda>r. r\<lparr>rq_connection := 3\<rparr>) [demo_request]\<rparr>)
    \<and> fold (scgi_feed (\<lambda>m ms. (Inr True, ms @ [m]))) [scgi_message [2]] (scgi_start []) = Inr (True, p', replies)
    \<and> map (\<lambda>t. rbind (js_parse demo_codec t) (\<lambda>j. response_fromJson demo_codec j \<lparr>rs_base = reqbase_new demo_codec, rs_code = 0, rs_status = []\<rparr>)) replies
      = map (\<lambda>r. Inr (response_new_data demo_codec (rq_base r) (JStr ''y''))) [demo_request]"
    by (rule scgi_conversation [where qtext = "\<lambda>_. [1]" and atext = "\<lambda>_. [2]" and snd_ok = "\<lambda>_. True" and junk = 0
          and h = "\<lambda>_. JStr ''y''", OF _ _ _ _ q(1,2) _ a(1,2)])
      (use cut wire d demo_request_normal kept in \<open>simp_all add: q(3,4) a(3,4) wire reply del: One_nat_def\<close>)
  then show ?thesis by (auto dest: map_eq_imp_length_eq)
qed

end
