(* ===== verification/Grabber.thy ===== *)
theory Grabber
  imports Sockets Parser_Factory Voip
begin

section \<open>Packet capture (pcap/grabber/)\<close>

text \<open>
  The configuration of the grabber, the \<open>pcap\<close> handle of a device with its resources, the read loop of a
  capture and the sniffer that parses what is captured and notifies its subscribers. Of libpcap the model
  has the answers of its calls: which step of opening a handle fails, and what each \<open>pcap_next_ex\<close> returns.
\<close>

subsection \<open>Configuration\<close>

text \<open>\<open>nlohmann::json\<close> and \<open>jhlp::getValue\<close> are parameters: reading a member with a default may throw.\<close>

record 'j jhlp =
  jh_json :: "'j \<Rightarrow> string \<Rightarrow> 'j result"
  jh_bool :: "'j \<Rightarrow> string \<Rightarrow> bool \<Rightarrow> bool result"
  jh_string :: "'j \<Rightarrow> string \<Rightarrow> string \<Rightarrow> string result"
  jh_u16 :: "'j \<Rightarrow> string \<Rightarrow> u16 \<Rightarrow> u16 result"
  jh_u64 :: "'j \<Rightarrow> string \<Rightarrow> u64 \<Rightarrow> u64 result"
  jh_items :: "'j \<Rightarrow> (string result \<times> 'j) list"

record capture_cfg =
  cc_enabled :: bool
  cc_interface :: string
  cc_filter :: string
  cc_parser :: string

definition capture_cfg0 :: capture_cfg where
  "capture_cfg0 = \<lparr>cc_enabled = True, cc_interface = ''lo'', cc_filter = ''tcp dst port 5030'', cc_parser = ''voip''\<rparr>"

definition capture_cfg_from :: "'j jhlp \<Rightarrow> 'j \<Rightarrow> capture_cfg result" where
  "capture_cfg_from jh j =
     (let c = capture_cfg0 in
      rbind (jh_bool jh j ''enabled'' (cc_enabled c)) (\<lambda>e.
      rbind (jh_string jh j ''interface'' (cc_interface c)) (\<lambda>i.
      rbind (jh_string jh j ''filter'' (cc_filter c)) (\<lambda>f.
      rbind (jh_string jh j ''parser'' (cc_parser c)) (\<lambda>p.
        Inr \<lparr>cc_enabled = e, cc_interface = i, cc_filter = f, cc_parser = p\<rparr>)))))"

record listener_cfg =
  lc_interface :: string
  lc_limit :: u64
  lc_minport :: u16
  lc_maxport :: u16
  lc_timeout :: u64

definition listener_cfg0 :: "string \<Rightarrow> listener_cfg" where
  "listener_cfg0 ip = \<lparr>lc_interface = ip, lc_limit = 10, lc_minport = 20000, lc_maxport = 40000, lc_timeout = 90\<rparr>"

definition listener_cfg_from :: "'j jhlp \<Rightarrow> string \<Rightarrow> 'j \<Rightarrow> listener_cfg result" where
  "listener_cfg_from jh ip j =
     (let l = listener_cfg0 ip in
      rbind (jh_u64 jh j ''limit'' (lc_limit l)) (\<lambda>n.
      rbind (jh_string jh j ''interface'' (lc_interface l)) (\<lambda>i.
      rbind (jh_u16 jh j ''minport'' (lc_minport l)) (\<lambda>lo.
      rbind (jh_u16 jh j ''maxport'' (lc_maxport l)) (\<lambda>hi.
      rbind (jh_u64 jh j ''timeout'' (lc_timeout l)) (\<lambda>t.
        Inr \<lparr>lc_interface = i, lc_limit = n, lc_minport = lo, lc_maxport = hi, lc_timeout = t\<rparr>))))))"

record config =
  cf_captures :: "string \<rightharpoonup> capture_cfg"
  cf_listener :: listener_cfg

text \<open>\<open>emplace\<close> keeps the first entry of a name; an entry that throws is skipped.\<close>

fun config_items :: "'j jhlp \<Rightarrow> (string result \<times> 'j) list \<Rightarrow> (string \<rightharpoonup> capture_cfg) \<Rightarrow> (string \<rightharpoonup> capture_cfg)" where
  "config_items jh [] m = m"
| "config_items jh ((k, v) # items) m =
     config_items jh items
       (case rbind k (\<lambda>k. rbind (capture_cfg_from jh v) (\<lambda>c. Inr (k, c))) of
          Inl _ \<Rightarrow> m
        | Inr (k, c) \<Rightarrow> if m k = None then m(k \<mapsto> c) else m)"

definition config_read :: "'j jhlp \<Rightarrow> 'j \<Rightarrow> config \<Rightarrow> config result" where
  "config_read jh j c =
     rbind (jh_json jh j ''captures'') (\<lambda>ii.
       Inr (c\<lparr>cf_captures := config_items jh (jh_items jh ii) (cf_captures c)\<rparr>))"

definition config_new :: "'j jhlp \<Rightarrow> string \<Rightarrow> 'j \<Rightarrow> config result" where
  "config_new jh ip j =
     rbind (jh_json jh j ''listener'') (\<lambda>lj.
     rbind (listener_cfg_from jh ip lj) (\<lambda>l.
       config_read jh j \<lparr>cf_captures = (\<lambda>_. None), cf_listener = l\<rparr>))"

definition config_capture :: "config \<Rightarrow> string \<Rightarrow> capture_cfg option" where
  "config_capture c name =
     (case cf_captures c name of
        Some x \<Rightarrow> Some x
      | None \<Rightarrow> if name = [] \<or> name = ''default'' then Some capture_cfg0 else None)"

definition isCaptureExists :: "config \<Rightarrow> string \<Rightarrow> bool" where
  "isCaptureExists c capture = (case config_capture c capture of None \<Rightarrow> False | Some p \<Rightarrow> cc_enabled p)"

record sniffer_params =
  sp_name :: string
  sp_interface :: string
  sp_filter :: string
  sp_parser :: string

definition createSniffer :: "(sniffer_params \<Rightarrow> 'n result) \<Rightarrow> config \<Rightarrow> string \<Rightarrow> 'n option result" where
  "createSniffer mk c capture =
     (case config_capture c capture of
        None \<Rightarrow> Inr None
      | Some p \<Rightarrow>
          if \<not> cc_enabled p then Inr None
          else rbind (mk \<lparr>sp_name = capture, sp_interface = cc_interface p, sp_filter = cc_filter p, sp_parser = cc_parser p\<rparr>)
                 (\<lambda>s. Inr (Some s)))"

lemma createSniffer_exists:
  "isCaptureExists c capture \<longleftrightarrow> createSniffer mk c capture \<noteq> Inr None"
  by (auto simp: isCaptureExists_def createSniffer_def rbind_eq_Inr split: option.splits)

subsection \<open>Device: the pcap handle\<close>

text \<open>
  The calls a device makes and what they acquire and release; \<open>px\<close> gives the error text of each call
  that can fail. The trace of the calls is the history of the process.
\<close>

record pcap_answers =
  px_lookupnet :: "string option"
  px_open_live :: "string option"
  px_open_offline :: "string option"
  px_compile :: "string option"
  px_setfilter :: "string option"
  px_setnonblock :: "string option"
  px_fd :: int

datatype pcap_call = PLookupNet | POpenLive | POpenOffline | PCompile | PSetFilter | PFreeCode | PClose | PSetNonblock | PGetFd | PReleaseFd

type_synonym 'a traced = "pcap_call list \<times> 'a result"

definition raise :: "string \<Rightarrow> string \<Rightarrow> 'a result" where
  "raise func txt = Inl (RuntimeError (func @ ''() failed with error '' @ [CHR 39] @ txt @ [CHR 39]))"

definition isfile :: "string \<Rightarrow> bool" where
  "isfile interface \<longleftrightarrow> (\<exists>c \<in> set interface. c = CHR ''.'' \<or> c = CHR ''/'' \<or> c = CHR 92)"

definition set_filter :: "pcap_answers \<Rightarrow> unit traced" where
  "set_filter px =
     (case px_compile px of
        Some txt \<Rightarrow> ([PClose], raise ''pcap_compile'' txt)
      | None \<Rightarrow>
          (case px_setfilter px of
             Some txt \<Rightarrow> ([PCompile, PFreeCode, PClose], raise ''pcap_setfilter'' txt)
           | None \<Rightarrow> ([PCompile, PSetFilter, PFreeCode], Inr ())))"

definition device_open :: "pcap_answers \<Rightarrow> unit traced" where
  "device_open px =
     (case px_lookupnet px of
        Some txt \<Rightarrow> ([], raise ''pcap_lookupnet'' txt)
      | None \<Rightarrow>
          (case px_open_live px of
             Some txt \<Rightarrow> ([PLookupNet], raise ''pcap_open_live'' txt)
           | None \<Rightarrow> (case set_filter px of (t, r) \<Rightarrow> (PLookupNet # POpenLive # t, r))))"

definition device_load :: "pcap_answers \<Rightarrow> unit traced" where
  "device_load px =
     (case px_open_offline px of
        Some txt \<Rightarrow> ([], raise ''pcap_open_offline'' txt)
      | None \<Rightarrow> (case set_filter px of (t, r) \<Rightarrow> (POpenOffline # t, r)))"

definition device_new :: "pcap_answers \<Rightarrow> string \<Rightarrow> bool traced" where
  "device_new px interface =
     (let off = isfile interface in
      case (if off then device_load px else device_open px) of (t, r) \<Rightarrow> (t, rbind r (\<lambda>_. Inr off)))"

definition setnonblock :: "pcap_answers \<Rightarrow> int traced" where
  "setnonblock px =
     (case px_setnonblock px of
        Some txt \<Rightarrow> ([], raise ''pcap_setnonblock'' txt)
      | None \<Rightarrow>
          if px_fd px = -1 then ([PSetNonblock, PGetFd], raise ''pcap_get_selectable_fd'' [])
          else ([PSetNonblock, PGetFd], Inr (px_fd px)))"

text \<open>The constructor of a capture: the device, then its stream, \<open>None\<close> for a file. When the stream
  fails the device is destroyed. The destructor releases the descriptor before the device closes it.\<close>

definition capture_new :: "pcap_answers \<Rightarrow> string \<Rightarrow> int option traced" where
  "capture_new px interface =
     (case device_new px interface of
        (t, Inl e) \<Rightarrow> (t, Inl e)
      | (t, Inr True) \<Rightarrow> (t, Inr None)
      | (t, Inr False) \<Rightarrow>
          (case setnonblock px of
             (u, Inl e) \<Rightarrow> (t @ u @ [PClose], Inl e)
           | (u, Inr fd) \<Rightarrow> (t @ u, Inr (Some fd))))"

definition capture_destroy :: "int option \<Rightarrow> pcap_call list" where
  "capture_destroy stream = (if stream \<noteq> None then [PReleaseFd] else []) @ [PClose]"

definition device_list :: "(string \<times> string option) list option \<Rightarrow> (string \<times> string) list" where
  "device_list alldevs =
     (case alldevs of
        None \<Rightarrow> []
      | Some devs \<Rightarrow> map (\<lambda>(n, d). (n, case d of None \<Rightarrow> [] | Some t \<Rightarrow> t)) devs)"


definition handles_open :: "pcap_call list \<Rightarrow> int" where
  "handles_open t = (\<Sum>c \<leftarrow> t. if c \<in> {POpenLive, POpenOffline} then 1 else if c = PClose then -1 else 0)"

definition programs_live :: "pcap_call list \<Rightarrow> int" where
  "programs_live t = (\<Sum>c \<leftarrow> t. if c = PCompile then 1 else if c = PFreeCode then -1 else 0)"

lemmas device_defs = device_new_def device_open_def device_load_def set_filter_def setnonblock_def raise_def
  capture_new_def capture_destroy_def handles_open_def programs_live_def

lemma set_filter_resources:
  "handles_open (fst (set_filter px)) = (if is_ok (snd (set_filter px)) then 0 else - 1) \<and> programs_live (fst (set_filter px)) = 0"
  by (auto simp: device_defs split: option.splits)

lemma traces_append:
  "handles_open (t @ u) = handles_open t + handles_open u" "programs_live (t @ u) = programs_live t + programs_live u"
  by (simp_all add: handles_open_def programs_live_def)

lemma traces_Cons:
  "handles_open (c # t) = (if c \<in> {POpenLive, POpenOffline} then 1 else if c = PClose then -1 else 0) + handles_open t"
  "programs_live (c # t) = (if c = PCompile then 1 else if c = PFreeCode then -1 else 0) + programs_live t"
  by (simp_all add: handles_open_def programs_live_def)

lemma device_new_resources:
  assumes "device_new px interface = (t, r)"
  shows "handles_open t = (if is_ok r then 1 else 0) \<and> programs_live t = 0"
  using assms set_filter_resources [of px]
  by (cases "snd (set_filter px)")
    (auto simp: device_new_def device_open_def device_load_def raise_def Let_def traces_Cons handles_open_def [of "[]"]
      programs_live_def [of "[]"] split: option.splits prod.splits if_splits)

lemma setnonblock_resources:
  assumes "setnonblock px = (t, r)"
  shows "handles_open t = 0 \<and> programs_live t = 0"
  using assms by (auto simp: device_defs split: option.splits if_splits)

text \<open>C25: opening a capture leaks nothing: whichever call fails, the handle it opened is closed and the
  compiled filter freed when the exception leaves; a capture that was opened holds exactly one handle
  and no filter program, and its destructor gives the handle back.\<close>

theorem capture_no_leak:
  assumes "capture_new px interface = (t, r)"
  shows "handles_open t = (if is_ok r then 1 else 0) \<and> programs_live t = 0
    \<and> (\<forall>stream. r = Inr stream \<longrightarrow> handles_open (t @ capture_destroy stream) = 0)"
proof -
  obtain u q where d: "device_new px interface = (u, q)" by (cases "device_new px interface")
  obtain v w where n: "setnonblock px = (v, w)" by (cases "setnonblock px")
  note res = device_new_resources [OF d] setnonblock_resources [OF n]
  have nil: "handles_open [] = 0" "programs_live [] = 0" by (simp_all add: handles_open_def programs_live_def)
  show ?thesis
  proof (cases q)
    case (Inl e)
    then show ?thesis using assms d res by (auto simp: capture_new_def)
  next
    case (Inr off)
    then show ?thesis using assms d n res
      by (cases off; cases w)
        (auto simp: capture_new_def capture_destroy_def traces_append traces_Cons nil)
  qed
qed

definition demo_px :: "string option \<Rightarrow> pcap_answers" where
  "demo_px fail = \<lparr>px_lookupnet = None, px_open_live = None, px_open_offline = None, px_compile = None,
     px_setfilter = fail, px_setnonblock = None, px_fd = 7\<rparr>"

theorem capture_no_leak_witness:
  "handles_open (fst (capture_new (demo_px (Some ''bad'')) ''lo'')) = 0
    \<and> handles_open (fst (capture_new (demo_px None) ''lo'')) = 1"
proof -
  have c: "capture_new (demo_px (Some ''bad'')) ''lo'' = ([PLookupNet, POpenLive, PCompile, PFreeCode, PClose], raise ''pcap_setfilter'' ''bad'')"
    "capture_new (demo_px None) ''lo'' = ([PLookupNet, POpenLive, PCompile, PSetFilter, PFreeCode, PSetNonblock, PGetFd], Inr (Some 7))"
    by (simp_all add: capture_new_def device_new_def device_open_def set_filter_def setnonblock_def demo_px_def isfile_def raise_def)
  show ?thesis using capture_no_leak [OF c(1)] capture_no_leak [OF c(2)] c by (simp add: raise_def)
qed


subsection \<open>Capture: the read loop\<close>

text \<open>
  One answer of \<open>pcap_next_ex\<close>: a packet, no data for now, the end of a file, or an error, with the
  header if it set one. When the given answers are used up there is no data. A callback says whether to
  go on and changes a state of its own.
\<close>

datatype next_ex = Got bytes timeval | NoData | EndOfFile timeval | NextFailed "(bytes \<times> timeval) option"

definition broken_pipe :: errcode where
  "broken_pipe = EcOther 32"

type_synonym 's capture_cb = "errcode \<Rightarrow> bytes \<Rightarrow> timeval \<Rightarrow> 's \<Rightarrow> bool \<times> 's"

fun capture_loop :: "'s capture_cb \<Rightarrow> next_ex list \<Rightarrow> 's \<Rightarrow> bool \<times> 's" where
  "capture_loop cb [] s = (True, s)"
| "capture_loop cb (NoData # rest) s = (True, s)"
| "capture_loop cb (EndOfFile ts # rest) s = (False, snd (cb EcEof [] ts s))"
| "capture_loop cb (Got d ts # rest) s =
     (case cb EcOk d ts s of (ret, s) \<Rightarrow> if ret then capture_loop cb rest s else (False, s))"
| "capture_loop cb (NextFailed None # rest) s = (False, s)"
| "capture_loop cb (NextFailed (Some (d, ts)) # rest) s =
     (case cb broken_pipe d ts s of (ret, s) \<Rightarrow> if ret then capture_loop cb rest s else (False, s))"

definition capture_process :: "timeval \<Rightarrow> errcode \<Rightarrow> 's capture_cb \<Rightarrow> next_ex list \<Rightarrow> 's \<Rightarrow> bool \<times> 's" where
  "capture_process now err cb answers s =
     (if err \<noteq> EcOk then cb err [] now s else capture_loop cb answers s)"

text \<open>
  \<open>read\<close> on a device: each time the descriptor is readable the handler runs, and waits again if
  \<open>process\<close> says so. On a file the handler runs once, on a timer, which it destroys afterwards together
  with a wait that \<open>read\<close> may have started on it.
\<close>

fun capture_run :: "timeval \<Rightarrow> 's capture_cb \<Rightarrow> (errcode \<times> next_ex list) list \<Rightarrow> 's \<Rightarrow> bool \<times> 's" where
  "capture_run now cb [] s = (True, s)"
| "capture_run now cb ((err, answers) # events) s =
     (case capture_process now err cb answers s of
        (True, s) \<Rightarrow> capture_run now cb events s
      | (False, s) \<Rightarrow> (False, s))"

definition capture_offline :: "timeval \<Rightarrow> 's capture_cb \<Rightarrow> errcode \<times> next_ex list \<Rightarrow> 's \<Rightarrow> bool \<times> 's" where
  "capture_offline now cb tick s =
     (False, if fst tick = EcOk then snd (capture_process now EcOk cb (snd tick) s) else s)"

subsection \<open>Sniffer\<close>

text \<open>
  The sniffer owns one parser object. Its signals are recorded: \<open>sn_notified\<close> the messages given to the
  subscribers of \<open>notify\<close>, \<open>sn_failed\<close> the errors given to those of \<open>fail\<close>. An exception of the parser
  is logged and the capture goes on; \<open>sn_broken\<close> marks undefined behaviour, which is no exception.
\<close>

datatype 's parser_obj = SimpleObj parser_kind int | TcpObj "'s tcp_reassembler" | VoipObj "'s tcp_reassembler \<times> streams"

fun obj_packets ::
  "snappy \<Rightarrow> ntop \<Rightarrow> 's tcp_engine \<Rightarrow> bytes \<Rightarrow> timeval \<Rightarrow> 's parser_obj \<Rightarrow> packet list result \<times> 's parser_obj" where
  "obj_packets snap ntop tcp d ts (SimpleObj k dl) = (parser_packets k ntop dl d ts, SimpleObj k dl)"
| "obj_packets snap ntop tcp d ts (TcpObj self) =
     (case tcp_packets tcp d ts self of (ps, self) \<Rightarrow> (Inr ps, TcpObj self))"
| "obj_packets snap ntop tcp d ts (VoipObj v) =
     (case voip_packets snap ntop tcp d ts v of Inl e \<Rightarrow> (Inl e, VoipObj v) | Inr (ps, v) \<Rightarrow> (Inr ps, VoipObj v))"

record 's sniffer =
  sn_parser :: "'s parser_obj"
  sn_notified :: "message list"
  sn_failed :: "errcode list"
  sn_broken :: bool

definition sniffer_new :: "'s parser_obj \<Rightarrow> 's sniffer" where
  "sniffer_new p = \<lparr>sn_parser = p, sn_notified = [], sn_failed = [], sn_broken = False\<rparr>"

definition sniffer_process :: "snappy \<Rightarrow> ntop \<Rightarrow> 's tcp_engine \<Rightarrow> bytes \<Rightarrow> timeval \<Rightarrow> 's sniffer \<Rightarrow> bool \<times> 's sniffer" where
  "sniffer_process snap ntop tcp d ts s =
     (case obj_packets snap ntop tcp d ts (sn_parser s) of
        (Inl e, p) \<Rightarrow> (True, s\<lparr>sn_parser := p, sn_broken := (sn_broken s \<or> e = BadAccess)\<rparr>)
      | (Inr ps, p) \<Rightarrow> (True, s\<lparr>sn_parser := p, sn_notified := sn_notified s @ map message_new ps\<rparr>))"

definition sniffer_cb :: "snappy \<Rightarrow> ntop \<Rightarrow> 's tcp_engine \<Rightarrow> 's sniffer capture_cb" where
  "sniffer_cb snap ntop tcp err d ts s =
     (if err = EcOk then sniffer_process snap ntop tcp d ts s
      else if err = EcAborted then (False, s)
      else (False, s\<lparr>sn_failed := sn_failed s @ [err]\<rparr>))"

text \<open>What the subscribers should get for one captured frame.\<close>

definition frame_messages :: "parser_kind \<Rightarrow> ntop \<Rightarrow> int \<Rightarrow> bytes \<times> timeval \<Rightarrow> message list" where
  "frame_messages k ntop dl = (\<lambda>(d, ts).
     case parser_packets k ntop dl d ts of Inl _ \<Rightarrow> [] | Inr ps \<Rightarrow> map message_new ps)"

text \<open>What a parser object finds in frames, one after the other: its messages, whether it left its memory, and
  its state afterwards. A frame on which it throws gives nothing.\<close>

fun obj_messages ::
  "snappy \<Rightarrow> ntop \<Rightarrow> 's tcp_engine \<Rightarrow> (bytes \<times> timeval) list \<Rightarrow> 's parser_obj \<Rightarrow> message list \<times> bool \<times> 's parser_obj" where
  "obj_messages snap ntop tcp [] p = ([], False, p)"
| "obj_messages snap ntop tcp (f # fs) p =
     (case obj_packets snap ntop tcp (fst f) (snd f) p of
        (Inl e, p) \<Rightarrow> (case obj_messages snap ntop tcp fs p of (ms, broken, p) \<Rightarrow> (ms, e = BadAccess \<or> broken, p))
      | (Inr ps, p) \<Rightarrow> (case obj_messages snap ntop tcp fs p of (ms, broken, p) \<Rightarrow> (map message_new ps @ ms, broken, p)))"

definition got :: "bytes \<times> timeval \<Rightarrow> next_ex" where
  "got f = Got (fst f) (snd f)"

definition after_frames :: "snappy \<Rightarrow> ntop \<Rightarrow> 's tcp_engine \<Rightarrow> (bytes \<times> timeval) list \<Rightarrow> 's sniffer \<Rightarrow> 's sniffer" where
  "after_frames snap ntop tcp fs s =
     (case obj_messages snap ntop tcp fs (sn_parser s) of
        (ms, broken, p) \<Rightarrow> s\<lparr>sn_parser := p, sn_notified := sn_notified s @ ms, sn_broken := (sn_broken s \<or> broken)\<rparr>)"

lemma after_no_frames [simp]: "after_frames snap ntop tcp [] s = s"
  by (simp add: after_frames_def)

lemma after_frames_Cons:
  "after_frames snap ntop tcp (f # fs) s = after_frames snap ntop tcp fs (snd (sniffer_cb snap ntop tcp EcOk (fst f) (snd f) s))"
  by (auto simp: after_frames_def sniffer_cb_def sniffer_process_def split: prod.splits sum.splits)

lemma sniffer_cb_goes_on: "fst (sniffer_cb snap ntop tcp EcOk d ts s)"
  by (auto simp: sniffer_cb_def sniffer_process_def split: prod.splits sum.splits)

lemma capture_loop_frames:
  "capture_loop (sniffer_cb snap ntop tcp) (map got fs @ rest) s
    = capture_loop (sniffer_cb snap ntop tcp) rest (after_frames snap ntop tcp fs s)"
proof (induction fs arbitrary: s)
  case (Cons f fs)
  obtain s' where s': "sniffer_cb snap ntop tcp EcOk (fst f) (snd f) s = (True, s')"
    using sniffer_cb_goes_on [of snap ntop tcp "fst f" "snd f" s] by (metis prod.collapse)
  then show ?case using Cons.IH [of s'] by (simp add: got_def after_frames_Cons)
qed simp

lemma after_frames_append:
  "after_frames snap ntop tcp (fs @ gs) s = after_frames snap ntop tcp gs (after_frames snap ntop tcp fs s)"
  by (induction fs arbitrary: s) (simp_all add: after_frames_Cons)

lemma capture_run_batches:
  "capture_run now (sniffer_cb snap ntop tcp) (map (\<lambda>fs. (EcOk, map got fs @ [NoData])) batches @ events) s
    = capture_run now (sniffer_cb snap ntop tcp) events (after_frames snap ntop tcp (concat batches) s)"
  by (induction batches arbitrary: s) (simp_all add: capture_process_def capture_loop_frames after_frames_append)

text \<open>A stateless parser finds in each frame what it finds there alone, and never leaves its memory.\<close>

lemma obj_messages_simple:
  "obj_messages snap ntop tcp fs (SimpleObj k dl) = (concat (map (frame_messages k ntop dl) fs), False, SimpleObj k dl)"
proof (induction fs)
  case (Cons f fs)
  obtain ps where "parser_packets k ntop dl (fst f) (snd f) = Inr ps"
    using frame_parser.packets_safe [OF payload_parser.axioms(1) [OF payload_of_parser], of k ntop dl "fst f" "snd f"]
    by (auto simp: parser_packets_def elim: is_okE)
  then show ?case using Cons by (simp add: frame_messages_def case_prod_beta)
qed simp

text \<open>C24: a capture adds nothing to its parser and loses nothing of it: whichever parser object the sniffer has, stateless or
  a reassembler, however the captured frames fall to the wake-ups of the descriptor, the subscribers get the messages this
  parser finds in the sequence of all frames, in order, a frame on which it throws or finds nothing does not stop the
  capture, and at the end of the input it stops with one end-of-file failure. For the stateless parsers these are the
  messages of each frame taken alone.\<close>

theorem capture_notifies_all:
  "capture_run now (sniffer_cb snap ntop tcp)
      (map (\<lambda>fs. (EcOk, map got fs @ [NoData])) batches @ [(EcOk, map got final @ [EndOfFile ts])]) s
    = (case obj_messages snap ntop tcp (concat batches @ final) (sn_parser s) of
         (ms, broken, p) \<Rightarrow>
           (False, s\<lparr>sn_parser := p, sn_notified := sn_notified s @ ms, sn_failed := sn_failed s @ [EcEof],
                     sn_broken := (sn_broken s \<or> broken)\<rparr>))
   \<and> obj_messages snap ntop tcp fs (SimpleObj k dl) = (concat (map (frame_messages k ntop dl) fs), False, SimpleObj k dl)"
  by (simp add: capture_run_batches capture_process_def capture_loop_frames after_frames_append [symmetric] obj_messages_simple)
    (simp add: sniffer_cb_def after_frames_def split: prod.split)

definition demo_tcp :: "unit tcp_engine" where
  "demo_tcp s d ts dl = (s, [])"

text \<open>The demo frame read twice, in two wake-ups.\<close>

theorem capture_notifies_all_witness:
  "\<exists>m. sn_notified (snd (capture_run demo_ts (sniffer_cb demo_snap demo_ntop demo_tcp)
      [(EcOk, [Got demo_frame demo_ts, NoData]), (EcOk, [Got demo_frame demo_ts, EndOfFile demo_ts])]
      (sniffer_new (SimpleObj SmartP DLT_RAW)))) = [m, m]"
proof -
  obtain pkt where p: "parser_packets SmartP demo_ntop DLT_RAW demo_frame demo_ts = Inr [pkt]"
    using demo_frame_smart by blast
  show ?thesis
    using capture_notifies_all [of demo_ts demo_snap demo_ntop demo_tcp "[[(demo_frame, demo_ts)]]" "[(demo_frame, demo_ts)]" demo_ts
        "sniffer_new (SimpleObj SmartP DLT_RAW)" "[(demo_frame, demo_ts), (demo_frame, demo_ts)]" SmartP DLT_RAW] p
    by (simp add: got_def frame_messages_def sniffer_new_def del: obj_messages.simps)
qed

end
