(* ===== verification/Livecapture.thy ===== *)
theory Livecapture
  imports Grabber
begin

section \<open>Live capture service (livecapture/)\<close>

text \<open>
  A client asks the grabber to open a capture server. The server listens on a port of its own, serves one
  connection, and writes to it every captured packet that contains the filter. The grabber bounds the
  number of open servers and shares one sniffer per capture name among them.
\<close>

subsection \<open>Connection: filter and message\<close>

definition chars :: "string \<Rightarrow> bytes" where
  "chars s = map (\<lambda>c. word_of_nat (of_char c)) s"

definition quoted :: "string \<Rightarrow> string" where
  "quoted s = [CHR 39] @ s @ [CHR 39]"

text \<open>\<open>p.find(filter) != npos\<close>.\<close>

fun contains :: "bytes \<Rightarrow> bytes \<Rightarrow> bool" where
  "contains f [] = (f = [])"
| "contains f (c # p) = (take (length f) (c # p) = f \<or> contains f p)"

definition conn_filter :: "string \<Rightarrow> bytes \<Rightarrow> bool" where
  "conn_filter flt p =
     (if flt = [] \<or> p = [] then False
      else if length flt = 1 \<and> flt ! 0 = CHR ''*'' then True
      else contains (chars flt) p)"

text \<open>\<open>datetime::toISOString\<close> is the parameter \<open>isostr\<close>.\<close>

definition packet_hdr :: "(timeval \<Rightarrow> string) \<Rightarrow> message \<Rightarrow> string" where
  "packet_hdr isostr m =
     (let i = pkt_info (ms_packet m) in
      isostr (ms_timestamp m) @ '' '' @ pi_srcAddr i @ '':'' @ string_of_nat (unat (pi_srcPort i)) @ '' -> ''
        @ pi_dstAddr i @ '':'' @ string_of_nat (unat (pi_dstPort i)) @ [CHR 10])"

definition conn_post :: "u16 \<Rightarrow> (timeval \<Rightarrow> string) \<Rightarrow> string \<Rightarrow> message \<Rightarrow> smsg option" where
  "conn_post junk isostr flt m =
     (let d = pkt_data (ms_packet m) in
      if conn_filter flt d then Some (push_back d (smsg_new junk (chars (packet_hdr isostr m)))) else None)"

text \<open>The handlers run on the connection's service, each ending in a \<open>write\<close>.\<close>

definition conn_handle :: "(smsg \<Rightarrow> bool) \<Rightarrow> u16 \<Rightarrow> (timeval \<Rightarrow> string) \<Rightarrow> string \<Rightarrow> message \<Rightarrow> bconn \<Rightarrow> bconn" where
  "conn_handle snd_ok junk isostr flt m c =
     (case conn_post junk isostr flt m of None \<Rightarrow> c | Some x \<Rightarrow> bc_write snd_ok x c)"

text \<open>The read loop: what the client sends is dropped; an error cancels the timer.\<close>

definition conn_proccess :: "bytes \<Rightarrow> nat \<Rightarrow> bool" where
  "conn_proccess buf nread = True"

fun conn_read :: "(errcode \<times> bytes) list \<Rightarrow> bool" where
  "conn_read [] = False"
| "conn_read ((err, d) # evs) = (if err = EcOk \<and> conn_proccess d (length d) then conn_read evs else True)"

subsection \<open>Grabber: one sniffer per capture\<close>

text \<open>
  \<open>std::weak_ptr\<close>: the map holds object numbers, \<open>None\<close> for an empty pointer; \<open>alive\<close> says which objects
  still have an owner. \<open>mk\<close> is \<open>createSniffer\<close>: an exception, a null pointer (\<open>False\<close>) or a new object.
\<close>

definition cname :: "string \<Rightarrow> string" where
  "cname capture = (if capture = [] then ''default'' else capture)"

type_synonym sniffer_map = "string \<rightharpoonup> nat option"

definition ref_lock :: "(nat \<Rightarrow> bool) \<Rightarrow> nat option \<Rightarrow> nat option" where
  "ref_lock alive r = (case r of Some i \<Rightarrow> if alive i then Some i else None | None \<Rightarrow> None)"

definition cleanup :: "(nat \<Rightarrow> bool) \<Rightarrow> sniffer_map \<Rightarrow> sniffer_map" where
  "cleanup alive m k = (case m k of None \<Rightarrow> None | Some r \<Rightarrow> if ref_lock alive r = None then None else Some r)"

definition grabber_sniffer ::
  "(string \<Rightarrow> bool result) \<Rightarrow> (nat \<Rightarrow> bool) \<Rightarrow> nat \<Rightarrow> string \<Rightarrow> sniffer_map \<Rightarrow> nat result \<times> sniffer_map \<times> (nat \<Rightarrow> bool)" where
  "grabber_sniffer mk alive fresh capture m =
     (let sname = cname capture;
          ref = (case m sname of None \<Rightarrow> None | Some r \<Rightarrow> r) in
      case ref_lock alive ref of
        Some i \<Rightarrow> (Inr i, cleanup alive m, alive)
      | None \<Rightarrow>
          (case mk sname of
             Inl e \<Rightarrow> (Inl e, m(sname \<mapsto> ref), alive)
           | Inr False \<Rightarrow> (Inl (RuntimeError (''failed to create capture '' @ quoted sname @ ''.'')), cleanup alive (m(sname \<mapsto> None)), alive)
           | Inr True \<Rightarrow>
               (let alive = alive(fresh := True) in
                (Inr fresh, cleanup alive (m(sname \<mapsto> Some fresh)), alive))))"

definition live_map :: "(nat \<Rightarrow> bool) \<Rightarrow> sniffer_map \<Rightarrow> bool" where
  "live_map alive m \<longleftrightarrow> (\<forall>k r. m k = Some r \<longrightarrow> (\<exists>i. r = Some i \<and> alive i))"

lemma cleanup_live: "live_map alive (cleanup alive m)"
  by (auto simp: live_map_def cleanup_def ref_lock_def split: option.splits if_splits)

lemma cleanup_keeps: "m k = Some (Some i) \<Longrightarrow> alive i \<Longrightarrow> cleanup alive m k = Some (Some i)"
  by (simp add: cleanup_def ref_lock_def)

text \<open>The servers of one capture share one sniffer: a request that succeeds answers with a live
  sniffer that is registered under the capture's name, the empty name meaning the default capture, and
  leaves no dead entry in the map; while that sniffer lives, every further request for the name answers
  the same one and creates nothing.\<close>

lemma sniffer_shared:
  assumes "grabber_sniffer mk alive fresh capture m = (Inr i, m', alive')"
    and "cname capture' = cname capture" and "alive'' i"
  shows "alive' i \<and> live_map alive' m' \<and> m' (cname capture) = Some (Some i)
    \<and> fst (grabber_sniffer mk' alive'' fresh' capture' m') = Inr i"
proof -
  have "alive' i \<and> live_map alive' m' \<and> m' (cname capture) = Some (Some i)"
  proof (cases "ref_lock alive (case m (cname capture) of None \<Rightarrow> None | Some r \<Rightarrow> r)")
    case None
    then have "i = fresh" "alive' = alive(fresh := True)" "m' = cleanup alive' (m(cname capture \<mapsto> Some fresh))"
      using assms(1) by (auto simp: grabber_sniffer_def Let_def split: sum.splits bool.splits)
    then show ?thesis by (simp add: cleanup_live cleanup_keeps)
  next
    case (Some k)
    then have "k = i" "alive' = alive" "m' = cleanup alive m" using assms(1) by (auto simp: grabber_sniffer_def Let_def)
    then show ?thesis using Some cleanup_live
      by (auto simp: cleanup_keeps ref_lock_def split: option.splits if_splits)
  qed
  then show ?thesis using assms(2,3) by (simp add: grabber_sniffer_def ref_lock_def Let_def)
qed

lemma sniffer_shared_witness:
  "fst (grabber_sniffer (\<lambda>_. Inr False) (\<lambda>_. True) 8 ''default'' (fst (snd (grabber_sniffer (\<lambda>_. Inr True) (\<lambda>_. False) 7 [] Map.empty))))
    = Inr 7"
proof -
  obtain m' alive' where g: "grabber_sniffer (\<lambda>_. Inr True) (\<lambda>_. False) 7 [] Map.empty = (Inr 7, m', alive')"
    by (simp add: grabber_sniffer_def ref_lock_def Let_def)
  show ?thesis using sniffer_shared [OF g, of "''default''" "\<lambda>_. True" "\<lambda>_. Inr False" 8] g by (simp add: cname_def)
qed

subsection \<open>What a client receives\<close>

definition packet_text :: "(timeval \<Rightarrow> string) \<Rightarrow> message \<Rightarrow> bytes" where
  "packet_text isostr m = chars (packet_hdr isostr m) @ pkt_data (ms_packet m)"

definition wanted :: "string \<Rightarrow> message \<Rightarrow> bool" where
  "wanted flt m = conn_filter flt (pkt_data (ms_packet m))"

lemma contains_iff: "contains f p \<longleftrightarrow> (\<exists>a b. p = a @ f @ b)"
proof (induction p)
  case (Cons c p)
  have "take (length f) (c # p) = f \<longleftrightarrow> (\<exists>b. c # p = f @ b)"
    by (metis append_eq_conv_conj append_take_drop_id)
  moreover have "(\<exists>a b. c # p = a @ f @ b) \<longleftrightarrow> (\<exists>b. c # p = f @ b) \<or> (\<exists>a b. p = a @ f @ b)"
    by (metis append_Cons append_Nil neq_Nil_conv list.inject)
  ultimately show ?case using Cons.IH by simp
qed simp

lemma bc_posted_write: "bc_posted (bc_write snd_ok m c) = bc_posted c @ [m]"
  by (auto simp: bc_write_def bc_send_front_def Let_def split: list.splits)

lemma conn_handle_posted:
  "bc_posted (conn_handle snd_ok junk isostr flt m c)
    = bc_posted c @ (if wanted flt m then [push_back (pkt_data (ms_packet m)) (smsg_new junk (chars (packet_hdr isostr m)))] else [])"
  by (simp add: conn_handle_def conn_post_def wanted_def bc_posted_write Let_def)

lemma posted_wire: "wire (push_back (pkt_data (ms_packet m)) (smsg_new junk (chars (packet_hdr isostr m)))) = packet_text isostr m"
  by (simp add: wire_def push_back_def smsg_new_def packet_text_def)

text \<open>A client receives the packets it asked for: the bytes written for a run of captured messages are,
  for each one whose payload contains the filter (or any non-empty payload for the filter \<open>*\<close>) and in
  the order of the capture, its header line followed by the payload; an empty filter gets nothing.\<close>

lemma client_gets_wanted:
  "concat (map wire (bc_posted (fold (conn_handle snd_ok junk isostr flt) ms c)))
      = concat (map wire (bc_posted c)) @ concat (map (packet_text isostr) (filter (wanted flt) ms))
    \<and> (wanted flt m \<longleftrightarrow> flt \<noteq> [] \<and> pkt_data (ms_packet m) \<noteq> []
        \<and> (flt = ''*'' \<or> (\<exists>a b. pkt_data (ms_packet m) = a @ chars flt @ b)))"
proof
  show "concat (map wire (bc_posted (fold (conn_handle snd_ok junk isostr flt) ms c)))
      = concat (map wire (bc_posted c)) @ concat (map (packet_text isostr) (filter (wanted flt) ms))"
    by (induction ms arbitrary: c) (simp_all add: conn_handle_posted posted_wire)
  show "wanted flt m \<longleftrightarrow> flt \<noteq> [] \<and> pkt_data (ms_packet m) \<noteq> []
        \<and> (flt = ''*'' \<or> (\<exists>a b. pkt_data (ms_packet m) = a @ chars flt @ b))"
    by (auto simp: wanted_def conn_filter_def contains_iff length_Suc_conv)
qed


lemma client_gets_wanted_witness:
  "\<not> wanted ''ab'' (message_new \<lparr>pkt_data = [], pkt_info = pinfo0\<rparr>)"
  using client_gets_wanted [where flt = "''ab''" and m = "message_new \<lparr>pkt_data = [], pkt_info = pinfo0\<rparr>"]
  by (simp add: message_new_def)

subsection \<open>Server: one connection per port\<close>

text \<open>
  \<open>lv_timer\<close>: the accept timer exists and its wait is pending. The accept of the listener is idle, waiting
  for a client, completed with its handler still queued (\<open>PReady\<close>), or cancelled with its handler still
  queued. \<open>lv_conn\<close>: the connection accepted exists. A server exists as long as a handler holds it.
\<close>

datatype pend = PIdle | PWaiting | PReady | PAborted

record live_server =
  lv_count :: nat
  lv_timer :: bool
  lv_accept :: pend
  lv_conn :: bool

definition lserver_start :: live_server where
  "lserver_start = \<lparr>lv_count = 0, lv_timer = True, lv_accept = PWaiting, lv_conn = False\<rparr>"

definition lserver_cancel :: "live_server \<Rightarrow> live_server" where
  "lserver_cancel sv = (if lv_accept sv = PWaiting then sv\<lparr>lv_accept := PAborted\<rparr> else sv)"

definition stopAcceptTimer :: "live_server \<Rightarrow> live_server" where
  "stopAcceptTimer sv = sv\<lparr>lv_timer := False\<rparr>"

text \<open>The slot connected to the grabber's termination and to the end of the connection.\<close>

definition lserver_signal :: "live_server \<Rightarrow> live_server" where
  "lserver_signal sv = lserver_cancel (stopAcceptTimer sv)"

text \<open>The accept handler. Making the connection or its sniffer may throw (\<open>ConnRefused\<close>); so may starting it, when it
  is already connected to the server's slot (\<open>ConnDropped\<close>): its destructor signals the end.\<close>

datatype conn_outcome = ConnStarted | ConnRefused | ConnDropped

definition lserver_accepted :: "bool \<Rightarrow> conn_outcome \<Rightarrow> live_server \<Rightarrow> live_server" where
  "lserver_accepted grabber_alive out sv =
     (let sv = sv\<lparr>lv_accept := PIdle\<rparr>;
          sv = (if lv_count sv \<noteq> 0 then sv
                else if grabber_alive then
                  (case out of
                     ConnStarted \<Rightarrow> (stopAcceptTimer (sv\<lparr>lv_conn := True\<rparr>))\<lparr>lv_count := lv_count sv + 1\<rparr>
                   | ConnRefused \<Rightarrow> sv
                   | ConnDropped \<Rightarrow> lserver_signal sv)
                else sv)
      in sv\<lparr>lv_accept := PWaiting\<rparr>)"

definition lserver_timer_expired :: "live_server \<Rightarrow> live_server" where
  "lserver_timer_expired sv = lserver_cancel (stopAcceptTimer sv)"

definition lserver_conn_end :: "live_server \<Rightarrow> live_server" where
  "lserver_conn_end sv = lserver_signal (sv\<lparr>lv_conn := False\<rparr>)"

datatype transport = ServerTCP | ServerWS

definition srv_create :: "string \<Rightarrow> transport option" where
  "srv_create t = (if t = ''tcp'' then Some ServerTCP else if t = ''websocket'' then Some ServerWS else None)"

subsection \<open>Grabber: the servers\<close>

record live_world =
  lw_alive :: bool
  lw_captures :: nat
  lw_next :: nat
  lw_servers :: "nat \<rightharpoonup> live_server"

definition live0 :: live_world where
  "live0 = \<lparr>lw_alive = True, lw_captures = 0, lw_next = 0, lw_servers = Map.empty\<rparr>"

text \<open>\<open>open\<close>: \<open>listens\<close> is the exception of the server's constructor when it finds no port.\<close>

definition grabber_open :: "config \<Rightarrow> (transport \<Rightarrow> error option) \<Rightarrow> string \<Rightarrow> string \<Rightarrow> live_world \<Rightarrow> (nat \<times> u64) result \<times> live_world" where
  "grabber_open cfg listens tport capture w =
     (let sname = cname capture in
      if \<not> isCaptureExists cfg sname then (Inl (ItemNotFound (''capture '' @ quoted sname @ '' not found'')), w)
      else if unat (lc_limit (cf_listener cfg)) \<le> lw_captures w then (Inl (TooManyItems ''limit of connections reached''), w)
      else
        (case srv_create tport of
           None \<Rightarrow> (Inl (RuntimeError (''failed to create '' @ quoted tport @ '' server'')), w)
         | Some t \<Rightarrow>
             (case listens t of
                Some e \<Rightarrow> (Inl e, w)
              | None \<Rightarrow>
                  (Inr (lw_next w, lc_timeout (cf_listener cfg)),
                   w\<lparr>lw_captures := lw_captures w + 1, lw_next := lw_next w + 1,
                     lw_servers := (lw_servers w)(lw_next w \<mapsto> lserver_start)\<rparr>))))"

text \<open>What happens to the servers. \<open>EGone\<close>: the last handler that held a server has run, its destructor
  signals the grabber. \<open>ETerminate\<close> is the destructor of the grabber, which then waits until no capture
  is left.\<close>

datatype live_event =
    EOpen string string
  | EClient nat
  | EAccepted nat conn_outcome
  | EAcceptError nat
  | EAborted nat
  | ETimer nat
  | EConnEnd nat
  | EGone nat
  | ETerminate

definition on_server :: "nat \<Rightarrow> (live_server \<Rightarrow> bool) \<Rightarrow> (live_server \<Rightarrow> live_server) \<Rightarrow> live_world \<Rightarrow> live_world option" where
  "on_server i enabled f w =
     (case lw_servers w i of
        None \<Rightarrow> None
      | Some sv \<Rightarrow> if enabled sv then Some (w\<lparr>lw_servers := (lw_servers w)(i \<mapsto> f sv)\<rparr>) else None)"

definition held :: "live_server \<Rightarrow> bool" where
  "held sv \<longleftrightarrow> lv_timer sv \<or> lv_accept sv \<noteq> PIdle"

fun live_do :: "config \<Rightarrow> (transport \<Rightarrow> error option) \<Rightarrow> live_event \<Rightarrow> live_world \<Rightarrow> live_world option" where
  "live_do cfg listens (EOpen tport capture) w =
     (if lw_alive w then Some (snd (grabber_open cfg listens tport capture w)) else None)"
| "live_do cfg listens (EClient i) w =
     on_server i (\<lambda>sv. lv_accept sv = PWaiting) (\<lambda>sv. sv\<lparr>lv_accept := PReady\<rparr>) w"
| "live_do cfg listens (EAccepted i out) w =
     on_server i (\<lambda>sv. lv_accept sv = PReady) (lserver_accepted (lw_alive w) out) w"
| "live_do cfg listens (EAcceptError i) w =
     on_server i (\<lambda>sv. lv_accept sv = PWaiting) (\<lambda>sv. sv\<lparr>lv_accept := PIdle\<rparr>) w"
| "live_do cfg listens (EAborted i) w =
     on_server i (\<lambda>sv. lv_accept sv = PAborted) (\<lambda>sv. sv\<lparr>lv_accept := PIdle\<rparr>) w"
| "live_do cfg listens (ETimer i) w = on_server i lv_timer lserver_timer_expired w"
| "live_do cfg listens (EConnEnd i) w = on_server i lv_conn lserver_conn_end w"
| "live_do cfg listens (EGone i) w =
     (case lw_servers w i of
        None \<Rightarrow> None
      | Some sv \<Rightarrow>
          if held sv then None
          else Some (w\<lparr>lw_captures := lw_captures w - 1, lw_servers := (lw_servers w)(i := None)\<rparr>))"
| "live_do cfg listens ETerminate w =
     (if lw_alive w then Some (w\<lparr>lw_alive := False, lw_servers := (\<lambda>i. map_option lserver_signal (lw_servers w i))\<rparr>) else None)"

text \<open>\<open>shutdown\<close> returns once no capture is left.\<close>

definition shutdown_done :: "live_world \<Rightarrow> bool" where
  "shutdown_done w \<longleftrightarrow> lw_captures w = 0"

inductive live_step :: "config \<Rightarrow> (transport \<Rightarrow> error option) \<Rightarrow> live_event set \<Rightarrow> live_world \<Rightarrow> live_world \<Rightarrow> bool" for cfg listens evs where
  live_event: "live_do cfg listens ev w = Some w' \<Longrightarrow> ev \<in> evs \<Longrightarrow> live_step cfg listens evs w w'"

inductive_cases live_stepE: "live_step cfg listens evs w w'"

definition server_ok :: "live_server \<Rightarrow> bool" where
  "server_ok sv \<longleftrightarrow> lv_count sv \<le> 1 \<and> (lv_conn sv \<longrightarrow> lv_count sv = 1)"

definition live_inv :: "config \<Rightarrow> live_world \<Rightarrow> bool" where
  "live_inv cfg w \<longleftrightarrow> dom (lw_servers w) \<subseteq> {..<lw_next w} \<and> lw_captures w = card (dom (lw_servers w))
     \<and> lw_captures w \<le> unat (lc_limit (cf_listener cfg)) \<and> (\<forall>i sv. lw_servers w i = Some sv \<longrightarrow> server_ok sv)"

lemmas lserver_defs = lserver_start_def lserver_cancel_def stopAcceptTimer_def lserver_signal_def lserver_accepted_def
  lserver_timer_expired_def lserver_conn_end_def

lemma server_ok_ops:
  "server_ok lserver_start"
  "server_ok sv \<Longrightarrow> server_ok (sv\<lparr>lv_accept := p\<rparr>)"
  "server_ok sv \<Longrightarrow> server_ok (lserver_accepted al out sv)"
  "server_ok sv \<Longrightarrow> server_ok (lserver_timer_expired sv)"
  "server_ok sv \<Longrightarrow> server_ok (lserver_conn_end sv)"
  "server_ok sv \<Longrightarrow> server_ok (lserver_signal sv)"
  by (auto simp: server_ok_def lserver_defs Let_def split: conn_outcome.splits)

lemma live_inv_on_server:
  assumes "live_inv cfg w" and "on_server i en f w = Some w'" and "\<And>sv. server_ok sv \<Longrightarrow> server_ok (f sv)"
  shows "live_inv cfg w'"
proof -
  obtain sv where sv: "lw_servers w i = Some sv" and w': "w' = w\<lparr>lw_servers := (lw_servers w)(i \<mapsto> f sv)\<rparr>"
    using assms(2) by (auto simp: on_server_def split: option.splits if_splits)
  have "dom ((lw_servers w)(i \<mapsto> f sv)) = dom (lw_servers w)" using sv by auto
  then show ?thesis using assms(1,3) sv by (simp add: live_inv_def w')
qed

lemma live_inv_finite: "live_inv cfg w \<Longrightarrow> finite (dom (lw_servers w))"
  by (auto simp: live_inv_def intro: finite_subset)

lemma live_inv_open:
  assumes "live_inv cfg w"
  shows "live_inv cfg (snd (grabber_open cfg listens tport capture w))"
proof -
  have "lw_next w \<notin> dom (lw_servers w)" using assms by (auto simp: live_inv_def)
  moreover have "finite (dom (lw_servers w))" using assms by (rule live_inv_finite)
  ultimately show ?thesis using assms server_ok_ops(1)
    by (auto simp: live_inv_def grabber_open_def Let_def card_insert_if split: option.splits)
qed

lemma live_inv_gone:
  assumes "live_inv cfg w" and "lw_servers w i = Some sv"
  shows "live_inv cfg (w\<lparr>lw_captures := lw_captures w - 1, lw_servers := (lw_servers w)(i := None)\<rparr>)"
proof -
  have "card (dom (lw_servers w) - {i}) = card (dom (lw_servers w)) - 1"
    using live_inv_finite [OF assms(1)] assms(2) by (simp add: card_Diff_singleton domI)
  then show ?thesis using assms by (auto simp: live_inv_def)
qed

lemma live_inv_do:
  assumes "live_inv cfg w" and "live_do cfg listens ev w = Some w'"
  shows "live_inv cfg w'"
proof (cases ev)
  case (EOpen t c)
  then show ?thesis using assms live_inv_open [OF assms(1)] by (auto split: if_splits)
next
  case (EGone i)
  then show ?thesis using assms live_inv_gone [OF assms(1)] by (auto split: option.splits if_splits)
next
  case ETerminate
  have "dom (\<lambda>i. map_option lserver_signal (lw_servers w i)) = dom (lw_servers w)" by auto
  moreover have "w' = w\<lparr>lw_alive := False, lw_servers := (\<lambda>i. map_option lserver_signal (lw_servers w i))\<rparr>"
    using assms(2) ETerminate by (simp split: if_splits)
  ultimately show ?thesis using assms(1) server_ok_ops(6) by (auto simp: live_inv_def simp del: dom_map_option)
qed (use assms server_ok_ops in \<open>auto intro: live_inv_on_server [OF assms(1)]\<close>)

lemma live_inv_reach:
  assumes "rtranclp (live_step cfg listens evs) live0 w"
  shows "live_inv cfg w"
  using assms
proof (induction rule: rtranclp_induct)
  case base
  show ?case by (simp add: live_inv_def live0_def)
next
  case (step w w')
  then show ?case by (auto elim!: live_stepE intro: live_inv_do)
qed

text \<open>C16: the service keeps its limits: after any sequence of events the grabber counts exactly the servers
  that exist, they are no more than the configured limit, and a server serves one connection in its
  life, so at most as many connections as the limit allows exist at once.\<close>

theorem live_limits:
  assumes "rtranclp (live_step cfg listens evs) live0 w"
  shows "lw_captures w = card (dom (lw_servers w)) \<and> lw_captures w \<le> unat (lc_limit (cf_listener cfg))
    \<and> (lw_servers w i = Some sv \<longrightarrow> lv_count sv \<le> 1)
    \<and> card {i. \<exists>sv. lw_servers w i = Some sv \<and> lv_conn sv} \<le> unat (lc_limit (cf_listener cfg))"
proof -
  have inv: "live_inv cfg w" using assms by (rule live_inv_reach)
  have "card {i. \<exists>sv. lw_servers w i = Some sv \<and> lv_conn sv} \<le> card (dom (lw_servers w))"
    by (rule card_mono [OF live_inv_finite [OF inv]]) auto
  then show ?thesis using inv by (auto simp: live_inv_def server_ok_def)
qed


definition demo_config :: config where
  "demo_config = \<lparr>cf_captures = Map.empty, cf_listener = (listener_cfg0 ''lo'')\<lparr>lc_limit := 1\<rparr>\<rparr>"

lemma demo_open: "live_do demo_config (\<lambda>_. None) (EOpen ''tcp'' []) live0
  = Some (live0\<lparr>lw_captures := 1, lw_next := 1, lw_servers := [0 \<mapsto> lserver_start]\<rparr>)"
  by (simp add: grabber_open_def demo_config_def listener_cfg0_def live0_def isCaptureExists_def config_capture_def cname_def
      capture_cfg0_def srv_create_def Let_def)

theorem live_limits_witness:
  "card {i. \<exists>sv. lw_servers (live0\<lparr>lw_captures := 1, lw_next := 1, lw_servers := [0 \<mapsto> lserver_start]\<rparr>) i = Some sv \<and> lv_conn sv} \<le> 1"
proof -
  have "live_step demo_config (\<lambda>_. None) UNIV live0 (live0\<lparr>lw_captures := 1, lw_next := 1, lw_servers := [0 \<mapsto> lserver_start]\<rparr>)"
    by (rule live_event [OF demo_open]) simp
  then have "rtranclp (live_step demo_config (\<lambda>_. None) UNIV) live0 (live0\<lparr>lw_captures := 1, lw_next := 1, lw_servers := [0 \<mapsto> lserver_start]\<rparr>)"
    by (rule r_into_rtranclp)
  from live_limits [OF this] show ?thesis by (simp add: demo_config_def listener_cfg0_def)
qed

text \<open>A server that accepts without a timer, a connection, or a grabber that could still signal it.\<close>

definition orphan :: "live_server \<Rightarrow> bool" where
  "orphan sv \<longleftrightarrow> lv_accept sv \<in> {PWaiting, PReady} \<and> \<not> lv_timer sv \<and> \<not> lv_conn sv"

definition no_accept_error :: "live_event set" where
  "no_accept_error = {ev. \<forall>i. ev \<noteq> EAcceptError i}"

lemma orphan_accepted: "orphan sv \<Longrightarrow> orphan (lserver_accepted False out sv)"
  by (simp add: orphan_def lserver_accepted_def Let_def)

lemma orphan_do:
  assumes "live_do cfg listens ev w = Some w'" and "ev \<in> no_accept_error"
    and "\<not> lw_alive w" and "lw_servers w i = Some sv" and "orphan sv"
  shows "\<not> lw_alive w' \<and> (\<exists>sv'. lw_servers w' i = Some sv' \<and> orphan sv')"
proof (cases "\<exists>j out. ev = EAccepted j out")
  case True
  then show ?thesis using assms orphan_accepted
    by (auto simp: on_server_def split: option.splits if_splits)
next
  case False
  then show ?thesis using assms
    by (cases ev) (auto simp: on_server_def orphan_def no_accept_error_def held_def split: option.splits if_splits)
qed

lemma orphan_reach:
  assumes "rtranclp (live_step cfg listens no_accept_error) w w'"
    and "\<not> lw_alive w" and "lw_servers w i = Some sv" and "orphan sv"
  shows "\<not> lw_alive w' \<and> (\<exists>sv'. lw_servers w' i = Some sv' \<and> orphan sv')"
  using assms
proof (induction rule: rtranclp_induct)
  case (step y z)
  then show ?case by (auto elim!: live_stepE dest: orphan_do)
qed auto

text \<open>The destructor of the grabber can wait for ever: if a client has connected to a server that serves
  no connection and the accept handler has not run yet when the grabber terminates, the handler accepts
  again on a listener nothing cancels any more; the server stays, and unless accepting fails the count
  of captures the destructor waits for never reaches zero.\<close>

lemma shutdown_may_hang:
  assumes "rtranclp (live_step cfg listens UNIV) live0 w"
    and "lw_servers w i = Some sv" and "lv_accept sv = PReady" and "\<not> lv_conn sv"
    and "live_do cfg listens ETerminate w = Some w1"
    and "rtranclp (live_step cfg listens no_accept_error) w1 w2"
  shows "\<not> shutdown_done w2"
proof -
  have w1: "w1 = w\<lparr>lw_alive := False, lw_servers := (\<lambda>i. map_option lserver_signal (lw_servers w i))\<rparr>"
    using assms(5) by (simp split: if_splits)
  have "orphan (lserver_signal sv)" using assms(3,4) by (simp add: orphan_def lserver_defs)
  then have "\<exists>sv'. lw_servers w2 i = Some sv'"
    using orphan_reach [OF assms(6), of i "lserver_signal sv"] assms(2) by (auto simp: w1)
  moreover have "live_inv cfg w2"
  proof -
    have "live_inv cfg w1" using live_inv_do [OF live_inv_reach [OF assms(1)] assms(5)] .
    with assms(6) show ?thesis by (induction rule: rtranclp_induct) (auto elim!: live_stepE intro: live_inv_do)
  qed
  ultimately show ?thesis
    using live_inv_finite [of cfg w2] by (auto simp: live_inv_def shutdown_done_def card_eq_0_iff)
qed

lemma shutdown_may_hang_witness:
  "\<exists>w. live_do demo_config (\<lambda>_. None) ETerminate
      (live0\<lparr>lw_captures := 1, lw_next := 1, lw_servers := [0 \<mapsto> lserver_start\<lparr>lv_accept := PReady\<rparr>]\<rparr>) = Some w \<and> \<not> shutdown_done w"
proof -
  let ?v = "live0\<lparr>lw_captures := 1, lw_next := 1, lw_servers := [0 \<mapsto> lserver_start]\<rparr>"
    and ?w = "live0\<lparr>lw_captures := 1, lw_next := 1, lw_servers := [0 \<mapsto> lserver_start\<lparr>lv_accept := PReady\<rparr>]\<rparr>"
  have "live_step demo_config (\<lambda>_. None) UNIV live0 ?v" by (rule live_event [OF demo_open]) simp
  moreover have "live_step demo_config (\<lambda>_. None) UNIV ?v ?w"
    by (rule live_event [where ev = "EClient 0"]) (simp_all add: on_server_def lserver_start_def)
  ultimately have r: "rtranclp (live_step demo_config (\<lambda>_. None) UNIV) live0 ?w"
    by (meson rtranclp.rtrancl_into_rtrancl rtranclp.rtrancl_refl)
  obtain w1 where t: "live_do demo_config (\<lambda>_. None) ETerminate ?w = Some w1" by (simp add: live0_def)
  have "\<not> shutdown_done w1"
    by (rule shutdown_may_hang [OF r _ _ _ t rtranclp.rtrancl_refl, of 0 "lserver_start\<lparr>lv_accept := PReady\<rparr>"]) (simp_all add: lserver_start_def)
  with t show ?thesis by blast
qed

end
