(* ===== verification/Live_Client.thy ===== *)
theory Live_Client
  imports Livecapture
begin

section \<open>The life of a client of the live capture (livecapture/connection.cpp)\<close>

text \<open>
  \<open>Connection\<close> lives in its handlers: the one of the capture timer, the one of the pending read, and one for each packet
  that \<open>post\<close> has put on the service. \<open>start\<close> begins timer and read; the timer closes the socket when it expires, a
  read that fails cancels the timer, and the signal of termination does both. An operation that has completed or
  was canceled waits with its result until the service runs its handler. Packets are posted as long as the object
  is there, also while it ends: only the destructor disconnects it from them, and tells the server that it may end.
\<close>

datatype client_timer = TmIdle | TmWait | TmDue bool
datatype client_read = RdIdle | RdWait | RdDue bool

text \<open>\<open>TmDue True\<close>: the timer has expired, \<open>TmDue False\<close>: it was canceled; \<open>RdDue True\<close>: data has come,
  \<open>RdDue False\<close>: the read has failed; \<open>cc_posts\<close> counts the packets posted whose handler has not run.\<close>

record client_conn =
  cc_open :: bool
  cc_timer :: client_timer
  cc_read :: client_read
  cc_posts :: nat

definition cancel_timer :: "client_conn \<Rightarrow> client_conn" where
  "cancel_timer c = (if cc_timer c = TmWait then c\<lparr>cc_timer := TmDue False\<rparr> else c)"

definition close_socket :: "client_conn \<Rightarrow> client_conn" where
  "close_socket c = c\<lparr>cc_open := False, cc_read := (if cc_read c = RdWait then RdDue False else cc_read c)\<rparr>"

definition client_read_start :: "client_conn \<Rightarrow> client_conn" where
  "client_read_start c = c\<lparr>cc_read := (if cc_open c then RdWait else RdDue False)\<rparr>"

text \<open>The object is connected to the packets before \<open>start\<close> is called, so some may have been posted.\<close>

definition client_start :: "bool \<Rightarrow> nat \<Rightarrow> client_conn" where
  "client_start is_open posts = client_read_start \<lparr>cc_open = is_open, cc_timer = TmWait, cc_read = RdIdle, cc_posts = posts\<rparr>"

text \<open>\<open>post\<close> and its handler; what the handler writes is \<open>conn_handle\<close>.\<close>

definition client_post :: "client_conn \<Rightarrow> client_conn" where
  "client_post c = c\<lparr>cc_posts := cc_posts c + 1\<rparr>"

definition client_post_handler :: "client_conn \<Rightarrow> client_conn" where
  "client_post_handler c = c\<lparr>cc_posts := cc_posts c - 1\<rparr>"

text \<open>The handler that \<open>connect\<close> puts on the signals of termination.\<close>

definition client_terminate :: "client_conn \<Rightarrow> client_conn" where
  "client_terminate c = close_socket (cancel_timer c)"

definition client_timer_handler :: "client_conn \<Rightarrow> client_conn" where
  "client_timer_handler c =
     (let expired = (cc_timer c = TmDue True); c = c\<lparr>cc_timer := TmIdle\<rparr>
      in if expired then close_socket c else c)"

definition client_read_handler :: "bytes \<Rightarrow> client_conn \<Rightarrow> client_conn" where
  "client_read_handler buf c =
     (let ok = (cc_read c = RdDue True); c = c\<lparr>cc_read := RdIdle\<rparr>
      in if ok \<and> conn_proccess buf (length buf) then client_read_start c else cancel_timer c)"

text \<open>No handler is left: the object is destroyed and its destructor signals the server.\<close>

definition client_released :: "client_conn \<Rightarrow> bool" where
  "client_released c \<longleftrightarrow> cc_timer c = TmIdle \<and> cc_read c = RdIdle \<and> cc_posts c = 0"

text \<open>The service runs a handler that is due.\<close>

inductive client_run :: "client_conn \<Rightarrow> client_conn \<Rightarrow> bool" where
  run_timer: "cc_timer c = TmDue b \<Longrightarrow> client_run c (client_timer_handler c)"
| run_read: "cc_read c = RdDue b \<Longrightarrow> client_run c (client_read_handler buf c)"
| run_post: "0 < cc_posts c \<Longrightarrow> client_run c (client_post_handler c)"

inductive_cases client_runE: "client_run c c'"

text \<open>What comes from outside: data arrives, a packet is captured.\<close>

inductive client_input :: "client_conn \<Rightarrow> client_conn \<Rightarrow> bool" where
  input_data: "cc_read c = RdWait \<Longrightarrow> client_input c (c\<lparr>cc_read := RdDue True\<rparr>)"
| input_packet: "\<not> client_released c \<Longrightarrow> client_input c (client_post c)"

text \<open>What ends it: the read fails, the timer expires, the server or the grabber terminates.\<close>

inductive client_end :: "client_conn \<Rightarrow> client_conn \<Rightarrow> bool" where
  end_fail: "cc_read c = RdWait \<Longrightarrow> client_end c (c\<lparr>cc_read := RdDue False\<rparr>)"
| end_expire: "cc_timer c = TmWait \<Longrightarrow> client_end c (c\<lparr>cc_timer := TmDue True\<rparr>)"
| end_terminate: "\<not> client_released c \<Longrightarrow> client_end c (client_terminate c)"

inductive_cases client_inputE: "client_input c c'"
inductive_cases client_endE: "client_end c c'"

text \<open>A history of a client, with the handlers that ran and the inputs that came.\<close>

inductive client_steps :: "nat \<Rightarrow> nat \<Rightarrow> client_conn \<Rightarrow> client_conn \<Rightarrow> bool" where
  steps_refl: "client_steps 0 0 c c"
| steps_run: "client_steps n k c d \<Longrightarrow> client_run d e \<Longrightarrow> client_steps (Suc n) k c e"
| steps_input: "client_steps n k c d \<Longrightarrow> client_input d e \<Longrightarrow> client_steps n (Suc k) c e"
| steps_end: "client_steps n k c d \<Longrightarrow> client_end d e \<Longrightarrow> client_steps n k c e"

definition client_ok :: "client_conn \<Rightarrow> bool" where
  "client_ok c \<longleftrightarrow> (\<not> cc_open c \<longrightarrow> cc_read c \<noteq> RdWait) \<and> (cc_read c = RdIdle \<longrightarrow> cc_timer c \<noteq> TmWait)
     \<and> (cc_timer c = TmIdle \<or> cc_timer c = TmDue False \<longrightarrow> \<not> cc_open c \<or> cc_read c = RdIdle)"

lemmas client_defs = client_timer_handler_def client_read_handler_def client_read_start_def client_terminate_def
  close_socket_def cancel_timer_def client_start_def client_post_def client_post_handler_def conn_proccess_def Let_def

lemma client_ok_start: "client_ok (client_start is_open posts)"
  by (simp add: client_ok_def client_defs)

lemma client_ok_run: "client_run c c' \<Longrightarrow> client_ok c \<Longrightarrow> client_ok c'"
  by (erule client_runE) (auto simp: client_ok_def client_defs split: if_splits)

lemma client_ok_input: "client_input c c' \<Longrightarrow> client_ok c \<Longrightarrow> client_ok c'"
  by (erule client_inputE) (auto simp: client_ok_def client_defs)

lemma client_ok_end: "client_end c c' \<Longrightarrow> client_ok c \<Longrightarrow> client_ok c'"
  by (erule client_endE) (auto simp: client_ok_def client_defs)

lemma client_ok_steps: "client_steps n k c c' \<Longrightarrow> client_ok c \<Longrightarrow> client_ok c'"
  by (induction rule: client_steps.induct) (auto intro: client_ok_run client_ok_input client_ok_end)

text \<open>The end has begun: the timer has expired, the socket is closed or the read has failed.\<close>

definition client_ending :: "client_conn \<Rightarrow> bool" where
  "client_ending c \<longleftrightarrow> cc_timer c = TmDue True \<or> \<not> cc_open c \<or> cc_read c = RdDue False \<or> cc_read c = RdIdle"

text \<open>What is left to run until the end.\<close>

definition client_left :: "client_conn \<Rightarrow> nat" where
  "client_left c =
     (case cc_timer c of TmIdle \<Rightarrow> 0 | TmDue _ \<Rightarrow> 1 | TmWait \<Rightarrow> 2) +
     (case cc_read c of RdIdle \<Rightarrow> 0 | RdDue False \<Rightarrow> 1 | RdWait \<Rightarrow> 2 | RdDue True \<Rightarrow> 3) + cc_posts c"

lemma client_left_run:
  assumes "client_run c c'" and "client_ok c" and "client_ending c"
  shows "client_left c' < client_left c \<and> client_ending c'"
  using assms(1)
proof (cases rule: client_run.cases)
  case (run_timer b)
  with assms(2,3) show ?thesis
    by (cases b; cases "cc_read c"; cases "cc_open c")
      (auto simp: client_left_def client_ok_def client_ending_def client_defs split: bool.split)
next
  case (run_read b buf)
  with assms(2,3) show ?thesis
    by (cases b; cases "cc_timer c"; cases "cc_open c")
      (auto simp: client_left_def client_ok_def client_ending_def client_defs split: bool.split)
next
  case run_post
  with assms(3) show ?thesis by (simp add: client_left_def client_ending_def client_defs)
qed

lemma client_left_input:
  assumes "client_input c c'" and "client_ending c"
  shows "client_left c' \<le> client_left c + 1 \<and> client_ending c'"
  using assms(1)
proof (cases rule: client_input.cases)
  case input_data
  then show ?thesis using assms(2) by (auto simp: client_left_def client_ending_def)
next
  case input_packet
  then show ?thesis using assms(2) by (simp add: client_left_def client_ending_def client_defs)
qed

lemma client_left_end:
  assumes "client_end c c'" and "client_ending c"
  shows "client_left c' \<le> client_left c \<and> client_ending c'"
  using assms(1)
proof (cases rule: client_end.cases)
  case end_terminate
  then show ?thesis by (auto simp: client_left_def client_ending_def client_defs)
qed (use assms(2) in \<open>auto simp: client_left_def client_ending_def\<close>)

lemma client_left_pos: "client_ok c \<Longrightarrow> client_ending c \<Longrightarrow> \<not> client_released c \<Longrightarrow> \<exists>c'. client_run c c'"
  by (cases "cc_timer c"; cases "cc_read c")
    (auto simp: client_ok_def client_ending_def client_released_def intro: client_run.intros)

lemma client_steps_bounded:
  "client_steps n k c c' \<Longrightarrow> client_ok c \<Longrightarrow> client_ending c \<Longrightarrow>
     n + client_left c' \<le> client_left c + k \<and> client_ok c' \<and> client_ending c'"
proof (induction rule: client_steps.induct)
  case (steps_run n k c d e)
  then show ?case using client_left_run [OF steps_run(2)] client_ok_run [OF steps_run(2)] by auto
next
  case (steps_input n k c d e)
  then show ?case using client_left_input [OF steps_input(2)] client_ok_input [OF steps_input(2)] by auto
next
  case (steps_end n k c d e)
  then show ?case using client_left_end [OF steps_end(2)] client_ok_end [OF steps_end(2)] by auto
qed simp

lemma client_left_bound: "client_left c \<le> 5 + cc_posts c"
  by (auto simp: client_left_def split: client_timer.split client_read.split bool.split)

text \<open>C37: a capture ends. Once its time is over, the server or the grabber terminates or the read fails, whatever else happens
  and in whatever order the handlers run, at most five of them run, and one more for each packet that is posted
  then, or is posted or received afterwards. When none is left to run the connection has been released, so
  that its server learns of its end; until then there is always one to run. Packets that keep coming do keep
  the connection.\<close>

theorem capture_ends:
  assumes "client_steps m j (client_start is_open posts) c" and "client_ending c" and "client_steps n k c c'"
  shows "n \<le> 5 + cc_posts c + k \<and> (client_released c' \<longleftrightarrow> (\<nexists>c''. client_run c' c''))"
proof -
  have ok: "client_ok c" using assms(1) client_ok_start by (rule client_ok_steps)
  from client_steps_bounded [OF assms(3) ok assms(2)]
  have n: "n + client_left c' \<le> client_left c + k" and c': "client_ok c'" "client_ending c'" by simp_all
  have "\<not> client_run c' c''" if "client_released c'" for c''
    using that by (auto simp: client_released_def elim!: client_runE)
  with client_left_pos [OF c'] n client_left_bound [of c] show ?thesis by auto
qed

text \<open>Data and a packet arrive, the time is over before their handlers run, another packet is posted, and five handlers
  end the capture.\<close>

definition demo_conn :: client_conn where
  "demo_conn = \<lparr>cc_open = True, cc_timer = TmDue True, cc_read = RdDue True, cc_posts = 1\<rparr>"

lemma demo_conn_steps: "client_steps 0 2 (client_start True 0) demo_conn"
proof -
  let ?a = "(client_start True 0)\<lparr>cc_read := RdDue True\<rparr>"
  have "client_steps 0 1 (client_start True 0) ?a"
    using steps_input [OF steps_refl input_data [of "client_start True 0"]] by (simp add: client_defs)
  moreover have "client_input ?a (client_post ?a)"
    by (rule input_packet) (simp add: client_released_def client_defs)
  ultimately have "client_steps 0 2 (client_start True 0) (client_post ?a)"
    using steps_input [of 0 1] by (simp add: numeral_2_eq_2)
  moreover have "client_end (client_post ?a) demo_conn"
    using end_expire [of "client_post ?a"] by (simp add: client_defs demo_conn_def)
  ultimately show ?thesis by (rule steps_end)
qed

theorem capture_ends_witness:
  "client_released (client_post_handler (client_read_handler [] (client_read_handler [7]
     (client_timer_handler (client_post_handler (client_post demo_conn))))))"
proof -
  let ?a = "client_post_handler (client_post demo_conn)"
  let ?b = "client_timer_handler ?a"
  let ?c = "client_read_handler [7] ?b"
  let ?d = "client_read_handler [] ?c"
  let ?e = "client_post_handler ?d"
  have "client_steps 0 1 demo_conn (client_post demo_conn)"
    using steps_input [OF steps_refl input_packet [of demo_conn]] by (simp add: client_released_def demo_conn_def)
  moreover have "client_run (client_post demo_conn) ?a" by (rule run_post) (simp add: client_defs)
  moreover have "client_run ?a ?b" by (rule run_timer [where b = True]) (simp add: client_defs demo_conn_def)
  moreover have "client_run ?b ?c" by (rule run_read [where b = True]) (simp add: client_defs demo_conn_def)
  moreover have "client_run ?c ?d" by (rule run_read [where b = False]) (simp add: client_defs demo_conn_def)
  moreover have "client_run ?d ?e" by (rule run_post) (simp add: client_defs demo_conn_def)
  ultimately have r: "client_steps (Suc (Suc (Suc (Suc (Suc 0))))) 1 demo_conn ?e" by (blast intro: steps_run)
  have "\<nexists>c''. client_run ?e c''"
    by (auto elim!: client_runE simp: client_defs demo_conn_def)
  moreover have "client_ending demo_conn" by (simp add: client_ending_def demo_conn_def)
  ultimately show ?thesis using capture_ends [OF demo_conn_steps _ r] by simp
qed

end
