(* ===== verification/Live_Signals.thy ===== *)
theory Live_Signals
  imports Live_Client
begin

section \<open>The signals between grabber, servers and connections (livecapture/)\<close>

text \<open>
  The objects of the live capture end through signals whose slots hold a bare \<open>this\<close>: the grabber's signal tells its
  servers, the signal of a server tells the grabber and the connections it made, the signal of a connection tells its
  server, and a sniffer tells the connections of every packet. Constructors connect, destructors disconnect before
  they signal, and a slot of an end disconnects itself before it does its work (\<open>lserver_signal\<close>, \<open>client_terminate\<close>).

  The threads of the program run these at the same time, so the steps are small: each statement of a destructor is one,
  and a signal that is given goes through the slots it had one by one, each of which begins only if it is still
  connected, as boost's signals do. Steps of different threads come in any order. A slot is logged when it begins,
  with the phase of the object it calls; boost does not wait for it when its object disconnects, so how long it
  runs is not part of the model.
\<close>

subsection \<open>Objects, slots and calls\<close>

datatype slot_call = ToGrabber | ToServer nat | ToConn nat | PacketTo nat

text \<open>Who gives a signal.\<close>

datatype emitter = ByGrabber | ByServer nat | ByConn nat | BySniffer

text \<open>The life of a server or a connection: in its constructor, held by some reference, with its last reference
  gone, with the first and with both of its slots disconnected by the destructor, giving its last signal.\<close>

datatype phase = Making | Held | Unheld | HalfOff | AllOff | Telling

text \<open>A slot is the pair of the object whose signal it is on and the object it calls: \<open>wr_term\<close> is the grabber's signal,
  \<open>wr_sterm\<close> those of the servers, \<open>wr_finish\<close> those of the connections, \<open>wr_notify\<close> the packets. A connection is known
  with the server that made it. The counter \<open>captures_\<close> is the length of \<open>wr_captures\<close>, the servers it counts.
  \<open>wr_pending\<close> has the slots that a signal being given has still to go through.\<close>

record wiring =
  wr_next :: nat
  wr_grabber :: bool
  wr_terminated :: bool
  wr_captures :: "nat list"
  wr_servers :: "nat \<Rightarrow> phase option"
  wr_conns :: "nat \<Rightarrow> (nat \<times> phase) option"
  wr_term :: "nat list"
  wr_sterm :: "(nat \<times> nat) list"
  wr_finish :: "(nat \<times> nat) list"
  wr_notify :: "nat list"
  wr_pending :: "emitter \<Rightarrow> slot_call list"
  wr_calls :: "(slot_call \<times> phase option) list"

definition wiring_new :: wiring where
  "wiring_new = \<lparr>wr_next = 0, wr_grabber = True, wr_terminated = False, wr_captures = [], wr_servers = Map.empty,
     wr_conns = Map.empty, wr_term = [], wr_sterm = [], wr_finish = [], wr_notify = [], wr_pending = (\<lambda>_. []), wr_calls = []\<rparr>"

text \<open>The phase of the object a slot calls, None when there is no such object.\<close>

definition target_phase :: "wiring \<Rightarrow> slot_call \<Rightarrow> phase option" where
  "target_phase w c =
     (case c of ToGrabber \<Rightarrow> (if wr_grabber w then Some Held else None) | ToServer i \<Rightarrow> wr_servers w i
      | ToConn j \<Rightarrow> map_option snd (wr_conns w j) | PacketTo j \<Rightarrow> map_option snd (wr_conns w j))"

subsection \<open>Giving a signal\<close>

definition give_signal :: "emitter \<Rightarrow> slot_call list \<Rightarrow> wiring \<Rightarrow> wiring" where
  "give_signal e cs w = w\<lparr>wr_pending := (wr_pending w)(e := cs)\<rparr>"

fun connected :: "emitter \<Rightarrow> slot_call \<Rightarrow> wiring \<Rightarrow> bool" where
  "connected ByGrabber (ToServer i) w = (i \<in> set (wr_term w))"
| "connected (ByServer i) ToGrabber w = True"
| "connected (ByServer i) (ToConn j) w = ((i, j) \<in> set (wr_sterm w))"
| "connected (ByConn j) (ToServer i) w = ((j, i) \<in> set (wr_finish w))"
| "connected BySniffer (PacketTo j) w = (j \<in> set (wr_notify w))"
| "connected e c w = False"

text \<open>What a slot does to the signals: those of an end disconnect themselves, the grabber's counts the server out, and
  \<open>post\<close> throws from \<open>shared_from_this\<close> when its connection is not held yet or no longer, which ends the whole signal.\<close>

fun slot_effect :: "emitter \<Rightarrow> slot_call \<Rightarrow> wiring \<Rightarrow> wiring" where
  "slot_effect ByGrabber (ToServer i) w = w\<lparr>wr_term := filter (\<lambda>x. x \<noteq> i) (wr_term w)\<rparr>"
| "slot_effect (ByServer i) ToGrabber w = w\<lparr>wr_captures := filter (\<lambda>x. x \<noteq> i) (wr_captures w)\<rparr>"
| "slot_effect (ByServer i) (ToConn j) w = w\<lparr>wr_sterm := filter (\<lambda>x. x \<noteq> (i, j)) (wr_sterm w)\<rparr>"
| "slot_effect (ByConn j) (ToServer i) w = w\<lparr>wr_finish := filter (\<lambda>x. x \<noteq> (j, i)) (wr_finish w)\<rparr>"
| "slot_effect BySniffer (PacketTo j) w = (if target_phase w (PacketTo j) = Some Held then w else give_signal BySniffer [] w)"
| "slot_effect e c w = w"

definition call_slot :: "emitter \<Rightarrow> slot_call \<Rightarrow> slot_call list \<Rightarrow> wiring \<Rightarrow> wiring" where
  "call_slot e c cs w =
     (let w = give_signal e cs w
      in if connected e c w then slot_effect e c (w\<lparr>wr_calls := wr_calls w @ [(c, target_phase w c)]\<rparr>) else w)"

subsection \<open>Constructors, destructors\<close>

text \<open>\<open>Grabber::open\<close>: the constructor of the server connects it to the grabber's signal, and the count of captures follows
  the server's.\<close>

definition wire_server :: "wiring \<Rightarrow> wiring" where
  "wire_server w =
     (let i = wr_next w
      in w\<lparr>wr_next := i + 1, wr_captures := wr_captures w @ [i], wr_servers := (wr_servers w)(i \<mapsto> Held), wr_term := wr_term w @ [i]\<rparr>)"

text \<open>The accept handler: the constructor of the connection connects it to the signals of its server and of the sniffer;
  only when it has returned does the connection have a reference.\<close>

definition wire_conn :: "nat \<Rightarrow> wiring \<Rightarrow> wiring" where
  "wire_conn i w =
     (let j = wr_next w
      in w\<lparr>wr_next := j + 1, wr_conns := (wr_conns w)(j \<mapsto> (i, Making)), wr_sterm := wr_sterm w @ [(i, j)],
           wr_notify := wr_notify w @ [j]\<rparr>)"

text \<open>\<open>finish_\<close> is one scoped connection: a new one disconnects the one before.\<close>

definition connectOnFinish :: "nat \<Rightarrow> nat \<Rightarrow> wiring \<Rightarrow> wiring" where
  "connectOnFinish i j w = w\<lparr>wr_finish := filter (\<lambda>(_, i'). i' \<noteq> i) (wr_finish w) @ [(j, i)]\<rparr>"

definition wire_made :: "nat \<Rightarrow> nat \<Rightarrow> wiring \<Rightarrow> wiring" where
  "wire_made i j w = connectOnFinish i j (w\<lparr>wr_conns := (wr_conns w)(j \<mapsto> (i, Held))\<rparr>)"

text \<open>The destructor of the grabber signals and then waits until no capture is left.\<close>

definition grabber_terminate :: "wiring \<Rightarrow> wiring" where
  "grabber_terminate w = give_signal ByGrabber (map ToServer (wr_term w)) (w\<lparr>wr_terminated := True\<rparr>)"

definition grabber_destroyed :: "wiring \<Rightarrow> wiring" where
  "grabber_destroyed w = w\<lparr>wr_grabber := False\<rparr>"

text \<open>\<open>~Connection\<close>, statement by statement: \<open>onpacket_\<close>, \<open>termination_\<close>, \<open>terminate_()\<close>, and when that signal has gone
  through its slots the members go, the signal with its slots among them.\<close>

definition conn_destroy :: "nat \<Rightarrow> wiring \<Rightarrow> wiring" where
  "conn_destroy j w =
     (case wr_conns w j of
        Some (i, Unheld) \<Rightarrow>
          w\<lparr>wr_notify := filter (\<lambda>x. x \<noteq> j) (wr_notify w), wr_conns := (wr_conns w)(j \<mapsto> (i, HalfOff))\<rparr>
      | Some (i, HalfOff) \<Rightarrow>
          w\<lparr>wr_sterm := filter (\<lambda>(_, x). x \<noteq> j) (wr_sterm w), wr_conns := (wr_conns w)(j \<mapsto> (i, AllOff))\<rparr>
      | Some (i, AllOff) \<Rightarrow>
          give_signal (ByConn j) (map (\<lambda>(_, x). ToServer x) (filter (\<lambda>(x, _). x = j) (wr_finish w)))
            (w\<lparr>wr_conns := (wr_conns w)(j \<mapsto> (i, Telling))\<rparr>)
      | Some (i, Telling) \<Rightarrow>
          (if wr_pending w (ByConn j) = []
           then w\<lparr>wr_finish := filter (\<lambda>(x, _). x \<noteq> j) (wr_finish w), wr_conns := (wr_conns w)(j := None)\<rparr> else w)
      | _ \<Rightarrow> w)"

text \<open>\<open>~Server\<close>: \<open>finish_\<close>, \<open>termination_\<close>, \<open>terminate_()\<close>.\<close>

definition server_destroy :: "nat \<Rightarrow> wiring \<Rightarrow> wiring" where
  "server_destroy i w =
     (case wr_servers w i of
        Some Unheld \<Rightarrow>
          w\<lparr>wr_finish := filter (\<lambda>(_, x). x \<noteq> i) (wr_finish w), wr_servers := (wr_servers w)(i \<mapsto> HalfOff)\<rparr>
      | Some HalfOff \<Rightarrow>
          w\<lparr>wr_term := filter (\<lambda>x. x \<noteq> i) (wr_term w), wr_servers := (wr_servers w)(i \<mapsto> AllOff)\<rparr>
      | Some AllOff \<Rightarrow>
          give_signal (ByServer i) (ToGrabber # map (\<lambda>(_, x). ToConn x) (filter (\<lambda>(x, _). x = i) (wr_sterm w)))
            (w\<lparr>wr_servers := (wr_servers w)(i \<mapsto> Telling)\<rparr>)
      | Some Telling \<Rightarrow>
          (if wr_pending w (ByServer i) = []
           then w\<lparr>wr_sterm := filter (\<lambda>(x, _). x \<noteq> i) (wr_sterm w), wr_servers := (wr_servers w)(i := None)\<rparr> else w)
      | _ \<Rightarrow> w)"

definition sniffer_notify :: "wiring \<Rightarrow> wiring" where
  "sniffer_notify w = give_signal BySniffer (map PacketTo (wr_notify w)) w"

text \<open>Servers come while the grabber is there, clients while the handler of accept holds their server and the grabber; the
  last reference to an object may go at any time; the destructor of the grabber returns only when no capture is left.\<close>

inductive wire_step :: "wiring \<Rightarrow> wiring \<Rightarrow> bool" where
  wire_open: "\<not> wr_terminated w \<Longrightarrow> wire_step w (wire_server w)"
| wire_accept: "\<not> wr_terminated w \<Longrightarrow> wr_servers w i = Some Held \<Longrightarrow> wire_step w (wire_conn i w)"
| wire_accepted: "wr_servers w i = Some Held \<Longrightarrow> wr_conns w j = Some (i, Making) \<Longrightarrow> wire_step w (wire_made i j w)"
| wire_packet: "wr_pending w BySniffer = [] \<Longrightarrow> wire_step w (sniffer_notify w)"
| wire_slot: "wr_pending w e = c # cs \<Longrightarrow> wire_step w (call_slot e c cs w)"
| wire_terminate: "\<not> wr_terminated w \<Longrightarrow> wire_step w (grabber_terminate w)"
| wire_conn_let: "wr_conns w j = Some (i, Held) \<Longrightarrow> wire_step w (w\<lparr>wr_conns := (wr_conns w)(j \<mapsto> (i, Unheld))\<rparr>)"
| wire_conn_end: "wr_conns w j = Some (i, p) \<Longrightarrow> wire_step w (conn_destroy j w)"
| wire_server_let: "wr_servers w i = Some Held \<Longrightarrow> \<forall>j. wr_conns w j \<noteq> Some (i, Making)
    \<Longrightarrow> wire_step w (w\<lparr>wr_servers := (wr_servers w)(i \<mapsto> Unheld)\<rparr>)"
| wire_server_end: "wr_servers w i = Some p \<Longrightarrow> wire_step w (server_destroy i w)"
| wire_grabber_gone: "wr_terminated w \<Longrightarrow> wr_pending w ByGrabber = [] \<Longrightarrow> wr_captures w = []
    \<Longrightarrow> wire_step w (grabber_destroyed w)"

inductive_cases wire_stepE: "wire_step w w'"

subsection \<open>No slot dangles\<close>

text \<open>A slot is connected only up to the phase in which the destructor disconnects it.\<close>

definition slots_ok :: "wiring \<Rightarrow> bool" where
  "slots_ok w \<longleftrightarrow> (\<forall>i \<in> set (wr_term w). \<exists>p \<in> {Held, Unheld, HalfOff}. wr_servers w i = Some p)
     \<and> (\<forall>(j, i) \<in> set (wr_finish w). \<exists>p \<in> {Held, Unheld}. wr_servers w i = Some p)
     \<and> (\<forall>(i, j) \<in> set (wr_sterm w). wr_servers w i \<noteq> None \<and> (\<exists>p \<in> {Making, Held, Unheld, HalfOff}. wr_conns w j = Some (i, p)))
     \<and> (\<forall>j \<in> set (wr_notify w). \<exists>i. \<exists>p \<in> {Making, Held, Unheld}. wr_conns w j = Some (i, p))"

text \<open>Numbers are new, and the constructor of a server has ended when anyone can see it.\<close>

definition numbers_ok :: "wiring \<Rightarrow> bool" where
  "numbers_ok w \<longleftrightarrow> (\<forall>i. wr_servers w i \<noteq> None \<longrightarrow> i < wr_next w) \<and> (\<forall>j. wr_conns w j \<noteq> None \<longrightarrow> j < wr_next w)
     \<and> (\<forall>i. wr_servers w i \<noteq> Some Making)"

text \<open>A server is counted until its signal has told the grabber, which is there until all have.\<close>

definition counted_ok :: "wiring \<Rightarrow> bool" where
  "counted_ok w \<longleftrightarrow> (\<forall>i p. wr_servers w i = Some p \<and> p \<noteq> Telling \<longrightarrow> i \<in> set (wr_captures w))
     \<and> (\<forall>i. wr_servers w i \<noteq> Some Telling \<longrightarrow> wr_pending w (ByServer i) = [])
     \<and> (\<forall>i. ToGrabber \<in> set (wr_pending w (ByServer i)) \<longrightarrow> i \<in> set (wr_captures w))
     \<and> (\<forall>i. ToGrabber \<notin> set (tl (wr_pending w (ByServer i))))
     \<and> (wr_grabber w \<or> wr_terminated w \<and> wr_captures w = [])"

text \<open>A signal being given has all its slots before it that are still connected.\<close>

definition given_ok :: "wiring \<Rightarrow> bool" where
  "given_ok w \<longleftrightarrow> (\<forall>i j. wr_servers w i = Some Telling \<and> (i, j) \<in> set (wr_sterm w) \<longrightarrow> ToConn j \<in> set (wr_pending w (ByServer i)))
     \<and> (wr_terminated w \<longrightarrow> (\<forall>i \<in> set (wr_term w). ToServer i \<in> set (wr_pending w ByGrabber)))"

text \<open>Who is no longer connected has been told.\<close>

definition was_called :: "slot_call \<Rightarrow> wiring \<Rightarrow> bool" where
  "was_called c w \<longleftrightarrow> c \<in> fst ` set (wr_calls w)"

definition told_ok :: "wiring \<Rightarrow> bool" where
  "told_ok w \<longleftrightarrow> (\<forall>i. \<forall>p \<in> {Held, Unheld, HalfOff}. wr_servers w i = Some p \<longrightarrow> i \<in> set (wr_term w) \<or> was_called (ToServer i) w)
     \<and> (\<forall>j i. \<forall>p \<in> {Making, Held, Unheld, HalfOff}. wr_conns w j = Some (i, p) \<longrightarrow> (i, j) \<in> set (wr_sterm w) \<or> was_called (ToConn j) w)"

text \<open>The phases in which a slot may begin: not one of an object whose destructor has disconnected it.\<close>

fun begin_phases :: "slot_call \<Rightarrow> phase set" where
  "begin_phases ToGrabber = {Held}"
| "begin_phases (ToServer i) = {Held, Unheld, HalfOff}"
| "begin_phases (ToConn j) = {Making, Held, Unheld, HalfOff}"
| "begin_phases (PacketTo j) = {Making, Held, Unheld}"

definition calls_ok :: "wiring \<Rightarrow> bool" where
  "calls_ok w \<longleftrightarrow> (\<forall>(c, p) \<in> set (wr_calls w). p \<in> Some ` begin_phases c)"

lemma give_signal_fields [simp]:
  "wr_next (give_signal e cs w) = wr_next w" "wr_grabber (give_signal e cs w) = wr_grabber w" "wr_terminated (give_signal e cs w) = wr_terminated w"
  "wr_captures (give_signal e cs w) = wr_captures w" "wr_servers (give_signal e cs w) = wr_servers w" "wr_conns (give_signal e cs w) = wr_conns w"
  "wr_term (give_signal e cs w) = wr_term w" "wr_sterm (give_signal e cs w) = wr_sterm w" "wr_finish (give_signal e cs w) = wr_finish w"
  "wr_notify (give_signal e cs w) = wr_notify w" "wr_calls (give_signal e cs w) = wr_calls w" "wr_pending (give_signal e cs w) = (wr_pending w)(e := cs)"
  by (simp_all add: give_signal_def)

lemma connected_give: "connected e c (give_signal e' cs w) = connected e c w"
  by (cases "(e, c, w)" rule: connected.cases) simp_all

lemma call_slot_cases:
  obtains (off) "call_slot e c cs w = give_signal e cs w" "\<not> connected e c w"
  | (server) i where "e = ByGrabber" "c = ToServer i" "i \<in> set (wr_term w)"
      "call_slot e c cs w = (give_signal e cs w)\<lparr>wr_calls := wr_calls w @ [(c, wr_servers w i)],
         wr_term := filter (\<lambda>x. x \<noteq> i) (wr_term w)\<rparr>"
  | (grabber) i where "e = ByServer i" "c = ToGrabber"
      "call_slot e c cs w = (give_signal e cs w)\<lparr>wr_calls := wr_calls w @ [(c, if wr_grabber w then Some Held else None)],
         wr_captures := filter (\<lambda>x. x \<noteq> i) (wr_captures w)\<rparr>"
  | (conn) i j where "e = ByServer i" "c = ToConn j" "(i, j) \<in> set (wr_sterm w)"
      "call_slot e c cs w = (give_signal e cs w)\<lparr>wr_calls := wr_calls w @ [(c, map_option snd (wr_conns w j))],
         wr_sterm := filter (\<lambda>x. x \<noteq> (i, j)) (wr_sterm w)\<rparr>"
  | (finish) i j where "e = ByConn j" "c = ToServer i" "(j, i) \<in> set (wr_finish w)"
      "call_slot e c cs w = (give_signal e cs w)\<lparr>wr_calls := wr_calls w @ [(c, wr_servers w i)],
         wr_finish := filter (\<lambda>x. x \<noteq> (j, i)) (wr_finish w)\<rparr>"
  | (packet) j cs' where "e = BySniffer" "c = PacketTo j" "j \<in> set (wr_notify w)"
      "call_slot e c cs w = (give_signal e cs' w)\<lparr>wr_calls := wr_calls w @ [(c, map_option snd (wr_conns w j))]\<rparr>"
proof (cases "connected e c w")
  case False
  then show ?thesis using off by (simp add: call_slot_def Let_def connected_give)
next
  case True
  note defs = call_slot_def connected_give Let_def target_phase_def
  from True consider i where "e = ByGrabber" "c = ToServer i" | i where "e = ByServer i" "c = ToGrabber"
    | i j where "e = ByServer i" "c = ToConn j" | i j where "e = ByConn j" "c = ToServer i" | j where "e = BySniffer" "c = PacketTo j"
    by (cases "(e, c, w)" rule: connected.cases) auto
  then show ?thesis
  proof cases
    case 1
    show ?thesis by (rule server [OF 1]) (use True 1 in \<open>simp_all add: defs\<close>)
  next
    case 2
    show ?thesis by (rule grabber [OF 2]) (use True 2 in \<open>simp_all add: defs\<close>)
  next
    case 3
    show ?thesis by (rule conn [OF 3]) (use True 3 in \<open>simp_all add: defs\<close>)
  next
    case 4
    show ?thesis by (rule finish [OF 4]) (use True 4 in \<open>simp_all add: defs\<close>)
  next
    case (5 j)
    define cs' where "cs' = (if map_option snd (wr_conns w j) = Some Held then cs else [])"
    show ?thesis by (rule packet [of j cs', OF 5]) (use True 5 in \<open>auto simp: defs cs'_def give_signal_def\<close>)
  qed
qed

lemma slots_ok_fewer:
  assumes "slots_ok w" and "wr_servers w' = wr_servers w" and "wr_conns w' = wr_conns w"
    and "set (wr_term w') \<subseteq> set (wr_term w)" and "set (wr_finish w') \<subseteq> set (wr_finish w)"
    and "set (wr_sterm w') \<subseteq> set (wr_sterm w)" and "set (wr_notify w') \<subseteq> set (wr_notify w)"
  shows "slots_ok w'"
  using assms(1) unfolding slots_ok_def assms(2,3)
  by (elim conjE, intro conjI) (rule ballI, drule bspec, erule subsetD [OF assms(4)] subsetD [OF assms(5)] subsetD [OF assms(6)] subsetD [OF assms(7)], assumption)+

lemma slots_ok_slot:
  assumes "slots_ok w"
  shows "slots_ok (call_slot e c cs w)"
  by (rule call_slot_cases [of e c cs w]; rule slots_ok_fewer [OF assms]) auto

lemma slots_ok_step: 
  assumes "wire_step w w'" "slots_ok w" "numbers_ok w"
  shows "slots_ok w'"
  using assms(1)
proof (cases rule: wire_step.cases)
  case wire_open
  then show ?thesis using assms(2,3) by (fastforce simp: slots_ok_def numbers_ok_def wire_server_def Let_def)
next
  case (wire_accept i)
  then show ?thesis using assms(2,3) by (fastforce simp: slots_ok_def numbers_ok_def wire_conn_def Let_def)
next
  case (wire_accepted i j)
  then show ?thesis using assms(2) by (fastforce simp: slots_ok_def wire_made_def connectOnFinish_def)
next
  case wire_packet
  then show ?thesis using assms(2) by (simp add: slots_ok_def sniffer_notify_def)
next
  case wire_slot
  then show ?thesis using slots_ok_slot [OF assms(2)] by simp
next
  case wire_terminate
  then show ?thesis using assms(2) by (simp add: slots_ok_def grabber_terminate_def)
next
  case (wire_conn_let j i)
  then show ?thesis using assms(2) by (fastforce simp: slots_ok_def)
next
  case (wire_conn_end j i p)
  then show ?thesis using assms(2) by (cases p) (fastforce simp: slots_ok_def conn_destroy_def)+
next
  case (wire_server_let i)
  then show ?thesis using assms(2) by (fastforce simp: slots_ok_def)
next
  case (wire_server_end i p)
  then show ?thesis using assms(2) by (cases p) (fastforce simp: slots_ok_def server_destroy_def)+
next
  case wire_grabber_gone
  then show ?thesis using assms(2) by (simp add: slots_ok_def grabber_destroyed_def)
qed

lemmas wire_ops = wire_server_def wire_conn_def wire_made_def connectOnFinish_def sniffer_notify_def
  grabber_terminate_def grabber_destroyed_def Let_def

lemma numbers_ok_slot: "numbers_ok w \<Longrightarrow> numbers_ok (call_slot e c cs w)"
  by (rule call_slot_cases [of e c cs w]) (simp_all add: numbers_ok_def)

lemma numbers_ok_step:
  assumes "wire_step w w'" and "numbers_ok w"
  shows "numbers_ok w'"
  using assms(1)
proof (cases rule: wire_step.cases)
  case wire_slot
  then show ?thesis using numbers_ok_slot [OF assms(2)] by simp
next
  case (wire_conn_end j i p)
  then show ?thesis using assms(2) by (cases p) (auto simp: numbers_ok_def conn_destroy_def)
next
  case (wire_server_end i p)
  then show ?thesis using assms(2) by (cases p) (auto simp: numbers_ok_def server_destroy_def)
qed (use assms(2) in \<open>auto simp: numbers_ok_def wire_ops less_Suc_eq\<close>)

lemma counted_ok_slot:
  assumes ok: "counted_ok w" and "wr_pending w e = c # cs"
  shows "counted_ok (call_slot e c cs w)"
proof (rule call_slot_cases [of e c cs w])
  fix i assume g: "e = ByServer i" "c = ToGrabber" "call_slot e c cs w = (give_signal e cs w)
    \<lparr>wr_calls := wr_calls w @ [(c, if wr_grabber w then Some Held else None)], wr_captures := filter (\<lambda>x. x \<noteq> i) (wr_captures w)\<rparr>"
  have "wr_pending w (ByServer i) = ToGrabber # cs" using g assms(2) by simp
  moreover from this have "ToGrabber \<notin> set cs" "wr_servers w i = Some Telling"
    using ok unfolding counted_ok_def by (metis list.sel(3), metis list.distinct(1))
  moreover from this have "ToGrabber \<notin> set (tl cs)" by (cases cs) simp_all
  ultimately show ?thesis using ok g by (auto simp: counted_ok_def split: if_splits)
next
  assume off: "call_slot e c cs w = give_signal e cs w"
  show ?thesis
  proof (cases e)
    case (ByServer i)
    have "wr_pending w (ByServer i) = c # cs" using ByServer assms(2) by simp
    moreover from this have "ToGrabber \<notin> set cs" "wr_servers w i = Some Telling"
      using ok unfolding counted_ok_def by (metis list.sel(3), metis list.distinct(1))
    moreover from this have "ToGrabber \<notin> set (tl cs)" by (cases cs) simp_all
    ultimately show ?thesis using ok off ByServer by (auto simp: counted_ok_def)
  qed (use ok off in \<open>simp_all add: counted_ok_def\<close>)
next
  fix i j assume g: "e = ByServer i" "c = ToConn j" "call_slot e c cs w = (give_signal e cs w)
    \<lparr>wr_calls := wr_calls w @ [(c, map_option snd (wr_conns w j))], wr_sterm := filter (\<lambda>x. x \<noteq> (i, j)) (wr_sterm w)\<rparr>"
  have "wr_pending w (ByServer i) = c # cs" using g assms(2) by simp
  moreover from this have "ToGrabber \<notin> set cs" "wr_servers w i = Some Telling"
    using ok unfolding counted_ok_def by (metis list.sel(3), metis list.distinct(1))
  moreover from this have "ToGrabber \<notin> set (tl cs)" by (cases cs) simp_all
  ultimately show ?thesis using ok g by (auto simp: counted_ok_def)
qed (use assms in \<open>auto simp: counted_ok_def\<close>)

lemma counted_ok_step:
  assumes "wire_step w w'" and "counted_ok w" and "numbers_ok w"
  shows "counted_ok w'"
  using assms(1)
proof (cases rule: wire_step.cases)
  case wire_slot
  then show ?thesis using counted_ok_slot [OF assms(2)] by simp
next
  case (wire_conn_end j i p)
  then show ?thesis using assms(2) by (cases p) (auto simp: counted_ok_def conn_destroy_def)
next
  case (wire_server_end i p)
  then show ?thesis using assms(2) by (cases p) (auto simp: counted_ok_def server_destroy_def)
next
  case wire_open
  moreover have "wr_servers w (wr_next w) = None" using assms(3) unfolding numbers_ok_def by (metis less_irrefl)
  moreover from this have "wr_pending w (ByServer (wr_next w)) = []" using assms(2) by (simp add: counted_ok_def)
  ultimately show ?thesis using assms(2) by (auto simp: counted_ok_def wire_server_def Let_def)
qed (use assms(2) in \<open>auto simp: counted_ok_def wire_ops\<close>)

lemma given_ok_slot:
  assumes "given_ok w" and "wr_pending w e = c # cs"
  shows "given_ok (call_slot e c cs w)"
proof (rule call_slot_cases [of e c cs w])
  assume off: "call_slot e c cs w = give_signal e cs w" "\<not> connected e c w"
  show ?thesis
  proof (cases e)
    case ByGrabber
    then show ?thesis using assms off by (fastforce simp: given_ok_def)
  next
    case (ByServer i)
    then show ?thesis using assms off by (fastforce simp: given_ok_def)
  qed (use assms(1) off in \<open>simp_all add: given_ok_def\<close>)
qed (use assms in \<open>fastforce simp: given_ok_def\<close>)+

lemma given_ok_step:
  assumes "wire_step w w'" and "given_ok w" and "slots_ok w" and "numbers_ok w"
  shows "given_ok w'"
  using assms(1)
proof (cases rule: wire_step.cases)
  case wire_slot
  then show ?thesis using given_ok_slot [OF assms(2)] by simp
next
  case (wire_conn_end j i p)
  then show ?thesis using assms(2) by (cases p) (auto simp: given_ok_def conn_destroy_def)
next
  case (wire_server_end i p)
  then show ?thesis using assms(2) by (cases p) (force simp: given_ok_def server_destroy_def)+
next
  case wire_open
  then show ?thesis using assms(2) by (auto simp: given_ok_def wire_server_def Let_def)
next
  case (wire_accept i)
  then show ?thesis using assms(2) by (auto simp: given_ok_def wire_conn_def Let_def)
qed (use assms(2) in \<open>auto simp: given_ok_def wire_ops\<close>)

lemma was_called_log [simp]: "was_called c (w\<lparr>wr_calls := wr_calls w' @ [(d, p)]\<rparr>) \<longleftrightarrow> was_called c w' \<or> c = d"
  by (auto simp: was_called_def)

lemma told_ok_slot:
  assumes "told_ok w"
  shows "told_ok (call_slot e c cs w)"
  by (rule call_slot_cases [of e c cs w]) (use assms in \<open>auto simp: told_ok_def was_called_def image_Un\<close>)

lemma told_ok_step:
  assumes "wire_step w w'" and "told_ok w" and "given_ok w"
  shows "told_ok w'"
  using assms(1)
proof (cases rule: wire_step.cases)
  case wire_slot
  then show ?thesis using told_ok_slot [OF assms(2)] by simp
next
  case (wire_conn_end j i p)
  then show ?thesis using assms(2) by (cases p) (auto simp: told_ok_def conn_destroy_def was_called_def)
next
  case (wire_server_end i p)
  show ?thesis
  proof (cases "p = Telling \<and> wr_pending w (ByServer i) = []")
    case True
    then have "(i, j) \<notin> set (wr_sterm w)" for j
      using wire_server_end(2) assms(3) unfolding given_ok_def by (metis empty_iff list.set(1))
    then have "filter (\<lambda>(x, _). x \<noteq> i) (wr_sterm w) = wr_sterm w" by (intro filter_True) auto
    then show ?thesis
      using True wire_server_end assms(2) by (simp add: told_ok_def server_destroy_def was_called_def)
  next
    case False
    then show ?thesis
      using wire_server_end assms(2) by (cases p) (auto simp: told_ok_def server_destroy_def was_called_def)
  qed
qed (use assms(2) in \<open>auto simp: told_ok_def wire_ops was_called_def\<close>)

lemma calls_ok_step:
  assumes "wire_step w w'" and "calls_ok w" and "slots_ok w" and "counted_ok w"
  shows "calls_ok w'"
  using assms(1)
proof (cases rule: wire_step.cases)
  case (wire_slot e c cs)
  show ?thesis
    unfolding wire_slot(1)
  proof (rule call_slot_cases [of e c cs w])
    fix i assume g: "e = ByServer i" "c = ToGrabber" "call_slot e c cs w = (give_signal e cs w)
      \<lparr>wr_calls := wr_calls w @ [(c, if wr_grabber w then Some Held else None)], wr_captures := filter (\<lambda>x. x \<noteq> i) (wr_captures w)\<rparr>"
    have "i \<in> set (wr_captures w)" using g wire_slot(2) assms(4) by (auto simp: counted_ok_def)
    then have "wr_grabber w" using assms(4) by (auto simp: counted_ok_def)
    then show "calls_ok (call_slot e c cs w)" using g assms(2) by (auto simp: calls_ok_def)
  qed (use assms(2,3) in \<open>fastforce simp: calls_ok_def slots_ok_def\<close>)+
next
  case (wire_conn_end j i p)
  then show ?thesis using assms(2) by (cases p) (auto simp: calls_ok_def conn_destroy_def)
next
  case (wire_server_end i p)
  then show ?thesis using assms(2) by (cases p) (auto simp: calls_ok_def server_destroy_def)
qed (use assms(2) in \<open>simp_all add: calls_ok_def wire_ops\<close>)

lemma wire_reach:
  "rtranclp wire_step wiring_new w
     \<Longrightarrow> slots_ok w \<and> numbers_ok w \<and> counted_ok w \<and> given_ok w \<and> told_ok w \<and> calls_ok w"
proof (induction rule: rtranclp_induct)
  case base
  show ?case
    by (simp add: slots_ok_def numbers_ok_def counted_ok_def given_ok_def told_ok_def calls_ok_def wiring_new_def)
qed (blast intro: slots_ok_step numbers_ok_step counted_ok_step given_ok_step told_ok_step calls_ok_step)

text \<open>C14: no slot of the live capture begins on an object that has disconnected it. Destructors and signals run at the
  same time, in steps of one statement and one slot: whatever servers and clients come and go, every slot that ever
  began was one of an object that still existed and whose destructor had not yet disconnected that slot (it may have been
  running: lemma \<open>packet_reaches_unheld\<close>). When the signal of the grabber's end has gone through its slots, every
  server that has not disconnected itself has been told to end; the grabber is not gone before every server left has
  told it of its own end; and a connection whose server is gone has been told to close, unless it disconnected itself.\<close>

theorem signals_reach_the_living:
  assumes "rtranclp wire_step wiring_new w"
  shows "(\<forall>(c, p) \<in> set (wr_calls w). p \<in> Some ` begin_phases c)
    \<and> (wr_terminated w \<and> wr_pending w ByGrabber = [] \<longrightarrow>
         (\<forall>i. \<forall>p \<in> {Held, Unheld, HalfOff}. wr_servers w i = Some p \<longrightarrow> ToServer i \<in> fst ` set (wr_calls w)))
    \<and> (\<not> wr_grabber w \<longrightarrow> (\<forall>i p. wr_servers w i = Some p \<longrightarrow> p = Telling \<and> ToGrabber \<notin> set (wr_pending w (ByServer i))))
    \<and> (\<forall>j i. \<forall>p \<in> {Making, Held, Unheld, HalfOff}. wr_conns w j = Some (i, p) \<and> wr_servers w i = None
         \<longrightarrow> ToConn j \<in> fst ` set (wr_calls w))"
proof -
  note inv = wire_reach [OF assms]
  have "ToServer i \<in> fst ` set (wr_calls w)"
    if "wr_terminated w" "wr_pending w ByGrabber = []" "wr_servers w i = Some p" "p \<in> {Held, Unheld, HalfOff}" for i p
  proof -
    have "i \<notin> set (wr_term w)" using inv that(1,2) by (auto simp: given_ok_def)
    then show ?thesis using inv that(3,4) by (auto simp: told_ok_def was_called_def)
  qed
  moreover have "p = Telling \<and> ToGrabber \<notin> set (wr_pending w (ByServer i))"
    if "\<not> wr_grabber w" "wr_servers w i = Some p" for i p
    using inv that unfolding counted_ok_def by (metis empty_iff list.set(1))
  moreover have "ToConn j \<in> fst ` set (wr_calls w)"
    if "wr_conns w j = Some (i, p)" "p \<in> {Making, Held, Unheld, HalfOff}" "wr_servers w i = None" for i j p
  proof -
    have "(i, j) \<notin> set (wr_sterm w)" using inv that(3) by (auto simp: slots_ok_def)
    then show ?thesis using inv that(1,2) by (auto simp: told_ok_def was_called_def)
  qed
  ultimately show ?thesis using inv unfolding calls_ok_def by blast
qed

text \<open>A client of a server; the grabber ends, its signal reaches the server; the server goes and tells the client.\<close>

fun wire_slots :: "emitter \<Rightarrow> nat \<Rightarrow> wiring \<Rightarrow> wiring" where
  "wire_slots e 0 w = w"
| "wire_slots e (Suc n) w = (case wr_pending w e of [] \<Rightarrow> w | c # cs \<Rightarrow> wire_slots e n (call_slot e c cs w))"

lemma wire_slots_steps: "rtranclp wire_step w (wire_slots e n w)"
proof (induction n arbitrary: w)
  case (Suc n)
  show ?case
  proof (cases "wr_pending w e")
    case (Cons c cs)
    then have "wire_step w (call_slot e c cs w)" by (rule wire_slot)
    then have "rtranclp wire_step w (wire_slots e n (call_slot e c cs w))"
      using Suc by (rule converse_rtranclp_into_rtranclp)
    then show ?thesis using Cons by simp
  qed simp
qed simp

lemma server_destroy_steps: "rtranclp wire_step w (server_destroy i w)"
proof (cases "wr_servers w i")
  case None
  then show ?thesis by (simp add: server_destroy_def)
next
  case (Some p)
  then show ?thesis by (blast intro: wire_server_end)
qed

definition demo_client :: wiring where
  "demo_client = wire_made 0 1 (wire_conn 0 (wire_server wiring_new))"

lemma demo_client_reach: "rtranclp wire_step wiring_new demo_client"
proof -
  have "wire_step wiring_new (wire_server wiring_new)" by (rule wire_open) (simp add: wiring_new_def)
  moreover have "wire_step (wire_server wiring_new) (wire_conn 0 (wire_server wiring_new))"
    by (rule wire_accept) (simp_all add: wiring_new_def wire_ops)
  moreover have "wire_step (wire_conn 0 (wire_server wiring_new)) demo_client"
    unfolding demo_client_def by (rule wire_accepted) (simp_all add: wiring_new_def wire_ops)
  ultimately show ?thesis by (meson rtranclp.rtrancl_into_rtrancl rtranclp.rtrancl_refl)
qed

definition demo_ended :: wiring where
  "demo_ended =
     (let w = wire_slots ByGrabber 1 (grabber_terminate demo_client);
          w = w\<lparr>wr_servers := (wr_servers w)(0 \<mapsto> Unheld)\<rparr>;
          w = server_destroy 0 (server_destroy 0 (server_destroy 0 w))
      in server_destroy 0 (wire_slots (ByServer 0) 2 w))"

lemma demo_ended_reach: "rtranclp wire_step wiring_new demo_ended"
proof -
  let ?t = "wire_slots ByGrabber 1 (grabber_terminate demo_client)"
  let ?u = "?t\<lparr>wr_servers := (wr_servers ?t)(0 \<mapsto> Unheld)\<rparr>"
  have "wire_step demo_client (grabber_terminate demo_client)"
    by (rule wire_terminate) (simp add: demo_client_def wiring_new_def wire_ops)
  moreover have "wire_step ?t ?u"
    by (rule wire_server_let) (simp_all add: demo_client_def wiring_new_def wire_ops call_slot_def target_phase_def)
  ultimately have "rtranclp wire_step wiring_new ?u"
    using demo_client_reach wire_slots_steps [of "grabber_terminate demo_client" ByGrabber 1]
    by (meson rtranclp.rtrancl_into_rtrancl rtranclp_trans)
  then show ?thesis
    unfolding demo_ended_def Let_def by (meson server_destroy_steps wire_slots_steps rtranclp_trans)
qed

theorem signals_reach_the_living_witness:
  "wr_servers demo_ended 0 = None \<and> ToConn 1 \<in> fst ` set (wr_calls demo_ended)
    \<and> list_all (\<lambda>(c, p). p \<in> Some ` begin_phases c) (wr_calls demo_ended)"
proof -
  have "wr_conns demo_ended 1 = Some (0, Held)" "wr_servers demo_ended 0 = None"
    by (simp_all add: demo_ended_def demo_client_def wiring_new_def wire_ops call_slot_def target_phase_def
        server_destroy_def numeral_eq_Suc)
  then show ?thesis using signals_reach_the_living [OF demo_ended_reach] unfolding list_all_iff by blast
qed

text \<open>A packet may begin on a connection whose last reference has gone: its destructor has still to disconnect it.
  The exception of \<open>shared_from_this\<close> then ends the signal, and the connections behind it miss the packet.\<close>

lemma packet_reaches_unheld:
  "\<exists>w. rtranclp wire_step wiring_new w \<and> (PacketTo 1, Some Unheld) \<in> set (wr_calls w)"
proof -
  let ?u = "demo_client\<lparr>wr_conns := (wr_conns demo_client)(1 \<mapsto> (0, Unheld))\<rparr>"
  have conn: "wr_conns demo_client 1 = Some (0, Held)" "wr_pending demo_client = (\<lambda>_. [])" "wr_notify demo_client = [1]"
    by (simp_all add: demo_client_def wiring_new_def wire_ops)
  have "wire_step demo_client ?u" by (rule wire_conn_let [OF conn(1)])
  moreover have "wire_step ?u (sniffer_notify ?u)" by (rule wire_packet) (simp add: conn)
  ultimately have "rtranclp wire_step wiring_new (wire_slots BySniffer 1 (sniffer_notify ?u))"
    using demo_client_reach wire_slots_steps [of "sniffer_notify ?u" BySniffer 1]
    by (meson rtranclp.rtrancl_into_rtrancl rtranclp_trans)
  moreover have "(PacketTo 1, Some Unheld) \<in> set (wr_calls (wire_slots BySniffer 1 (sniffer_notify ?u)))"
    by (simp add: sniffer_notify_def call_slot_def target_phase_def conn Let_def)
  ultimately show ?thesis by blast
qed

end
