(* ===== verification/Live_Threads.thy ===== *)
theory Live_Threads
  imports Livecapture
begin

section \<open>Who destroys the grabber, and whether its destructor returns (livecapture/grabber, servertcp)\<close>

text \<open>
  \<open>Livecapture\<close> has the end of the grabber as one event. Here the references to it are counted: those of its users,
  and the one that an accept handler takes with \<open>grabber()\<close> while it makes a connection. The last one to go runs
  the destructor on its thread, which signals the servers and waits there until no capture is left, while the other
  threads of the service run on. A handler that waits in the destructor holds its server.
\<close>

subsection \<open>References, handlers and the destructor\<close>

text \<open>\<open>DWaits (Some i)\<close>: the accept handler of server \<open>i\<close> runs the destructor; \<open>DWaits None\<close>: a user does.\<close>

datatype dtor = DNone | DWaits "nat option" | DDone

record grab_threads =
  gt_world :: live_world
  gt_refs :: nat
  gt_handlers :: "nat list"
  gt_dtor :: dtor

definition threads_new :: grab_threads where
  "threads_new = \<lparr>gt_world = live0, gt_refs = 1, gt_handlers = [], gt_dtor = DNone\<rparr>"

definition strong_refs :: "grab_threads \<Rightarrow> nat" where
  "strong_refs g = gt_refs g + length (gt_handlers g)"

text \<open>The accept handler with a grabber: what it does up to the release of the reference, and the \<open>accept()\<close> after it.\<close>

definition accept_body :: "conn_outcome \<Rightarrow> live_server \<Rightarrow> live_server" where
  "accept_body out sv =
     (case out of
        ConnStarted \<Rightarrow> (stopAcceptTimer (sv\<lparr>lv_conn := True\<rparr>))\<lparr>lv_count := lv_count sv + 1\<rparr>
      | ConnRefused \<Rightarrow> sv
      | ConnDropped \<Rightarrow> lserver_signal sv)"

definition accept_again :: "live_server \<Rightarrow> live_server" where
  "accept_again sv = sv\<lparr>lv_accept := PWaiting\<rparr>"

definition lw_terminate :: "live_world \<Rightarrow> live_world" where
  "lw_terminate w = w\<lparr>lw_alive := False, lw_servers := (\<lambda>i. map_option lserver_signal (lw_servers w i))\<rparr>"

text \<open>After a reference has gone: with the last one the destructor runs on the thread \<open>t\<close>, otherwise \<open>f\<close> goes on.\<close>

definition ref_gone :: "nat option \<Rightarrow> (live_world \<Rightarrow> live_world option) \<Rightarrow> grab_threads \<Rightarrow> grab_threads option" where
  "ref_gone t f g =
     (if strong_refs g = 0 then Some (g\<lparr>gt_dtor := DWaits t, gt_world := lw_terminate (gt_world g)\<rparr>)
      else map_option (\<lambda>w. g\<lparr>gt_world := w\<rparr>) (f (gt_world g)))"

definition handler_start :: "nat \<Rightarrow> grab_threads \<Rightarrow> grab_threads option" where
  "handler_start i g =
     (case lw_servers (gt_world g) i of
        None \<Rightarrow> None
      | Some sv \<Rightarrow>
          if lv_accept sv \<noteq> PReady then None
          else if lv_count sv \<noteq> 0 \<or> strong_refs g = 0 then
            map_option (\<lambda>w. g\<lparr>gt_world := w\<rparr>) (on_server i (\<lambda>_. True) (lserver_accepted False ConnRefused) (gt_world g))
          else
            map_option (\<lambda>w. g\<lparr>gt_world := w, gt_handlers := i # gt_handlers g\<rparr>)
              (on_server i (\<lambda>_. True) (\<lambda>sv. sv\<lparr>lv_accept := PIdle\<rparr>) (gt_world g)))"

definition handler_release :: "nat \<Rightarrow> conn_outcome \<Rightarrow> grab_threads \<Rightarrow> grab_threads option" where
  "handler_release i out g =
     (if i \<in> set (gt_handlers g) then
        Option.bind (on_server i (\<lambda>_. True) (accept_body out) (gt_world g))
          (\<lambda>w. ref_gone (Some i) (on_server i (\<lambda>_. True) accept_again)
                 (g\<lparr>gt_world := w, gt_handlers := remove1 i (gt_handlers g)\<rparr>))
      else None)"

definition server_pinned :: "nat \<Rightarrow> grab_threads \<Rightarrow> bool" where
  "server_pinned i g \<longleftrightarrow> i \<in> set (gt_handlers g) \<or> gt_dtor g = DWaits (Some i)"

text \<open>\<open>TLive\<close>: the other handlers of the service, and \<open>open\<close> by a user.\<close>

datatype thread_event = TLive live_event | THandler nat | TRelease nat conn_outcome | TCopy | TDrop | TReturn

definition thread_live :: "config \<Rightarrow> (transport \<Rightarrow> error option) \<Rightarrow> live_event \<Rightarrow> grab_threads \<Rightarrow> bool" where
  "thread_live cfg listens ev g =
     (case ev of
        EOpen _ _ \<Rightarrow> 0 < gt_refs g
      | EGone i \<Rightarrow> \<not> server_pinned i g
      | EAccepted _ _ \<Rightarrow> False
      | ETerminate \<Rightarrow> False
      | _ \<Rightarrow> True)"

fun thread_do :: "config \<Rightarrow> (transport \<Rightarrow> error option) \<Rightarrow> thread_event \<Rightarrow> grab_threads \<Rightarrow> grab_threads option" where
  "thread_do cfg listens (TLive ev) g =
     (if thread_live cfg listens ev g then map_option (\<lambda>w. g\<lparr>gt_world := w\<rparr>) (live_do cfg listens ev (gt_world g)) else None)"
| "thread_do cfg listens (THandler i) g = handler_start i g"
| "thread_do cfg listens (TRelease i out) g = handler_release i out g"
| "thread_do cfg listens TCopy g = (if 0 < gt_refs g then Some (g\<lparr>gt_refs := gt_refs g + 1\<rparr>) else None)"
| "thread_do cfg listens TDrop g =
     (if 0 < gt_refs g then ref_gone None Some (g\<lparr>gt_refs := gt_refs g - 1\<rparr>) else None)"
| "thread_do cfg listens TReturn g =
     (case gt_dtor g of
        DWaits _ \<Rightarrow> if shutdown_done (gt_world g) then Some (g\<lparr>gt_dtor := DDone\<rparr>) else None
      | _ \<Rightarrow> None)"

fun thread_run :: "config \<Rightarrow> (transport \<Rightarrow> error option) \<Rightarrow> thread_event list \<Rightarrow> grab_threads \<Rightarrow> grab_threads option" where
  "thread_run cfg listens [] g = Some g"
| "thread_run cfg listens (ev # evs) g = Option.bind (thread_do cfg listens ev g) (thread_run cfg listens evs)"

inductive thread_reach :: "config \<Rightarrow> (transport \<Rightarrow> error option) \<Rightarrow> grab_threads \<Rightarrow> bool" for cfg listens where
  thread_start: "thread_reach cfg listens threads_new"
| thread_next: "thread_reach cfg listens g \<Longrightarrow> thread_do cfg listens ev g = Some g' \<Longrightarrow> thread_reach cfg listens g'"

text \<open>A handler that is not interrupted does what \<open>Livecapture\<close> says of it.\<close>

lemma handler_whole:
  "lv_count sv = 0 \<Longrightarrow> accept_again (accept_body out (sv\<lparr>lv_accept := PIdle\<rparr>)) = lserver_accepted True out sv"
  by (simp add: accept_again_def accept_body_def lserver_accepted_def Let_def)

lemma lw_terminate_do: "lw_alive w \<Longrightarrow> live_do cfg listens ETerminate w = Some (lw_terminate w)"
  by (simp add: lw_terminate_def)

subsection \<open>Invariant\<close>

text \<open>The server of a handler that holds the grabber waits for nothing and has had no client.\<close>

definition in_handler :: "live_world \<Rightarrow> nat \<Rightarrow> bool" where
  "in_handler w i \<longleftrightarrow> (\<exists>sv. lw_servers w i = Some sv \<and> lv_accept sv = PIdle \<and> lv_count sv = 0)"

definition threads_ok :: "config \<Rightarrow> grab_threads \<Rightarrow> bool" where
  "threads_ok cfg g \<longleftrightarrow> live_inv cfg (gt_world g)
     \<and> (lw_alive (gt_world g) \<longleftrightarrow> gt_dtor g = DNone) \<and> (gt_dtor g = DNone \<longleftrightarrow> strong_refs g \<noteq> 0)
     \<and> distinct (gt_handlers g) \<and> (\<forall>i \<in> set (gt_handlers g). in_handler (gt_world g) i)
     \<and> (\<forall>i. gt_dtor g = DWaits (Some i) \<longrightarrow> i \<in> dom (lw_servers (gt_world g)))
     \<and> (gt_dtor g = DDone \<longrightarrow> shutdown_done (gt_world g))"

lemma threads_ok_new: "threads_ok cfg threads_new"
  by (simp add: threads_ok_def threads_new_def live_inv_def live0_def strong_refs_def)

lemma on_server_some:
  assumes "on_server i en f w = Some w'"
  obtains sv where "lw_servers w i = Some sv" "en sv" "w' = w\<lparr>lw_servers := (lw_servers w)(i \<mapsto> f sv)\<rparr>"
  using assms by (auto simp: on_server_def split: option.splits if_splits)

lemma in_handler_do:
  assumes "live_do cfg listens ev w = Some w'" and "in_handler w i" and "live_inv cfg w" and "ev \<noteq> EGone i" and "ev \<noteq> ETerminate"
  shows "in_handler w' i"
proof (cases ev)
  case (EOpen t c)
  have "i \<noteq> lw_next w" using assms(2,3) by (auto simp: in_handler_def live_inv_def)
  then show ?thesis using assms(1,2) EOpen by (auto simp: in_handler_def grabber_open_def Let_def split: if_splits option.splits)
next
  case (EConnEnd j)
  then show ?thesis using assms(1-3)
    by (fastforce simp: in_handler_def live_inv_def server_ok_def lserver_defs elim!: on_server_some split: if_splits)
next
  case (ETimer j)
  then show ?thesis using assms(1,2) by (auto simp: in_handler_def lserver_defs elim!: on_server_some split: if_splits)
qed (use assms in \<open>auto simp: in_handler_def elim!: on_server_some split: option.splits if_splits\<close>)

lemma live_do_alive: "live_do cfg listens ev w = Some w' \<Longrightarrow> ev \<noteq> ETerminate \<Longrightarrow> lw_alive w' = lw_alive w"
  by (cases ev) (auto simp: grabber_open_def Let_def elim!: on_server_some split: if_splits option.splits)

lemma live_do_dom:
  assumes "live_do cfg listens ev w = Some w'" and "i \<in> dom (lw_servers w)" and "ev \<noteq> EGone i"
  shows "i \<in> dom (lw_servers w')"
  using assms by (cases ev) (auto simp: grabber_open_def Let_def elim!: on_server_some split: if_splits option.splits)

lemma live_do_captures:
  "live_do cfg listens ev w = Some w' \<Longrightarrow> \<forall>t c. ev \<noteq> EOpen t c \<Longrightarrow> shutdown_done w \<Longrightarrow> shutdown_done w'"
  by (cases ev) (auto simp: shutdown_done_def elim!: on_server_some split: if_splits option.splits)

lemma live_inv_terminate: "live_inv cfg w \<Longrightarrow> lw_alive w \<Longrightarrow> live_inv cfg (lw_terminate w)"
  using live_inv_do [of cfg w "\<lambda>_. None" ETerminate] lw_terminate_do by auto

lemma threads_ok_live:
  assumes "threads_ok cfg g" and "thread_live cfg listens ev g" and "live_do cfg listens ev (gt_world g) = Some w"
  shows "threads_ok cfg (g\<lparr>gt_world := w\<rparr>)"
proof -
  have ev: "ev \<noteq> ETerminate" "\<And>i. server_pinned i g \<Longrightarrow> ev \<noteq> EGone i" using assms(2) by (auto simp: thread_live_def)
  have "live_inv cfg w" using assms(1,3) live_inv_do by (auto simp: threads_ok_def)
  moreover have "lw_alive w = lw_alive (gt_world g)" using live_do_alive [OF assms(3) ev(1)] .
  moreover have "shutdown_done w" if "gt_dtor g = DDone"
  proof -
    have "gt_refs g = 0" "shutdown_done (gt_world g)" using assms(1) that by (auto simp: threads_ok_def strong_refs_def)
    moreover have "\<forall>t c. ev \<noteq> EOpen t c" using assms(2) calculation(1) by (auto simp: thread_live_def)
    ultimately show ?thesis using live_do_captures [OF assms(3)] by blast
  qed
  ultimately show ?thesis using assms ev in_handler_do live_do_dom
    by (auto simp: threads_ok_def strong_refs_def server_pinned_def)
qed

lemma threads_ok_ref_gone:
  assumes "ref_gone t f g = Some g'" and "live_inv cfg (gt_world g)" and "lw_alive (gt_world g)" and "gt_dtor g = DNone"
    and "distinct (gt_handlers g)" and "\<forall>i \<in> set (gt_handlers g). in_handler (gt_world g) i"
    and "\<forall>i. t = Some i \<longrightarrow> i \<in> dom (lw_servers (gt_world g))"
    and "\<And>w. f (gt_world g) = Some w \<Longrightarrow> live_inv cfg w \<and> lw_alive w \<and> (\<forall>i \<in> set (gt_handlers g). in_handler w i)"
  shows "threads_ok cfg g'"
  using assms live_inv_terminate
  by (auto simp: ref_gone_def threads_ok_def strong_refs_def lw_terminate_def split: if_splits)

lemma on_server_ok:
  assumes "on_server i en f w = Some w'" and "live_inv cfg w" and "\<And>sv. lw_servers w i = Some sv \<Longrightarrow> server_ok sv \<Longrightarrow> server_ok (f sv)"
  shows "live_inv cfg w' \<and> lw_alive w' = lw_alive w \<and> dom (lw_servers w') = dom (lw_servers w)
    \<and> (\<forall>j. j \<noteq> i \<longrightarrow> lw_servers w' j = lw_servers w j)"
proof -
  obtain sv where sv: "lw_servers w i = Some sv" "w' = w\<lparr>lw_servers := (lw_servers w)(i \<mapsto> f sv)\<rparr>"
    using assms(1) by (rule on_server_some) blast
  have "dom ((lw_servers w)(i \<mapsto> f sv)) = dom (lw_servers w)" using sv(1) by auto
  then show ?thesis using assms(2,3) sv by (auto simp: live_inv_def)
qed

lemma accept_body_ok: "server_ok sv \<Longrightarrow> lv_count sv = 0 \<Longrightarrow> server_ok (accept_body out sv)"
  by (auto simp: server_ok_def accept_body_def lserver_defs split: conn_outcome.splits)

lemma accept_again_ok: "server_ok sv \<Longrightarrow> server_ok (accept_again sv)"
  by (simp add: accept_again_def server_ok_ops(2))

lemma threads_ok_release:
  assumes "threads_ok cfg g" and "handler_release i out g = Some g'"
  shows "threads_ok cfg g'"
proof -
  have i: "i \<in> set (gt_handlers g)" using assms(2) by (auto simp: handler_release_def split: if_splits)
  then obtain w where w: "on_server i (\<lambda>_. True) (accept_body out) (gt_world g) = Some w"
    and g': "ref_gone (Some i) (on_server i (\<lambda>_. True) accept_again)
               (g\<lparr>gt_world := w, gt_handlers := remove1 i (gt_handlers g)\<rparr>) = Some g'"
    using assms(2) by (auto simp: handler_release_def split: Option.bind_splits)
  have dtor: "gt_dtor g = DNone" "lw_alive (gt_world g)" using assms(1) i by (auto simp: threads_ok_def strong_refs_def)
  have hs: "distinct (gt_handlers g)" "\<forall>j \<in> set (gt_handlers g). in_handler (gt_world g) j" "live_inv cfg (gt_world g)"
    using assms(1) by (auto simp: threads_ok_def)
  have ww: "live_inv cfg w" "lw_alive w" "dom (lw_servers w) = dom (lw_servers (gt_world g))" "\<forall>j. j \<noteq> i \<longrightarrow> lw_servers w j = lw_servers (gt_world g) j"
    using on_server_ok [OF w hs(3)] accept_body_ok hs(2) i dtor(2) by (fastforce simp: in_handler_def)+
  have others: "\<forall>j \<in> set (remove1 i (gt_handlers g)). j \<noteq> i \<and> in_handler w j"
    using hs(1,2) ww(4) by (auto simp: in_handler_def)
  have again: "live_inv cfg w' \<and> lw_alive w' \<and> (\<forall>j \<in> set (remove1 i (gt_handlers g)). in_handler w' j)"
    if "on_server i (\<lambda>_. True) accept_again w = Some w'" for w'
    using on_server_ok [OF that ww(1) accept_again_ok] others ww(2) by (auto simp: in_handler_def)
  have "i \<in> dom (lw_servers w)" using hs(2) i ww(3) by (auto simp: in_handler_def)
  then show ?thesis using threads_ok_ref_gone [OF g', of cfg] ww others again hs(1) dtor(1) by auto
qed

lemma threads_ok_start:
  assumes "threads_ok cfg g" and "handler_start i g = Some g'"
  shows "threads_ok cfg g'"
proof -
  obtain sv where sv: "lw_servers (gt_world g) i = Some sv" "lv_accept sv = PReady"
    using assms(2) by (auto simp: handler_start_def split: option.splits if_splits)
  then have i: "i \<notin> set (gt_handlers g)" using assms(1) by (auto simp: threads_ok_def in_handler_def)
  have inv: "live_inv cfg (gt_world g)" using assms(1) by (simp add: threads_ok_def)
  show ?thesis
  proof (cases "lv_count sv \<noteq> 0 \<or> strong_refs g = 0")
    case True
    then obtain w where w: "on_server i (\<lambda>_. True) (lserver_accepted False ConnRefused) (gt_world g) = Some w" "g' = g\<lparr>gt_world := w\<rparr>"
      using assms(2) sv by (auto simp: handler_start_def)
    have k: "lw_captures w = lw_captures (gt_world g)" using w(1) by (auto elim!: on_server_some)
    show ?thesis using on_server_ok [OF w(1) inv server_ok_ops(3)] assms(1) i w(2) k
      by (auto simp: threads_ok_def strong_refs_def in_handler_def shutdown_done_def)
  next
    case False
    then obtain w where w: "on_server i (\<lambda>_. True) (\<lambda>sv. sv\<lparr>lv_accept := PIdle\<rparr>) (gt_world g) = Some w"
        "g' = g\<lparr>gt_world := w, gt_handlers := i # gt_handlers g\<rparr>"
      using assms(2) sv by (auto simp: handler_start_def)
    have "in_handler w i" using w(1) sv False by (auto simp: in_handler_def on_server_def)
    then show ?thesis using on_server_ok [OF w(1) inv server_ok_ops(2)] assms(1) i w(2) False
      by (auto simp: threads_ok_def strong_refs_def in_handler_def)
  qed
qed

lemma threads_ok_do:
  assumes "threads_ok cfg g" and "thread_do cfg listens ev g = Some g'"
  shows "threads_ok cfg g'"
proof (cases ev)
  case (TLive e)
  then show ?thesis using assms threads_ok_live by (auto split: if_splits)
next
  case TDrop
  then have r: "0 < gt_refs g" "ref_gone None Some (g\<lparr>gt_refs := gt_refs g - 1\<rparr>) = Some g'"
    using assms(2) by (simp_all split: if_splits)
  then have "gt_dtor g = DNone" using assms(1) by (simp add: threads_ok_def strong_refs_def)
  then show ?thesis using threads_ok_ref_gone [OF r(2), of cfg] assms(1) by (simp add: threads_ok_def)
next
  case TReturn
  then show ?thesis using assms by (auto simp: threads_ok_def strong_refs_def split: dtor.splits if_splits)
next
  case TCopy
  then show ?thesis using assms by (auto simp: threads_ok_def strong_refs_def split: if_splits)
next
  case (THandler i)
  then show ?thesis using threads_ok_start [OF assms(1), of i g'] assms(2) by simp
next
  case (TRelease i out)
  then show ?thesis using threads_ok_release [OF assms(1), of i out g'] assms(2) by simp
qed

lemma threads_reach_ok: "thread_reach cfg listens g \<Longrightarrow> threads_ok cfg g"
  by (induction rule: thread_reach.induct) (auto intro: threads_ok_new threads_ok_do)

subsection \<open>The destructor in an accept handler\<close>

lemma dtor_kept:
  assumes "thread_do cfg listens ev g = Some g'" and "gt_refs g = 0" and "gt_handlers g = []" and "ev \<noteq> TReturn"
  shows "gt_dtor g' = gt_dtor g"
proof (cases ev)
  case (THandler i)
  then show ?thesis using assms(1-3)
    by (auto simp: handler_start_def strong_refs_def simp del: fun_upd_apply split: option.splits if_splits)
qed (use assms in \<open>auto simp: handler_release_def split: if_splits\<close>)

text \<open>A handler that runs the destructor holds its server, which is counted: the destructor never returns.\<close>

lemma handler_destructor_stuck:
  assumes "threads_ok cfg g" and "gt_dtor g = DWaits (Some i)" and "thread_run cfg listens evs g = Some g'"
  shows "gt_dtor g' = DWaits (Some i)"
  using assms
proof (induction evs arbitrary: g)
  case (Cons ev evs)
  from Cons.prems(3) obtain g1 where g1: "thread_do cfg listens ev g = Some g1" "thread_run cfg listens evs g1 = Some g'"
    by (auto split: Option.bind_splits)
  have refs: "gt_refs g = 0" "gt_handlers g = []" using Cons.prems(1,2) by (auto simp: threads_ok_def strong_refs_def)
  have inv: "live_inv cfg (gt_world g)" and "i \<in> dom (lw_servers (gt_world g))"
    using Cons.prems(1,2) by (simp_all add: threads_ok_def)
  then have busy: "\<not> shutdown_done (gt_world g)"
    using live_inv_finite [OF inv] by (auto simp: shutdown_done_def live_inv_def card_gt_0_iff)
  have "gt_dtor g1 = DWaits (Some i)"
  proof (cases "ev = TReturn")
    case True
    then show ?thesis using g1(1) busy Cons.prems(2) by simp
  next
    case False
    then show ?thesis using dtor_kept [OF g1(1) refs] Cons.prems(2) by simp
  qed
  with Cons.IH [OF threads_ok_do [OF Cons.prems(1) g1(1)]] g1(2) show ?case by blast
qed simp

subsection \<open>The destructor in a user\<close>

text \<open>A server that is ending: no timer and no accept that could take a client. What is left of it: its object, a
  cancelled accept whose handler is queued, its connection.\<close>

definition ending :: "live_server \<Rightarrow> bool" where
  "ending sv \<longleftrightarrow> \<not> lv_timer sv \<and> lv_accept sv \<in> {PIdle, PAborted}"

definition left_of :: "live_server \<Rightarrow> nat" where
  "left_of sv = 1 + of_bool (lv_accept sv = PAborted) + of_bool (lv_conn sv)"

definition left_of_all :: "live_world \<Rightarrow> nat" where
  "left_of_all w = sum (\<lambda>i. left_of (the (lw_servers w i))) (dom (lw_servers w))"

definition winding_up :: "config \<Rightarrow> grab_threads \<Rightarrow> bool" where
  "winding_up cfg g \<longleftrightarrow> threads_ok cfg g \<and> gt_dtor g \<in> {DWaits None, DDone}
     \<and> (\<forall>i sv. lw_servers (gt_world g) i = Some sv \<longrightarrow> ending sv)"

definition steps_left :: "grab_threads \<Rightarrow> nat" where
  "steps_left g = left_of_all (gt_world g) + of_bool (gt_dtor g \<noteq> DDone)"

lemma left_of_all_update:
  assumes "finite (dom (lw_servers w))" and "lw_servers w i = Some sv" and "left_of sv' < left_of sv"
  shows "left_of_all (w\<lparr>lw_servers := (lw_servers w)(i \<mapsto> sv')\<rparr>) < left_of_all w"
proof -
  have "dom ((lw_servers w)(i \<mapsto> sv')) = dom (lw_servers w)" using assms(2) by auto
  then show ?thesis unfolding left_of_all_def
    using assms by (auto intro!: sum_strict_mono_ex1 simp: domI intro: bexI [of _ i])
qed

lemma left_of_all_gone:
  assumes "finite (dom (lw_servers w))" and "lw_servers w i = Some sv"
  shows "left_of_all (w\<lparr>lw_captures := n, lw_servers := (lw_servers w)(i := None)\<rparr>) < left_of_all w"
proof -
  have "left_of_all w = left_of sv + sum (\<lambda>i. left_of (the (lw_servers w i))) (dom (lw_servers w) - {i})"
    using assms by (simp add: left_of_all_def sum.remove [of _ i] domI)
  moreover have "left_of_all (w\<lparr>lw_captures := n, lw_servers := (lw_servers w)(i := None)\<rparr>)
      = sum (\<lambda>i. left_of (the (lw_servers w i))) (dom (lw_servers w) - {i})"
    by (auto simp: left_of_all_def intro!: sum.cong)
  ultimately show ?thesis by (simp add: left_of_def)
qed

lemma winding_live:
  assumes "winding_up cfg g" and "thread_live cfg listens ev g" and "live_do cfg listens ev (gt_world g) = Some w"
  shows "left_of_all w < left_of_all (gt_world g) \<and> (\<forall>i sv. lw_servers w i = Some sv \<longrightarrow> ending sv)"
proof -
  have fin: "finite (dom (lw_servers (gt_world g)))" and dead: "gt_refs g = 0" "\<not> lw_alive (gt_world g)"
    and all: "\<And>i sv. lw_servers (gt_world g) i = Some sv \<Longrightarrow> ending sv"
    using assms(1) live_inv_finite by (auto simp: winding_up_def threads_ok_def strong_refs_def)
  show ?thesis
  proof (cases ev)
    case (EAborted i)
    then obtain sv where sv: "lw_servers (gt_world g) i = Some sv" "lv_accept sv = PAborted"
        "w = (gt_world g)\<lparr>lw_servers := (lw_servers (gt_world g))(i \<mapsto> sv\<lparr>lv_accept := PIdle\<rparr>)\<rparr>"
      using assms(3) by (auto elim!: on_server_some)
    then show ?thesis using left_of_all_update [OF fin sv(1), of "sv\<lparr>lv_accept := PIdle\<rparr>"] all
      by (auto simp: left_of_def ending_def)
  next
    case (EConnEnd i)
    then obtain sv where sv: "lw_servers (gt_world g) i = Some sv" "lv_conn sv"
        "w = (gt_world g)\<lparr>lw_servers := (lw_servers (gt_world g))(i \<mapsto> lserver_conn_end sv)\<rparr>"
      using assms(3) by (auto elim!: on_server_some)
    have "left_of (lserver_conn_end sv) < left_of sv" "ending (lserver_conn_end sv)"
      using sv(2) all [OF sv(1)] by (auto simp: left_of_def ending_def lserver_defs)
    then show ?thesis using left_of_all_update [OF fin sv(1)] all sv(3) by auto
  next
    case (EGone i)
    then obtain sv where sv: "lw_servers (gt_world g) i = Some sv"
        "w = (gt_world g)\<lparr>lw_captures := lw_captures (gt_world g) - 1, lw_servers := (lw_servers (gt_world g))(i := None)\<rparr>"
      using assms(3) by (auto split: option.splits if_splits)
    then show ?thesis using left_of_all_gone [OF fin sv(1)] all by auto
  qed (use assms(2,3) dead in \<open>auto simp: thread_live_def ending_def dest!: all elim!: on_server_some split: if_splits\<close>)
qed

lemma winding_do:
  assumes "winding_up cfg g" and "thread_do cfg listens ev g = Some g'"
  shows "winding_up cfg g' \<and> steps_left g' < steps_left g"
proof -
  have ok: "threads_ok cfg g'" using assms threads_ok_do by (auto simp: winding_up_def)
  have refs: "gt_refs g = 0" "gt_handlers g = []" and all: "\<And>i sv. lw_servers (gt_world g) i = Some sv \<Longrightarrow> ending sv"
    using assms(1) by (auto simp: winding_up_def threads_ok_def strong_refs_def)
  show ?thesis
  proof (cases ev)
    case (TLive e)
    then show ?thesis using assms winding_live [OF assms(1)] ok
      by (fastforce simp: winding_up_def steps_left_def split: if_splits)
  next
    case (THandler i)
    then show ?thesis using assms(2) by (auto simp: handler_start_def ending_def dest!: all split: option.splits if_splits)
  next
    case TReturn
    then show ?thesis using assms ok by (auto simp: winding_up_def steps_left_def split: dtor.splits if_splits)
  qed (use assms(2) refs in \<open>auto simp: handler_release_def split: if_splits\<close>)
qed

lemma winding_run:
  "winding_up cfg g \<Longrightarrow> thread_run cfg listens evs g = Some g' \<Longrightarrow> winding_up cfg g' \<and> length evs + steps_left g' \<le> steps_left g"
proof (induction evs arbitrary: g)
  case (Cons ev evs)
  from Cons.prems(2) obtain g1 where g1: "thread_do cfg listens ev g = Some g1" "thread_run cfg listens evs g1 = Some g'"
    by (auto split: Option.bind_splits)
  have "winding_up cfg g1" "steps_left g1 < steps_left g" using winding_do [OF Cons.prems(1) g1(1)] by simp_all
  then show ?case using Cons.IH [OF _ g1(2)] by simp
qed simp

lemma winding_goes_on:
  assumes "winding_up cfg g" and "gt_dtor g \<noteq> DDone"
  shows "\<exists>ev g'. thread_do cfg listens ev g = Some g'"
proof (cases "shutdown_done (gt_world g)")
  case True
  have "thread_do cfg listens TReturn g = Some (g\<lparr>gt_dtor := DDone\<rparr>)"
    using assms True by (auto simp: winding_up_def)
  then show ?thesis by blast
next
  case False
  then have "dom (lw_servers (gt_world g)) \<noteq> {}"
    using assms(1) by (auto simp: winding_up_def threads_ok_def live_inv_def shutdown_done_def)
  then obtain i sv where sv: "lw_servers (gt_world g) i = Some sv" "ending sv"
    using assms(1) by (fastforce simp: winding_up_def)
  have free: "\<not> server_pinned i g" using assms by (auto simp: server_pinned_def winding_up_def threads_ok_def strong_refs_def)
  show ?thesis
  proof (cases "lv_accept sv = PAborted")
    case True
    then have "thread_do cfg listens (TLive (EAborted i)) g \<noteq> None" using sv by (simp add: thread_live_def on_server_def)
    then show ?thesis by blast
  next
    case False
    then have "thread_do cfg listens (TLive (EGone i)) g \<noteq> None"
      using sv free by (auto simp: thread_live_def ending_def held_def)
    then show ?thesis by blast
  qed
qed

lemma left_of_all_bound:
  assumes "live_inv cfg w"
  shows "left_of_all w \<le> 3 * lw_captures w"
proof -
  have "left_of_all w \<le> sum (\<lambda>i. 3) (dom (lw_servers w))"
    unfolding left_of_all_def by (rule sum_mono) (simp add: left_of_def)
  then show ?thesis using assms by (simp add: live_inv_def)
qed

lemma terminated_ending:
  assumes "\<forall>i sv. lw_servers w i = Some sv \<longrightarrow> lv_accept sv \<noteq> PReady" and "lw_servers (lw_terminate w) i = Some sv"
  shows "ending sv"
proof -
  obtain a where a: "lw_servers w i = Some a" "sv = lserver_signal a" using assms(2) by (auto simp: lw_terminate_def)
  then have "lv_accept a \<noteq> PReady" using assms(1) by blast
  then show ?thesis unfolding a(2) by (cases "lv_accept a") (simp_all add: ending_def lserver_defs)
qed

subsection \<open>When the destructor returns\<close>

lemma destructor_start:
  assumes "gt_dtor g = DNone" and "thread_do cfg listens ev g = Some g1" and "gt_dtor g1 = DWaits None"
  shows "gt_world g1 = lw_terminate (gt_world g)"
proof (cases ev)
  case TDrop
  then show ?thesis using assms by (auto simp: ref_gone_def split: if_splits)
qed (use assms in \<open>auto simp: handler_start_def handler_release_def ref_gone_def split: if_splits option.splits Option.bind_splits\<close>)

text \<open>C15: the destructor of the grabber, from any state in which the last reference goes: when a user released it and no
  accept had completed, at most three handlers for each server run, in any order, and then the destructor has returned
  and no capture is left. When it was the reference that an accept handler took while it made a connection, the
  destructor waits for the server of its own handler and never returns, whatever happens.\<close>

theorem grabber_destructor_returns:
  assumes "thread_reach cfg listens g" and "gt_dtor g = DNone"
    and "thread_do cfg listens ev g = Some g1" and "gt_dtor g1 = DWaits t" and "thread_run cfg listens evs g1 = Some g2"
  shows "case t of
      Some i \<Rightarrow> gt_dtor g2 = DWaits (Some i)
    | None \<Rightarrow> (\<forall>i sv. lw_servers (gt_world g) i = Some sv \<longrightarrow> lv_accept sv \<noteq> PReady) \<longrightarrow>
        length evs \<le> 3 * lw_captures (gt_world g) + 1
        \<and> (gt_dtor g2 = DDone \<and> shutdown_done (gt_world g2) \<or> (\<exists>ev' g3. thread_do cfg listens ev' g2 = Some g3))"
proof -
  have ok: "threads_ok cfg g1" using threads_ok_do [OF threads_reach_ok [OF assms(1)] assms(3)] .
  show ?thesis
  proof (cases t)
    case (Some i)
    then show ?thesis using handler_destructor_stuck [OF ok _ assms(5)] assms(4) by simp
  next
    case None
    have w: "gt_world g1 = lw_terminate (gt_world g)" using destructor_start [OF assms(2,3)] assms(4) None by simp
    have "length evs \<le> 3 * lw_captures (gt_world g) + 1
        \<and> (gt_dtor g2 = DDone \<and> shutdown_done (gt_world g2) \<or> (\<exists>ev' g3. thread_do cfg listens ev' g2 = Some g3))"
      if "\<forall>i sv. lw_servers (gt_world g) i = Some sv \<longrightarrow> lv_accept sv \<noteq> PReady"
    proof
      have up: "winding_up cfg g1"
        using ok assms(4) None w terminated_ending [OF that] by (auto simp: winding_up_def)
      have "left_of_all (gt_world g1) \<le> 3 * lw_captures (gt_world g)"
        using left_of_all_bound [of cfg "gt_world g1"] ok by (simp add: w threads_ok_def) (simp add: lw_terminate_def)
      then show "length evs \<le> 3 * lw_captures (gt_world g) + 1"
        using winding_run [OF up assms(5)] assms(4) by (simp add: steps_left_def)
      show "gt_dtor g2 = DDone \<and> shutdown_done (gt_world g2) \<or> (\<exists>ev' g3. thread_do cfg listens ev' g2 = Some g3)"
        using winding_run [OF up assms(5)] winding_goes_on by (auto simp: winding_up_def threads_ok_def)
    qed
    then show ?thesis using None by simp
  qed
qed

text \<open>A server that waits for a client, and the user lets the grabber go; then the same with a client whose connection is
  being made in the meantime.\<close>

definition demo_threads :: grab_threads where
  "demo_threads = threads_new\<lparr>gt_world := live0\<lparr>lw_captures := 1, lw_next := 1, lw_servers := [0 \<mapsto> lserver_start]\<rparr>\<rparr>"

lemma demo_threads_reach: "thread_reach demo_config (\<lambda>_. None) demo_threads"
  by (rule thread_next [OF thread_start, where ev = "TLive (EOpen ''tcp'' [])"])
    (simp add: thread_live_def threads_new_def demo_threads_def demo_open del: live_do.simps)

lemma handler_may_destroy:
  "map_option gt_dtor (thread_run demo_config (\<lambda>_. None)
     [TLive (EClient 0), THandler 0, TDrop, TRelease 0 ConnStarted, TLive (EConnEnd 0)] demo_threads)
   = Some (DWaits (Some 0))"
  by (simp add: demo_threads_def threads_new_def live0_def thread_live_def on_server_def handler_start_def handler_release_def
      ref_gone_def strong_refs_def lserver_defs accept_body_def lw_terminate_def)

theorem grabber_destructor_returns_witness:
  "\<exists>g1 g2. thread_do demo_config (\<lambda>_. None) TDrop demo_threads = Some g1
    \<and> thread_run demo_config (\<lambda>_. None) [TLive (EAborted 0), TLive (EGone 0), TReturn] g1 = Some g2
    \<and> (gt_dtor g2 = DDone \<and> shutdown_done (gt_world g2) \<or> (\<exists>ev' g3. thread_do demo_config (\<lambda>_. None) ev' g2 = Some g3))"
proof -
  let ?w = "live0\<lparr>lw_captures := 1, lw_next := 1, lw_servers := [0 \<mapsto> lserver_start]\<rparr>"
  let ?g1 = "\<lparr>gt_world = lw_terminate ?w, gt_refs = 0, gt_handlers = [], gt_dtor = DWaits None\<rparr>"
  have d: "thread_do demo_config (\<lambda>_. None) TDrop demo_threads = Some ?g1"
    by (simp add: demo_threads_def threads_new_def ref_gone_def strong_refs_def)
  obtain g2 where r: "thread_run demo_config (\<lambda>_. None) [TLive (EAborted 0), TLive (EGone 0), TReturn] ?g1 = Some g2"
    by (simp add: thread_live_def on_server_def lserver_defs lw_terminate_def live0_def server_pinned_def held_def shutdown_done_def)
  have "gt_dtor demo_threads = DNone" "\<forall>i sv. lw_servers (gt_world demo_threads) i = Some sv \<longrightarrow> lv_accept sv \<noteq> PReady"
    by (auto simp: demo_threads_def threads_new_def lserver_start_def split: if_splits)
  with grabber_destructor_returns [OF demo_threads_reach _ d _ r, of None] d r show ?thesis by auto
qed

end
