(* ===== verification/Pcap_Core.thy ===== *)
theory Pcap_Core
  imports Livecapture
begin

section \<open>From the configuration to a listening capture server (pcap/core, livecapture/servertcp, serverws)\<close>

text \<open>
  \<open>Core\<close> reads the configuration and makes the event loop and the grabber. The capture servers make their
  listener in their constructor, with the range of ports and the interface of the configuration. The sockets
  are those of \<open>Sockets\<close>; the JSON library, \<open>Context\<close> and \<open>EventLoop\<close> are not under \<open>src\<close>: reading a member of a
  JSON object is a parameter, as are the values \<open>Context\<close> gives.
\<close>

subsection \<open>Connections and servers of the sockets layer\<close>

text \<open>\<open>create_id\<close> increments a counter that starts with one million.\<close>

definition create_id :: "u64 \<Rightarrow> u64 \<times> u64" where
  "create_id c = (c + 1, c + 1)"

definition first_id :: u64 where
  "first_id = 1000000"

text \<open>What a class does not support: \<open>recv\<close> of all but udp, \<open>connect\<close> of a websocket.\<close>

datatype conn_class = TcpConn | UdpConn | WebConn

definition conn_recv :: "conn_class \<Rightarrow> unit result" where
  "conn_recv c = (if c = UdpConn then Inr () else Inl (NotImplemented ''recv() not implemented for this class''))"

definition web_connect :: "unit result" where
  "web_connect = Inl (NotImplemented ''websocket::connect not implemented yet'')"

text \<open>What the hooks of a completed write do beside the queue: an error is logged.\<close>

definition onWriteError :: "errcode \<Rightarrow> nat \<Rightarrow> sock_effect list" where
  "onWriteError err nwritten = [LogError ''error writing to socket: '']"

definition onWriteComplete :: "nat \<Rightarrow> sock_effect list" where
  "onWriteComplete nwritten = []"

text \<open>The constructors. A tcp connection takes a socket, or makes one and binds it to an address as given; a udp
  connection binds to any address when none is given.\<close>

definition tcp_conn_new :: "(sock_call \<Rightarrow> bool) \<Rightarrow> u16 \<Rightarrow> string \<Rightarrow> u64 \<Rightarrow> u64 option \<times> sock_call list \<times> u64" where
  "tcp_conn_new ok port addr ids =
     (case tcp_create ok port addr of
        (calls, False) \<Rightarrow> (None, calls, ids)
      | (calls, True) \<Rightarrow> (case create_id ids of (i, ids) \<Rightarrow> (Some i, calls, ids)))"

definition udp_conn_new :: "(sock_call \<Rightarrow> bool) \<Rightarrow> u16 \<Rightarrow> string \<Rightarrow> u64 \<Rightarrow> u64 option \<times> sock_call list \<times> u64" where
  "udp_conn_new ok port addr ids =
     (case create_id ids of (i, ids) \<Rightarrow>
        (case udp_bind ok port addr of
           (calls, False) \<Rightarrow> (None, calls, ids)
         | (calls, True) \<Rightarrow> (Some i, calls, ids)))"

definition tcp_server_new :: "'a acceptor_ops \<Rightarrow> u16 \<Rightarrow> string \<Rightarrow> int \<Rightarrow> 'a \<Rightarrow> error option \<times> 'a" where
  "tcp_server_new ops port addr backlog a = tcp_listen ops (ipv4addr addr) backlog port a"

definition tcp_server_range ::
  "'a acceptor_ops \<Rightarrow> (nat \<Rightarrow> u16 \<Rightarrow> u16 \<Rightarrow> u16) \<Rightarrow> u16 \<Rightarrow> u16 \<Rightarrow> string \<Rightarrow> int \<Rightarrow> 'a \<Rightarrow> error option \<times> 'a \<times> u16 list" where
  "tcp_server_range ops rnd minport maxport addr backlog a = tcp_listen_range ops rnd addr minport maxport backlog a"

text \<open>The operations of a \<open>websocketpp\<close> listener.\<close>

record 'b web_ops =
  ws_init_asio :: "'b \<Rightarrow> error option \<times> 'b"
  ws_set_backlog :: "int \<Rightarrow> 'b \<Rightarrow> 'b"
  ws_set_reuse :: "bool \<Rightarrow> 'b \<Rightarrow> 'b"
  ws_addr_ok :: "string \<Rightarrow> error option"
  ws_listen :: "string \<Rightarrow> u16 \<Rightarrow> 'b \<Rightarrow> error option \<times> 'b"
  ws_stop :: "'b \<Rightarrow> 'b"

definition web_init :: "'b web_ops \<Rightarrow> int \<Rightarrow> 'b web_listener \<Rightarrow> error option \<times> 'b web_listener" where
  "web_init ops backlog s =
     (case ws_init_asio ops (wl_listener s) of
        (Some e, b) \<Rightarrow> (Some e, s\<lparr>wl_listener := b\<rparr>)
      | (None, b) \<Rightarrow> (None, s\<lparr>wl_listener := ws_set_reuse ops True (ws_set_backlog ops backlog b)\<rparr>))"

definition web_server_new :: "'b web_ops \<Rightarrow> u16 \<Rightarrow> string \<Rightarrow> int \<Rightarrow> 'b \<Rightarrow> error option \<times> 'b web_listener" where
  "web_server_new ops port addr backlog b =
     then_do (web_init ops backlog \<lparr>wl_listener = b, wl_port = 0\<rparr>) (web_listen (ws_addr_ok ops) (ws_listen ops) (ipv4addr addr) port)"

definition web_server_range ::
  "'b web_ops \<Rightarrow> (nat \<Rightarrow> u16 \<Rightarrow> u16 \<Rightarrow> u16) \<Rightarrow> u16 \<Rightarrow> u16 \<Rightarrow> string \<Rightarrow> int \<Rightarrow> 'b \<Rightarrow> error option \<times> 'b web_listener \<times> u16 list" where
  "web_server_range ops rnd minport maxport addr backlog b =
     (case web_init ops backlog \<lparr>wl_listener = b, wl_port = 0\<rparr> of
        (Some e, s) \<Rightarrow> (Some e, s, [])
      | (None, s) \<Rightarrow> web_listen_range (ws_addr_ok ops) (ws_listen ops) rnd addr minport maxport s)"

definition web_cancel :: "'b web_ops \<Rightarrow> 'b web_listener \<Rightarrow> 'b web_listener" where
  "web_cancel ops s = s\<lparr>wl_listener := ws_stop ops (wl_listener s)\<rparr>"

text \<open>A tcp connection made without an address cannot be made: the empty text is no address, and \<open>create\<close> does
  not put the any-address in its place as \<open>ipv4addr\<close> does for the others.\<close>

lemma tcp_conn_needs_address:
  assumes "\<not> ok (FromString [])"
  shows "tcp_conn_new ok port [] ids = (None, [], ids)"
  using assms by (simp add: tcp_conn_new_def tcp_create_def)

lemma udp_conn_any_address:
  assumes "\<And>c. ok c"
  shows "udp_conn_new ok port [] ids = (Some (ids + 1),
    [FromString ''0.0.0.0'', OpenSock, ReuseAddr, ReusePort, NonBlocking, Bind ''0.0.0.0'' port], ids + 1)"
  using assms by (simp add: udp_conn_new_def udp_bind_def ipv4addr_def create_id_def Let_def)

text \<open>Asked for port 0, which lets the system choose one, a websocket server reports port 0.\<close>

lemma web_port_zero:
  assumes "web_server_new ops 0 addr backlog b = (None, s)"
  shows "wl_port s = 0"
  using assms by (auto simp: web_server_new_def web_init_def then_do_def web_listen_def split: prod.splits option.splits)

subsection \<open>The capture servers\<close>

text \<open>\<open>ServerTCP\<close>, \<open>ServerWS\<close>: the exception of the constructor, and \<open>port()\<close>. That of a tcp server is the port of
  the local endpoint of its acceptor, which the system tells (\<open>local_port\<close>); a websocket server remembers its own.\<close>

definition server_tcp_new ::
  "'a acceptor_ops \<Rightarrow> ('a \<Rightarrow> u16) \<Rightarrow> (nat \<Rightarrow> u16 \<Rightarrow> u16 \<Rightarrow> u16) \<Rightarrow> int \<Rightarrow> listener_cfg \<Rightarrow> 'a \<Rightarrow> error option \<times> u16" where
  "server_tcp_new ops local_port rnd backlog l a =
     (case tcp_server_range ops rnd (lc_minport l) (lc_maxport l) (lc_interface l) backlog a of (r, a, tried) \<Rightarrow> (r, local_port a))"

definition server_ws_new ::
  "'b web_ops \<Rightarrow> (nat \<Rightarrow> u16 \<Rightarrow> u16 \<Rightarrow> u16) \<Rightarrow> int \<Rightarrow> listener_cfg \<Rightarrow> 'b \<Rightarrow> error option \<times> u16" where
  "server_ws_new ops rnd backlog l b =
     (case web_server_range ops rnd (lc_minport l) (lc_maxport l) (lc_interface l) backlog b of (r, s, tried) \<Rightarrow> (r, wl_port s))"

record ('a, 'b) net =
  nt_tcp :: "'a acceptor_ops"
  nt_acceptor :: 'a
  nt_port :: "'a \<Rightarrow> u16"
  nt_web :: "'b web_ops"
  nt_listener :: 'b
  nt_rnd :: "nat \<Rightarrow> u16 \<Rightarrow> u16 \<Rightarrow> u16"
  nt_backlog :: int

definition server_listens :: "('a, 'b) net \<Rightarrow> listener_cfg \<Rightarrow> transport \<Rightarrow> error option \<times> u16" where
  "server_listens net l t =
     (case t of
        ServerTCP \<Rightarrow> server_tcp_new (nt_tcp net) (nt_port net) (nt_rnd net) (nt_backlog net) l (nt_acceptor net)
      | ServerWS \<Rightarrow> server_ws_new (nt_web net) (nt_rnd net) (nt_backlog net) l (nt_listener net))"

text \<open>\<open>uniform_int_distribution\<close> gives numbers of its interval.\<close>

definition in_range :: "(nat \<Rightarrow> u16 \<Rightarrow> u16 \<Rightarrow> u16) \<Rightarrow> bool" where
  "in_range rnd \<longleftrightarrow> (\<forall>k lo hi. lo \<le> hi \<longrightarrow> lo \<le> rnd k lo hi \<and> rnd k lo hi \<le> hi)"

text \<open>A bound acceptor has the port it was bound to, unless that was 0, for which the system chooses one; to
  listen does not change it.\<close>

definition bound_port :: "'a acceptor_ops \<Rightarrow> ('a \<Rightarrow> u16) \<Rightarrow> bool" where
  "bound_port ops local_port \<longleftrightarrow>
     (\<forall>addr p a a'. ac_bind ops addr p a = (None, a') \<longrightarrow> p \<noteq> 0 \<longrightarrow> local_port a' = p)
     \<and> (\<forall>backlog a a'. ac_listen ops backlog a = (None, a') \<longrightarrow> local_port a' = local_port a)"

lemma tcp_listen_port:
  assumes "bound_port ops local_port" and "tcp_listen ops addr backlog p a = (None, a')" and "p \<noteq> 0"
  shows "local_port a' = p"
proof -
  obtain a1 a2 where "ac_bind ops addr p a1 = (None, a2)" "ac_listen ops backlog a2 = (None, a')"
    using assms(2) by (auto simp: tcp_listen_def then_do_def split: prod.splits option.splits)
  then show ?thesis using assms(1,3) unfolding bound_port_def by metis
qed

lemma listen_loop_last:
  assumes "listen_loop f rnd lo hi n tried a = (None, a', tried')" and "0 < n"
    and "in_range rnd" and "lo \<le> hi"
  shows "tried' \<noteq> [] \<and> lo \<le> last tried' \<and> last tried' \<le> hi \<and> (\<exists>a0. f (last tried') a0 = (None, a'))"
  using assms(1,2)
proof (induction n arbitrary: tried a)
  case (Suc n)
  let ?p = "random_port rnd n hi lo"
  have p: "lo \<le> ?p \<and> ?p \<le> hi" using assms(3,4) by (intro rnd_in_range) (simp_all add: in_range_def)
  obtain r a1 where f: "f ?p a = (r, a1)" by (cases "f ?p a")
  show ?case
  proof (cases r)
    case None
    then show ?thesis using Suc.prems f p by (auto simp: Let_def)
  next
    case (Some e)
    then have "0 < n" "listen_loop f rnd lo hi n (tried @ [?p]) a1 = (None, a', tried')"
      using Suc.prems f by (auto simp: Let_def split: if_splits)
    then show ?thesis using Suc.IH by blast
  qed
qed simp

lemma port_tries_pos: "0 < port_tries lo hi"
  by (simp add: port_tries_def)

lemma server_port_in_range:
  assumes "server_listens net l t = (None, port)"
    and "in_range (nt_rnd net)"
    and "port_range (lc_minport l) (lc_maxport l) = (lo, hi)"
    and "bound_port (nt_tcp net) (nt_port net)"
  shows "lo \<le> port \<and> port \<le> hi \<or> t = ServerTCP \<and> lo = 0"
proof -
  have le: "lo \<le> hi" by (rule port_range_props(1) [OF assms(3)])
  show ?thesis
  proof (cases t)
    case ServerTCP
    then obtain a' tried where r: "listen_loop (tcp_listen (nt_tcp net) (ipv4addr (lc_interface l)) (nt_backlog net)) (nt_rnd net) lo hi
        (port_tries lo hi) [] (nt_acceptor net) = (None, a', tried)" and port: "port = nt_port net a'"
      using assms(1,3) by (auto simp: server_listens_def server_tcp_new_def tcp_server_range_def tcp_listen_range_def split: prod.splits)
    note last = listen_loop_last [OF r port_tries_pos assms(2) le]
    show ?thesis
    proof (cases "last tried = 0")
      case False
      then show ?thesis using last tcp_listen_port [OF assms(4)] port by metis
    qed (use last ServerTCP in simp)
  next
    case ServerWS
    then obtain s0 s tried where r: "listen_loop (web_listen (ws_addr_ok (nt_web net)) (ws_listen (nt_web net)) (ipv4addr (lc_interface l)))
        (nt_rnd net) lo hi (port_tries lo hi) [] s0 = (None, s, tried)" and port: "port = wl_port s"
      using assms(1,3) by (auto simp: server_listens_def server_ws_new_def web_server_range_def web_listen_range_def split: prod.splits option.splits)
    note last = listen_loop_last [OF r port_tries_pos assms(2) le]
    then obtain s1 where
      l: "web_listen (ws_addr_ok (nt_web net)) (ws_listen (nt_web net)) (ipv4addr (lc_interface l)) (last tried) s1 = (None, s)" by auto
    have "wl_port s = last tried" using l by (auto simp: web_listen_def split: option.splits prod.splits)
    then show ?thesis using port last by simp
  qed
qed

subsection \<open>Core\<close>

text \<open>\<open>json_at\<close> is \<open>json::at\<close>; \<open>Context\<close> gives the subscriber and the address of the host.\<close>

record core =
  co_threads :: u64
  co_subscriber :: string
  co_config :: config
  co_world :: live_world

definition core_new :: "'j jhlp \<Rightarrow> ('j \<Rightarrow> string \<Rightarrow> 'j result) \<Rightarrow> string \<Rightarrow> string \<Rightarrow> 'j \<Rightarrow> core result" where
  "core_new jh json_at subscriberId hostIP cfg =
     rbind (json_at cfg ''pcap'') (\<lambda>p. rbind (jh_u64 jh p ''threads'' 4) (\<lambda>n.
     rbind (json_at cfg ''pcap'') (\<lambda>p. rbind (jh_json jh p ''live'') (\<lambda>live.
     rbind (config_new jh hostIP live) (\<lambda>c.
       Inr \<lparr>co_threads = n, co_subscriber = subscriberId, co_config = c, co_world = live0\<rparr>)))))"

text \<open>\<open>open\<close> on the grabber of the core: the descriptor has the port of the new server and the timeout.\<close>

definition core_open :: "('a, 'b) net \<Rightarrow> string \<Rightarrow> string \<Rightarrow> core \<Rightarrow> (u16 \<times> u64) result \<times> core" where
  "core_open net tport capture c =
     (let listens = server_listens net (cf_listener (co_config c)) in
      case grabber_open (co_config c) (\<lambda>t. fst (listens t)) tport capture (co_world c) of
        (Inl e, w) \<Rightarrow> (Inl e, c\<lparr>co_world := w\<rparr>)
      | (Inr (_, timeout), w) \<Rightarrow>
          (Inr (case srv_create tport of Some t \<Rightarrow> snd (listens t) | None \<Rightarrow> 0, timeout), c\<lparr>co_world := w\<rparr>))"

text \<open>The ports a configuration asks for.\<close>

definition port_between :: "listener_cfg \<Rightarrow> u16 \<Rightarrow> bool" where
  "port_between l p \<longleftrightarrow> unat p \<le> max (unat (lc_minport l)) (unat (lc_maxport l))
     \<and> (if lc_maxport l = 0 then unat (lc_minport l) else min (unat (lc_minport l)) (unat (lc_maxport l))) \<le> unat p"

lemma server_port_between:
  assumes "server_listens net l t = (None, port)" and "in_range (nt_rnd net)" and "bound_port (nt_tcp net) (nt_port net)"
  shows "port_between l port \<or> t = ServerTCP \<and> lc_minport l = 0"
proof -
  obtain lo hi where range: "port_range (lc_minport l) (lc_maxport l) = (lo, hi)" by (cases "port_range (lc_minport l) (lc_maxport l)")
  note b = port_range_bounds [OF range]
  have "lo = 0 \<Longrightarrow> lc_minport l = 0" using range by (auto simp: port_range_def split: if_splits)
  then show ?thesis
    using server_port_in_range [OF assms(1,2) range assms(3)] unfolding port_between_def b [symmetric]
    by (auto simp: word_le_nat_alt)
qed

text \<open>C23: the configuration governs the capture servers: a core that was made from a configuration opens a server only for a
  capture that is known and enabled, and only while fewer servers are open than the limit, and its timeout is that of
  the configuration; each setting that is absent has its default. The port of its descriptor lies between the
  two ports of the configuration, whichever way round they are given (with 0 for the upper one it is the lower one);
  only a tcp server for which port 0 can be tried may have another, which the system chooses. A refusal
  changes nothing.\<close>

theorem core_open_configured:
  assumes "core_new jh json_at sub ip cfg = Inr c0" and "co_config c = co_config c0"
    and "in_range (nt_rnd net)" and "bound_port (nt_tcp net) (nt_port net)"
    and "core_open net tport capture c = (r, c')"
  shows "\<exists>p live lj l. json_at cfg ''pcap'' = Inr p \<and> jh_json jh p ''live'' = Inr live \<and> jh_json jh live ''listener'' = Inr lj
    \<and> listener_cfg_from jh ip lj = Inr l
    \<and> (case r of
         Inl _ \<Rightarrow> c' = c
       | Inr (port, timeout) \<Rightarrow>
           isCaptureExists (co_config c) (cname capture) \<and> tport \<in> {''tcp'', ''websocket''}
           \<and> lw_captures (co_world c) < unat (lc_limit l) \<and> lw_captures (co_world c') = lw_captures (co_world c) + 1
           \<and> (port_between l port \<or> tport = ''tcp'' \<and> lc_minport l = 0)
           \<and> timeout = lc_timeout l)"
proof -
  obtain p live lj l where cfg: "json_at cfg ''pcap'' = Inr p" "jh_json jh p ''live'' = Inr live" "jh_json jh live ''listener'' = Inr lj"
    "listener_cfg_from jh ip lj = Inr l" and l: "cf_listener (co_config c) = l"
    using assms(1,2) by (auto simp: core_new_def config_new_def config_read_def rbind_eq_Inr)
  have "case r of
         Inl _ \<Rightarrow> c' = c
       | Inr (port, timeout) \<Rightarrow>
           isCaptureExists (co_config c) (cname capture) \<and> tport \<in> {''tcp'', ''websocket''}
           \<and> lw_captures (co_world c) < unat (lc_limit l) \<and> lw_captures (co_world c') = lw_captures (co_world c) + 1
           \<and> (port_between l port \<or> tport = ''tcp'' \<and> lc_minport l = 0)
           \<and> timeout = lc_timeout l"
  proof (cases "grabber_open (co_config c) (\<lambda>t. fst (server_listens net l t)) tport capture (co_world c)")
    case (Pair res w)
    show ?thesis
    proof (cases res)
      case (Inl e)
      then have "w = co_world c" using Pair by (auto simp: grabber_open_def Let_def split: if_splits option.splits)
      then show ?thesis using Inl Pair assms(5) l by (auto simp: core_open_def Let_def)
    next
      case (Inr d)
      then obtain t where t: "srv_create tport = Some t" "fst (server_listens net l t) = None"
        and g: "isCaptureExists (co_config c) (cname capture)" "lw_captures (co_world c) < unat (lc_limit l)"
          "lw_captures w = lw_captures (co_world c) + 1" "snd d = lc_timeout l"
        using Pair l by (auto simp: grabber_open_def Let_def split: if_splits option.splits)
      have "server_listens net l t = (None, snd (server_listens net l t))" using t(2) by (simp add: prod_eq_iff)
      from server_port_between [OF this assms(3,4)]
      have "port_between l (snd (server_listens net l t)) \<or> tport = ''tcp'' \<and> lc_minport l = 0"
        using t(1) by (auto simp: srv_create_def split: if_splits)
      moreover have tp: "tport \<in> {''tcp'', ''websocket''}" using t(1) by (auto simp: srv_create_def split: if_splits)
      moreover have "r = Inr (snd (server_listens net l t), lc_timeout l)" "c' = c\<lparr>co_world := w\<rparr>"
        using Inr Pair assms(5) l t(1) g(4) by (auto simp: core_open_def Let_def split: prod.splits)
      ultimately show ?thesis using g by simp
    qed
  qed
  with cfg show ?thesis by blast
qed

text \<open>An empty configuration: every setting has its default.\<close>

definition demo_jh :: "unit jhlp" where
  "demo_jh = \<lparr>jh_json = (\<lambda>j k. Inr ()), jh_bool = (\<lambda>j k d. Inr d), jh_string = (\<lambda>j k d. Inr d), jh_u16 = (\<lambda>j k d. Inr d),
     jh_u64 = (\<lambda>j k d. Inr d), jh_items = (\<lambda>j. [])\<rparr>"

definition demo_core :: core where
  "demo_core = \<lparr>co_threads = 4, co_subscriber = ''s'', co_config = \<lparr>cf_captures = (\<lambda>_. None), cf_listener = listener_cfg0 ''lo''\<rparr>, co_world = live0\<rparr>"

text \<open>An acceptor that is its port; for port 0 the system chooses 49152.\<close>

definition demo_tcp_net :: "u16 acceptor_ops" where
  "demo_tcp_net = \<lparr>ac_open = (\<lambda>a. (None, a)), ac_reuse = (\<lambda>a. (None, a)),
     ac_bind = (\<lambda>addr p a. (None, if p = 0 then 49152 else p)), ac_listen = (\<lambda>backlog a. (None, a)), ac_addr_ok = (\<lambda>addr. None)\<rparr>"

definition demo_net :: "(u16, unit) net" where
  "demo_net = \<lparr>nt_tcp = demo_tcp_net, nt_acceptor = 0, nt_port = (\<lambda>a. a),
     nt_web = \<lparr>ws_init_asio = (\<lambda>b. (None, b)), ws_set_backlog = (\<lambda>_ b. b), ws_set_reuse = (\<lambda>_ b. b), ws_addr_ok = (\<lambda>_. None),
       ws_listen = (\<lambda>_ _ b. (None, b)), ws_stop = (\<lambda>b. b)\<rparr>,
     nt_listener = (), nt_rnd = demo_rnd, nt_backlog = 128\<rparr>"

lemma demo_core_new: "core_new demo_jh (\<lambda>j k. Inr ()) ''s'' ''lo'' () = Inr demo_core"
  by (simp add: core_new_def demo_jh_def config_new_def listener_cfg_from_def listener_cfg0_def config_read_def demo_core_def Let_def)

lemma demo_core_listens: "server_listens demo_net (listener_cfg0 ''lo'') ServerTCP = (None, 20000)"
proof -
  obtain n where n: "port_tries 20000 40000 = Suc n" using port_tries_pos [of 20000 40000] by (cases "port_tries 20000 40000") auto
  then show ?thesis
    by (simp add: server_listens_def server_tcp_new_def tcp_server_range_def tcp_listen_range_def listener_cfg0_def demo_net_def
        port_range_def Let_def random_port_def demo_rnd_def tcp_listen_def demo_tcp_net_def)
qed

lemma demo_core_open: "core_open demo_net ''tcp'' [] demo_core
  = (Inr (20000, 90), demo_core\<lparr>co_world := live0\<lparr>lw_captures := 1, lw_next := 1, lw_servers := [0 \<mapsto> lserver_start]\<rparr>\<rparr>)"
  using demo_core_listens
  by (simp add: core_open_def grabber_open_def demo_core_def isCaptureExists_def config_capture_def cname_def capture_cfg0_def
      srv_create_def live0_def Let_def) (simp add: listener_cfg0_def)

theorem core_open_configured_witness:
  "\<exists>l. listener_cfg_from demo_jh ''lo'' () = Inr l \<and> lw_captures (co_world demo_core) < unat (lc_limit l)
     \<and> (port_between l 20000 \<or> lc_minport l = 0) \<and> (90 :: u64) = lc_timeout l"
proof -
  have "in_range (nt_rnd demo_net)" by (simp add: in_range_def demo_net_def demo_rnd_def)
  moreover have "bound_port (nt_tcp demo_net) (nt_port demo_net)" by (simp add: bound_port_def demo_net_def demo_tcp_net_def)
  ultimately show ?thesis using core_open_configured [OF demo_core_new refl _ _ demo_core_open] by auto
qed

text \<open>With port 0 alone a tcp server has the port the system chose.\<close>

lemma tcp_port_zero:
  "server_listens demo_net ((listener_cfg0 ''lo'')\<lparr>lc_minport := 0, lc_maxport := 0\<rparr>) ServerTCP = (None, 49152)"
  by (simp add: server_listens_def server_tcp_new_def tcp_server_range_def tcp_listen_range_def demo_net_def demo_tcp_net_def
      port_range_def port_tries_def random_port_def tcp_listen_def Let_def)

end
