(* ===== verification/Socket_Life.thy ===== *)
theory Socket_Life
  imports Pcap_Core Live_Client
begin

section \<open>The life of a socket: close, cancel and what becomes of pending operations (sockets/)\<close>

text \<open>
  A tcp or udp connection with all the operations that are pending on its socket: connects, reads, receives, the send
  of the write queue and the writes that wait for the strand. Each of their handlers holds the connection
  (\<open>shared_from_this\<close>), which is destroyed when its owner and all of them are gone. \<open>boost::asio\<close> is the events: it
  documents that \<open>close\<close> completes the pending operations with \<open>operation_aborted\<close>, that an operation started on a
  closed socket fails with \<open>bad_descriptor\<close>, and that \<open>async_connect\<close> opens a socket that is not open.
\<close>

subsection \<open>State and operations\<close>

datatype op_kind = OpConnect | OpRead | OpRecv
datatype op_result = OpWaits | OpDue errcode nat

record sock_op =
  so_id :: nat
  so_kind :: op_kind
  so_res :: op_result

text \<open>\<open>sl_send\<close> is the send in progress, \<open>sl_log\<close> the callbacks that were called, with what they were told;
  operations are numbered in the order they are started.\<close>

record sock_life =
  sl_open :: bool
  sl_ops :: "sock_op list"
  sl_next :: nat
  sl_posts :: "smsg list"
  sl_conn :: bconn
  sl_send :: "op_result option"
  sl_log :: "(nat \<times> errcode) list"
  sl_owned :: bool

definition life_new :: sock_life where
  "life_new = \<lparr>sl_open = True, sl_ops = [], sl_next = 0, sl_posts = [], sl_conn = bconn_new, sl_send = None,
     sl_log = [], sl_owned = True\<rparr>"

definition bad_descriptor :: errcode where
  "bad_descriptor = EcOther 9"

definition op_started :: "bool \<Rightarrow> op_result" where
  "op_started opn = (if opn then OpWaits else OpDue bad_descriptor 0)"

definition life_start :: "op_kind \<Rightarrow> sock_life \<Rightarrow> sock_life" where
  "life_start k s =
     (let opn = sl_open s \<or> k = OpConnect
      in s\<lparr>sl_open := opn, sl_next := sl_next s + 1,
           sl_ops := sl_ops s @ [\<lparr>so_id = sl_next s, so_kind = k, so_res = op_started opn\<rparr>]\<rparr>)"

text \<open>\<open>connect\<close> throws for a text that is no address before it starts anything; \<open>recv\<close> is for udp only.\<close>

definition life_connect :: "(string \<Rightarrow> bool) \<Rightarrow> string \<Rightarrow> sock_life \<Rightarrow> sock_life result" where
  "life_connect valid_addr addr s =
     (if valid_addr addr then Inr (life_start OpConnect s) else Inl (RuntimeError ''Invalid argument''))"

definition life_read :: "sock_life \<Rightarrow> sock_life" where
  "life_read s = life_start OpRead s"

definition life_recv :: "conn_class \<Rightarrow> sock_life \<Rightarrow> sock_life result" where
  "life_recv cls s = rbind (conn_recv cls) (\<lambda>_. Inr (life_start OpRecv s))"

definition life_write :: "smsg \<Rightarrow> sock_life \<Rightarrow> sock_life" where
  "life_write m s = s\<lparr>sl_posts := sl_posts s @ [m]\<rparr>"

fun abort_result :: "op_result \<Rightarrow> op_result" where
  "abort_result OpWaits = OpDue EcAborted 0"
| "abort_result r = r"

text \<open>\<open>close\<close> answers the error code of the system; the socket is closed whatever it is.\<close>

definition life_close :: "errcode \<Rightarrow> sock_life \<Rightarrow> errcode \<times> sock_life" where
  "life_close ec s = (ec, s\<lparr>sl_open := False,
     sl_ops := map (\<lambda>x. x\<lparr>so_res := abort_result (so_res x)\<rparr>) (sl_ops s),
     sl_send := map_option abort_result (sl_send s)\<rparr>)"

text \<open>\<open>shutdown\<close> leaves the socket open; what the system does to pending operations is among the events.\<close>

definition life_shutdown :: "errcode \<Rightarrow> sock_life \<Rightarrow> errcode \<times> sock_life" where
  "life_shutdown ec s = (if sl_open s then ec else bad_descriptor, s)"

text \<open>The write queue changes on the strand; a send it starts becomes the operation in progress.\<close>

definition with_conn :: "bconn \<Rightarrow> sock_life \<Rightarrow> sock_life" where
  "with_conn c s =
     (if sl_send s = None \<and> 0 < bc_inflight c then s\<lparr>sl_conn := c, sl_send := Some (op_started (sl_open s))\<rparr>
      else s\<lparr>sl_conn := c\<rparr>)"

definition life_post_handler :: "(smsg \<Rightarrow> bool) \<Rightarrow> sock_life \<Rightarrow> sock_life" where
  "life_post_handler snd_ok s =
     (case sl_posts s of [] \<Rightarrow> s | m # ms \<Rightarrow> with_conn (bc_write snd_ok m (sl_conn s)) (s\<lparr>sl_posts := ms\<rparr>))"

definition life_send_handler :: "(smsg \<Rightarrow> bool) \<Rightarrow> errcode \<Rightarrow> nat \<Rightarrow> sock_life \<Rightarrow> sock_life" where
  "life_send_handler snd_ok e n s =
     with_conn (bc_handler snd_ok (e \<noteq> EcOk) n (sl_conn s)) (s\<lparr>sl_send := None\<rparr>)"

text \<open>The handler of a connect, read or receive calls the callback, which may start the next operation: \<open>again\<close>
  is what callbacks do.\<close>

type_synonym callbacks = "op_kind \<Rightarrow> errcode \<Rightarrow> nat \<Rightarrow> op_kind option"

definition life_op_handler :: "callbacks \<Rightarrow> nat \<Rightarrow> op_kind \<Rightarrow> errcode \<Rightarrow> nat \<Rightarrow> sock_life \<Rightarrow> sock_life" where
  "life_op_handler again i k e n s =
     (let s = s\<lparr>sl_ops := filter (\<lambda>x. so_id x \<noteq> i) (sl_ops s), sl_log := sl_log s @ [(i, e)]\<rparr>
      in case again k e n of None \<Rightarrow> s | Some k' \<Rightarrow> life_start k' s)"

text \<open>The service runs a handler that is due: that of an operation, of a posted write, of the send.\<close>

inductive life_run :: "(smsg \<Rightarrow> bool) \<Rightarrow> callbacks \<Rightarrow> sock_life \<Rightarrow> sock_life \<Rightarrow> bool" for snd_ok again where
  run_op: "x \<in> set (sl_ops s) \<Longrightarrow> so_res x = OpDue e n \<Longrightarrow>
    life_run snd_ok again s (life_op_handler again (so_id x) (so_kind x) e n s)"
| run_post: "sl_posts s \<noteq> [] \<Longrightarrow> life_run snd_ok again s (life_post_handler snd_ok s)"
| run_send: "sl_send s = Some (OpDue e n) \<Longrightarrow> life_run snd_ok again s (life_send_handler snd_ok e n s)"

inductive_cases life_runE: "life_run snd_ok again s s'"

text \<open>What happens to a connection: its users start, write, close and let go of it; operations complete; handlers run,
  with callbacks that do anything.\<close>

definition op_done :: "nat \<Rightarrow> errcode \<Rightarrow> nat \<Rightarrow> sock_op \<Rightarrow> sock_op" where
  "op_done i e n x = (if so_id x = i \<and> so_res x = OpWaits then x\<lparr>so_res := OpDue e n\<rparr> else x)"

inductive life_step :: "(smsg \<Rightarrow> bool) \<Rightarrow> sock_life \<Rightarrow> sock_life \<Rightarrow> bool" for snd_ok where
  step_start: "sl_owned s \<Longrightarrow> life_step snd_ok s (life_start k s)"
| step_write: "sl_owned s \<Longrightarrow> life_step snd_ok s (life_write m s)"
| step_close: "sl_owned s \<Longrightarrow> life_step snd_ok s (snd (life_close ec s))"
| step_release: "life_step snd_ok s (s\<lparr>sl_owned := False\<rparr>)"
| step_op: "life_step snd_ok s (s\<lparr>sl_ops := map (op_done i e n) (sl_ops s)\<rparr>)"
| step_send: "sl_send s = Some OpWaits \<Longrightarrow> n \<le> length (wire (hd (bc_queue (sl_conn s)))) \<Longrightarrow>
    life_step snd_ok s (s\<lparr>sl_send := Some (OpDue e n)\<rparr>)"
| step_handler: "life_run snd_ok again s s' \<Longrightarrow> life_step snd_ok s s'"

inductive_cases life_stepE: "life_step snd_ok s s'"

definition life_quiet :: "sock_life \<Rightarrow> bool" where
  "life_quiet s \<longleftrightarrow> sl_ops s = [] \<and> sl_posts s = [] \<and> sl_send s = None"

text \<open>Every handler has a reference to the connection, its owner another.\<close>

definition life_refs :: "sock_life \<Rightarrow> nat" where
  "life_refs s = of_bool (sl_owned s) + length (sl_ops s) + length (sl_posts s) + of_bool (sl_send s \<noteq> None)"

text \<open>What the transport has taken, with the part of a send whose handler has not run.\<close>

definition life_wire :: "sock_life \<Rightarrow> bytes" where
  "life_wire s = bc_wire (sl_conn s) @
     (case sl_send s of Some (OpDue e n) \<Rightarrow> take n (concat (map wire (take 1 (bc_queue (sl_conn s))))) | _ \<Rightarrow> [])"

subsection \<open>Invariant\<close>

definition callbacks_once :: "sock_life \<Rightarrow> bool" where
  "callbacks_once s \<longleftrightarrow> distinct (map so_id (sl_ops s) @ map fst (sl_log s))
     \<and> set (map so_id (sl_ops s) @ map fst (sl_log s)) = {..<sl_next s}"

definition closed_done :: "sock_life \<Rightarrow> bool" where
  "closed_done s \<longleftrightarrow> (\<not> sl_open s \<longrightarrow> (\<forall>x \<in> set (sl_ops s). so_res x \<noteq> OpWaits) \<and> sl_send s \<noteq> Some OpWaits)"

definition send_ok :: "sock_life \<Rightarrow> bool" where
  "send_ok s \<longleftrightarrow> bc_inv False (sl_conn s) \<and> bc_inflight (sl_conn s) = of_bool (sl_send s \<noteq> None)"

definition life_ok :: "sock_life \<Rightarrow> bool" where
  "life_ok s \<longleftrightarrow> callbacks_once s \<and> closed_done s \<and> send_ok s"

lemma life_ok_new: "life_ok life_new"
  by (simp add: life_ok_def callbacks_once_def closed_done_def send_ok_def life_new_def bconn_new_def bc_inv_new [unfolded bconn_new_def])

lemma callbacks_once_start: "callbacks_once s \<Longrightarrow> callbacks_once (life_start k s)"
  by (auto simp: callbacks_once_def life_start_def Let_def)

lemma closed_done_start: "closed_done s \<Longrightarrow> closed_done (life_start k s)"
  by (auto simp: closed_done_def life_start_def op_started_def Let_def)

lemma send_ok_start: "send_ok s \<Longrightarrow> send_ok (life_start k s)"
  by (simp add: send_ok_def life_start_def Let_def)

lemma life_ok_start: "life_ok s \<Longrightarrow> life_ok (life_start k s)"
  by (simp add: life_ok_def callbacks_once_start closed_done_start send_ok_start)

lemma life_ok_close: "life_ok s \<Longrightarrow> life_ok (snd (life_close ec s))"
  by (auto simp: life_ok_def callbacks_once_def closed_done_def send_ok_def life_close_def comp_def elim: abort_result.elims)

lemma bc_write_inflight: "bc_inv w c \<Longrightarrow> bc_inflight c \<le> bc_inflight (bc_write ok m c) \<and> bc_inflight (bc_write ok m c) \<le> 1"
  by (cases "bc_queue c") (auto simp: bc_inv_def bc_write_def bc_send_front_def Let_def)

lemma bc_handler_inflight: "bc_inv w c \<Longrightarrow> bc_inflight (bc_handler ok err n c) \<le> 1"
  by (auto simp: bc_inv_def bc_handler_def bc_send_front_def Let_def split: list.split)

lemma send_ok_with_conn:
  assumes "bc_inv False c" and "bc_inflight c \<le> 1" and "sl_send s \<noteq> None \<longrightarrow> bc_inflight c = 1"
  shows "send_ok (with_conn c s)"
  using assms by (cases "bc_inflight c") (auto simp: send_ok_def with_conn_def)

lemma send_ok_post: "send_ok s \<Longrightarrow> send_ok (life_post_handler ok s)"
proof (cases "sl_posts s")
  case (Cons m ms)
  assume s: "send_ok s"
  then have "bc_inv False (bc_write ok m (sl_conn s))" by (simp add: send_ok_def bc_inv_write)
  moreover have "sl_send s \<noteq> None \<longrightarrow> bc_inflight (bc_write ok m (sl_conn s)) = 1"
    and "bc_inflight (bc_write ok m (sl_conn s)) \<le> 1"
    using bc_write_inflight [of False "sl_conn s" ok m] s by (auto simp: send_ok_def)
  ultimately show ?thesis using Cons by (simp add: life_post_handler_def send_ok_with_conn)
qed (simp add: life_post_handler_def)

lemma send_ok_send:
  assumes "send_ok s" and "sl_send s = Some (OpDue e n)"
  shows "send_ok (life_send_handler ok e n s)"
proof -
  have inv: "bc_inv False (sl_conn s)" "0 < bc_inflight (sl_conn s)" using assms by (auto simp: send_ok_def)
  then show ?thesis unfolding life_send_handler_def
    by (intro send_ok_with_conn bc_inv_handler bc_handler_inflight) simp_all
qed

text \<open>A handler that has run is gone from the pending ones and its callback is in the log.\<close>

lemma callbacks_once_op:
  assumes "callbacks_once s" and "x \<in> set (sl_ops s)"
  shows "callbacks_once (life_op_handler again (so_id x) k e n s)"
proof -
  let ?s = "s\<lparr>sl_ops := filter (\<lambda>y. so_id y \<noteq> so_id x) (sl_ops s), sl_log := sl_log s @ [(so_id x, e)]\<rparr>"
  have "map so_id (sl_ops ?s) = filter (\<lambda>i. i \<noteq> so_id x) (map so_id (sl_ops s))" by (simp add: filter_map comp_def)
  moreover have "so_id x \<in> set (map so_id (sl_ops s))" using assms(2) by simp
  ultimately have "callbacks_once ?s" using assms(1) unfolding callbacks_once_def
    by (auto simp del: set_map map_map)
  then show ?thesis
    by (auto simp: life_op_handler_def Let_def intro: callbacks_once_start split: option.split)
qed

lemma closed_done_op: "closed_done s \<Longrightarrow> closed_done (life_op_handler again i k e n s)"
  by (auto simp: life_op_handler_def closed_done_def life_start_def op_started_def Let_def split: option.split)

lemma closed_done_with_conn: "closed_done s \<Longrightarrow> closed_done (with_conn c s)"
  by (auto simp: closed_done_def with_conn_def op_started_def)

lemma send_ok_op: "send_ok s \<Longrightarrow> send_ok (life_op_handler again i k e n s)"
  by (auto simp: life_op_handler_def send_ok_def life_start_def Let_def split: option.split)

lemma life_ok_run:
  assumes "life_run ok again s s'" and "life_ok s"
  shows "life_ok s'"
  using assms(1)
proof (cases rule: life_run.cases)
  case (run_op x e n)
  then show ?thesis using assms(2) by (simp add: life_ok_def callbacks_once_op closed_done_op send_ok_op)
next
  case run_post
  have "callbacks_once (life_post_handler ok s)" "closed_done (life_post_handler ok s)"
    using assms(2) by (auto simp: life_ok_def life_post_handler_def callbacks_once_def with_conn_def closed_done_def
        op_started_def split: list.split)
  then show ?thesis using run_post assms(2) by (simp add: life_ok_def send_ok_post)
next
  case (run_send e n)
  have "callbacks_once (life_send_handler ok e n s)" "closed_done (life_send_handler ok e n s)"
    using assms(2) by (auto simp: life_ok_def life_send_handler_def callbacks_once_def with_conn_def closed_done_def op_started_def)
  then show ?thesis using run_send assms(2) by (simp add: life_ok_def send_ok_send)
qed

lemma life_ok_op_done:
  assumes "life_ok s"
  shows "life_ok (s\<lparr>sl_ops := map (op_done i e n) (sl_ops s)\<rparr>)"
proof -
  have id: "map so_id (map (op_done i e n) xs) = map so_id xs" for xs by (simp add: op_done_def)
  show ?thesis using assms unfolding life_ok_def
    by (auto simp: callbacks_once_def id [unfolded map_map] closed_done_def send_ok_def op_done_def)
qed

lemma life_ok_update:
  assumes "life_ok s"
  shows "life_ok (life_write m s)" and "life_ok (s\<lparr>sl_owned := False\<rparr>)"
    and "sl_send s \<noteq> None \<Longrightarrow> life_ok (s\<lparr>sl_send := Some (OpDue e n)\<rparr>)"
  using assms by (simp_all add: life_ok_def callbacks_once_def closed_done_def send_ok_def life_write_def)

lemma life_ok_step: "life_step ok s s' \<Longrightarrow> life_ok s \<Longrightarrow> life_ok s'"
  by (erule life_stepE)
    (simp_all add: life_ok_start life_ok_close life_ok_op_done life_ok_run life_ok_update)

lemma life_ok_reach: "rtranclp (life_step ok) life_new s \<Longrightarrow> life_ok s"
  by (induction rule: rtranclp_induct) (auto intro: life_ok_new life_ok_step)

subsection \<open>A closed connection ends\<close>

text \<open>Callbacks that read or receive on after a success, and do nothing after an error, as those of the program.\<close>

definition reads_on :: "callbacks \<Rightarrow> bool" where
  "reads_on again \<longleftrightarrow> (\<forall>k e n k'. again k e n = Some k' \<longrightarrow> e = EcOk \<and> k' \<noteq> OpConnect)"

text \<open>What is left to run on a closed socket: a success may start one more operation, which fails.\<close>

fun result_weight :: "op_result \<Rightarrow> nat" where
  "result_weight OpWaits = 2"
| "result_weight (OpDue e n) = (if e = EcOk then 2 else 1)"

definition life_left :: "sock_life \<Rightarrow> nat" where
  "life_left s = sum_list (map (\<lambda>x. result_weight (so_res x)) (sl_ops s)) + 2 * length (sl_posts s)
     + (case sl_send s of None \<Rightarrow> 0 | Some r \<Rightarrow> result_weight r)"

lemma bad_descriptor_not_ok [simp]: "bad_descriptor \<noteq> EcOk"
  by (simp add: bad_descriptor_def)

lemma sum_list_remove:
  fixes f :: "sock_op \<Rightarrow> nat"
  assumes "x \<in> set xs"
  shows "sum_list (map f (filter (\<lambda>y. so_id y \<noteq> so_id x) xs)) + f x \<le> sum_list (map f xs)"
  using assms
proof (induction xs)
  case (Cons y ys)
  then show ?case
  proof (cases "x = y")
    case True
    have "sum_list (map f (filter (\<lambda>y. so_id y \<noteq> so_id x) ys)) \<le> sum_list (map f ys)"
      by (induction ys) simp_all
    then show ?thesis using True by simp
  qed auto
qed simp

lemma weight_with_conn:
  "\<not> sl_open s \<Longrightarrow> life_left (with_conn c s) \<le> life_left s + (if sl_send s = None then 1 else 0)"
  by (simp add: life_left_def with_conn_def op_started_def)

lemma life_run_closed:
  assumes "life_run ok again s s'" and "\<not> sl_open s" and "life_ok s" and "reads_on again"
  shows "\<not> sl_open s' \<and> life_left s' < life_left s"
  using assms(1)
proof (cases rule: life_run.cases)
  case (run_op x e n)
  note sum = sum_list_remove [OF run_op(2), of "\<lambda>x. result_weight (so_res x)"]
  show ?thesis
  proof (cases "again (so_kind x) e n")
    case None
    then show ?thesis using run_op sum assms(2)
      by (auto simp: life_op_handler_def life_left_def Let_def split: if_splits)
  next
    case (Some k)
    then have "e = EcOk" "k \<noteq> OpConnect" using assms(4) by (auto simp: reads_on_def)
    then show ?thesis using Some run_op sum assms(2)
      by (simp add: life_op_handler_def life_start_def life_left_def op_started_def Let_def)
  qed
next
  case run_post
  then obtain m ms where p: "sl_posts s = m # ms" by (cases "sl_posts s") auto
  let ?s = "s\<lparr>sl_posts := ms\<rparr>"
  have "life_left (with_conn (bc_write ok m (sl_conn s)) ?s) \<le> life_left ?s + 1"
    using weight_with_conn [of ?s "bc_write ok m (sl_conn s)"] assms(2) by (auto split: if_splits)
  moreover have "life_left s = life_left ?s + 2" using p by (simp add: life_left_def)
  ultimately show ?thesis using run_post p assms(2) by (auto simp: life_post_handler_def with_conn_def)
next
  case (run_send e n)
  have "bc_inflight (sl_conn s) = 1" using assms(3) run_send(2) by (simp add: life_ok_def send_ok_def)
  then have "bc_inflight (bc_handler ok True n (sl_conn s)) = 0" by (simp add: bc_handler_def)
  then show ?thesis
    using run_send assms(2) by (auto simp: life_send_handler_def life_left_def with_conn_def op_started_def)
qed

lemma life_left_bound: "life_left s \<le> 2 * (length (sl_ops s) + length (sl_posts s) + 1)"
proof -
  have w: "result_weight r \<le> 2" for r by (cases r) simp_all
  have "sum_list (map (\<lambda>x. result_weight (so_res x)) xs) \<le> 2 * length xs" for xs
    using sum_list_mono [of xs "\<lambda>x. result_weight (so_res x)" "\<lambda>_. 2"] w by (simp add: sum_list_triv)
  from this [of "sl_ops s"] w [of "the (sl_send s)"] show ?thesis by (cases "sl_send s") (simp_all add: life_left_def)
qed

lemma life_runs_closed:
  "(life_run ok again ^^ n) s s' \<Longrightarrow> \<not> sl_open s \<Longrightarrow> life_ok s \<Longrightarrow> reads_on again \<Longrightarrow>
     n + life_left s' \<le> life_left s \<and> \<not> sl_open s' \<and> life_ok s'"
proof (induction n arbitrary: s')
  case (Suc n)
  then obtain t where t: "(life_run ok again ^^ n) s t" "life_run ok again t s'" by auto
  from Suc.IH [OF t(1) Suc.prems(2-4)] life_run_closed [OF t(2) _ _ Suc.prems(4)] life_ok_run [OF t(2)]
  show ?case by auto
qed simp

text \<open>On a closed connection some handler is due until all are gone.\<close>

lemma closed_progress:
  assumes "life_ok s" and "\<not> sl_open s"
  shows "life_quiet s \<longleftrightarrow> (\<nexists>s'. life_run ok again s s')"
proof
  assume "life_quiet s"
  then show "\<nexists>s'. life_run ok again s s'" by (auto simp: life_quiet_def elim!: life_runE)
next
  assume n: "\<nexists>s'. life_run ok again s s'"
  have cd: "closed_done s" using assms(1) by (simp add: life_ok_def)
  have "sl_ops s = []"
  proof (rule ccontr)
    assume "sl_ops s \<noteq> []"
    then obtain x where x: "x \<in> set (sl_ops s)" by (cases "sl_ops s") auto
    with cd assms(2) have "so_res x \<noteq> OpWaits" by (simp add: closed_done_def)
    then show False using n x by (cases "so_res x") (auto intro: life_run.run_op)
  qed
  moreover have "sl_send s = None"
  proof (rule ccontr)
    assume "sl_send s \<noteq> None"
    then obtain e m where "sl_send s = Some (OpDue e m)" using cd assms(2)
      by (cases "sl_send s"; cases "the (sl_send s)") (auto simp: closed_done_def)
    then show False using n by (auto intro: life_run.run_send)
  qed
  moreover have "sl_posts s = []" using n by (meson life_run.run_post)
  ultimately show "life_quiet s" by (simp add: life_quiet_def)
qed

text \<open>Nothing more goes to the transport.\<close>

lemma taken_write: "bc_inv w c \<Longrightarrow> bc_inflight c = 1 \<Longrightarrow>
    take 1 (bc_queue (bc_write ok m c)) = take 1 (bc_queue c) \<and> bc_wire (bc_write ok m c) = bc_wire c"
  by (cases "bc_queue c") (auto simp: bc_inv_def bc_write_def Let_def)

lemma op_handler_fields:
  "sl_conn (life_op_handler again i k e n s) = sl_conn s" "sl_send (life_op_handler again i k e n s) = sl_send s"
  by (simp_all add: life_op_handler_def life_start_def Let_def split: option.split)

lemma life_wire_run:
  assumes "life_run ok again s s'" and "\<not> sl_open s" and "life_ok s" and "reads_on again"
  shows "life_wire s' = life_wire s"
  using assms(1)
proof (cases rule: life_run.cases)
  case (run_op x e n)
  then show ?thesis by (simp only: life_wire_def op_handler_fields)
next
  case run_post
  then obtain m ms where p: "sl_posts s = m # ms" by (cases "sl_posts s") auto
  have inv: "bc_inv False (sl_conn s)" "bc_inflight (sl_conn s) = of_bool (sl_send s \<noteq> None)"
    using assms(3) by (simp_all add: life_ok_def send_ok_def)
  show ?thesis
  proof (cases "sl_send s")
    case None
    have "bc_wire (bc_write ok m (sl_conn s)) = bc_wire (sl_conn s)"
      by (simp add: bc_write_def bc_send_front_def Let_def split: list.split)
    then show ?thesis using None run_post p assms(2)
      by (simp add: life_wire_def life_post_handler_def with_conn_def op_started_def)
  next
    case (Some r)
    then show ?thesis using run_post p inv taken_write [OF inv(1), of ok m]
      by (cases r) (simp_all add: life_wire_def life_post_handler_def with_conn_def)
  qed
next
  case (run_send e n)
  have "bc_wire (bc_handler ok err n c) = bc_wire c @ take n (concat (map wire (take 1 (bc_queue c))))" for err c
    by (simp add: bc_handler_def bc_send_front_def Let_def split: list.split)
  then show ?thesis using run_send assms(2)
    by (simp add: life_wire_def life_send_handler_def with_conn_def op_started_def)
qed

lemma life_wire_runs:
  "(life_run ok again ^^ n) s s' \<Longrightarrow> \<not> sl_open s \<Longrightarrow> life_ok s \<Longrightarrow> reads_on again \<Longrightarrow> life_wire s' = life_wire s"
proof (induction n arbitrary: s')
  case (Suc n)
  then obtain t where t: "(life_run ok again ^^ n) s t" "life_run ok again t s'" by auto
  have "\<not> sl_open t" "life_ok t" using life_runs_closed [OF t(1) Suc.prems(2-4)] by simp_all
  with life_wire_run [OF t(2)] Suc.IH [OF t(1) Suc.prems(2-4)] Suc.prems(4) show ?case by simp
qed simp

text \<open>Operation \<open>i\<close> has an end: its callback has been told \<open>e\<close>, or will be.\<close>

definition told :: "nat \<Rightarrow> errcode \<Rightarrow> sock_life \<Rightarrow> bool" where
  "told i e s \<longleftrightarrow> (i, e) \<in> set (sl_log s) \<or> (\<exists>x \<in> set (sl_ops s). so_id x = i \<and> (\<exists>n. so_res x = OpDue e n))"

lemma told_run:
  assumes "life_run ok again s s'" and "life_ok s" and "told i e s"
  shows "told i e s'"
  using assms(1)
proof (cases rule: life_run.cases)
  case (run_op x d n)
  have d: "inj_on so_id (set (sl_ops s))" using assms(2) by (simp add: life_ok_def callbacks_once_def distinct_map)
  let ?s = "s\<lparr>sl_ops := filter (\<lambda>y. so_id y \<noteq> so_id x) (sl_ops s), sl_log := sl_log s @ [(so_id x, d)]\<rparr>"
  have "told i e ?s"
  proof (cases "\<exists>y \<in> set (sl_ops s). so_id y = i \<and> so_id y \<noteq> so_id x \<and> (\<exists>n. so_res y = OpDue e n)")
    case False
    then have "(i, e) \<in> set (sl_log s) \<or> (so_id x = i \<and> (\<exists>n. so_res x = OpDue e n))"
      using assms(3) inj_onD [OF d _ run_op(2)] unfolding told_def by metis
    then show ?thesis using run_op(3) by (auto simp: told_def)
  qed (auto simp: told_def)
  then show ?thesis using run_op(1)
    by (auto simp: life_op_handler_def told_def life_start_def Let_def split: option.split)
qed (use assms(3) in \<open>auto simp: told_def life_post_handler_def life_send_handler_def with_conn_def split: list.split\<close>)

lemma told_runs:
  "(life_run ok again ^^ n) s s' \<Longrightarrow> life_ok s \<Longrightarrow> told i e s \<Longrightarrow> told i e s' \<and> life_ok s'"
proof (induction n arbitrary: s')
  case (Suc n)
  then obtain t where t: "(life_run ok again ^^ n) s t" "life_run ok again t s'" by auto
  from Suc.IH [OF t(1) Suc.prems(2,3)] told_run [OF t(2)] life_ok_run [OF t(2)] show ?case by blast
qed simp

lemma close_tells:
  "x \<in> set (sl_ops s) \<Longrightarrow> so_res x = OpWaits \<Longrightarrow> told (so_id x) EcAborted (snd (life_close ec s))"
  by (auto simp: told_def life_close_def)

text \<open>C11: a connection that is closed ends. Whatever happened to it before, and in whatever order its handlers run, at
  most two of them for each operation or write that was pending, and two for the send in progress, are left to run; no
  byte goes to the transport any more; and when none is left every callback ever given was called exactly once, those
  of the operations that were waiting with \<open>operation_aborted\<close>, and only the owner still holds the connection.\<close>

theorem closed_connection_ends:
  assumes "rtranclp (life_step snd_ok) life_new s" and "life_close ec s = (ec', c)"
    and "reads_on again" and "(life_run snd_ok again ^^ n) c c'"
  shows "n \<le> 2 * (length (sl_ops s) + length (sl_posts s) + 1) \<and> life_wire c' = life_wire s
    \<and> ((\<nexists>d. life_run snd_ok again c' d) \<longrightarrow>
         distinct (map fst (sl_log c')) \<and> set (map fst (sl_log c')) = {..<sl_next c'}
         \<and> (\<forall>x \<in> set (sl_ops s). so_res x = OpWaits \<longrightarrow> (so_id x, EcAborted) \<in> set (sl_log c'))
         \<and> life_refs c' = of_bool (sl_owned c'))"
proof -
  have c: "c = snd (life_close ec s)" using assms(2) by simp
  have ok: "life_ok c" using life_ok_reach [OF assms(1)] by (simp add: c life_ok_close)
  have closed: "\<not> sl_open c" and len: "length (sl_ops c) = length (sl_ops s)" "length (sl_posts c) = length (sl_posts s)"
    by (simp_all add: c life_close_def)
  have wire: "life_wire c = life_wire s"
    by (cases "sl_send s"; cases "the (sl_send s)") (simp_all add: c life_close_def life_wire_def)
  from life_runs_closed [OF assms(4) closed ok assms(3)]
  have run: "n + life_left c' \<le> life_left c" "\<not> sl_open c'" "life_ok c'" by simp_all
  have last: "distinct (map fst (sl_log c')) \<and> set (map fst (sl_log c')) = {..<sl_next c'}
      \<and> (\<forall>x \<in> set (sl_ops s). so_res x = OpWaits \<longrightarrow> (so_id x, EcAborted) \<in> set (sl_log c'))
      \<and> life_refs c' = of_bool (sl_owned c')" if "\<nexists>d. life_run snd_ok again c' d"
  proof -
    have q: "life_quiet c'" using closed_progress [OF run(3,2)] that by blast
    have "told (so_id x) EcAborted c'" if "x \<in> set (sl_ops s)" "so_res x = OpWaits" for x
      using told_runs [OF assms(4) ok] close_tells [OF that, of ec] by (simp add: c)
    then show ?thesis using q run(3)
      by (auto simp: life_quiet_def life_ok_def callbacks_once_def life_refs_def told_def)
  qed
  show ?thesis using run(1) life_left_bound [of c] len life_wire_runs [OF assms(4) closed ok assms(3)] wire last by auto
qed

text \<open>The read handler of the live capture reads on, whatever it got, until an error.\<close>

definition capture_callbacks :: callbacks where
  "capture_callbacks k e n = (if e = EcOk \<and> conn_proccess [] n then Some OpRead else None)"

lemma capture_reads_on: "reads_on capture_callbacks"
  by (simp add: reads_on_def capture_callbacks_def)

text \<open>A read waits and a message is being sent when the connection is closed.\<close>

theorem closed_connection_ends_witness:
  "\<exists>c'. life_wire c' = [] \<and> sl_log c' = [(0, EcAborted)] \<and> life_refs c' = 1"
proof -
  let ?ok = "\<lambda>_ :: smsg. True"
  let ?m = "smsg_new 0 [1, 2]"
  let ?s1 = "life_write ?m (life_start OpRead life_new)"
  let ?s = "life_post_handler ?ok ?s1"
  let ?c = "snd (life_close EcOk ?s)"
  let ?c1 = "life_op_handler capture_callbacks 0 OpRead EcAborted 0 ?c"
  let ?c' = "life_send_handler ?ok EcAborted 0 ?c1"
  note defs = life_new_def life_start_def life_write_def life_post_handler_def bc_write_def bconn_new_def
    bc_send_front_def with_conn_def life_close_def op_started_def life_op_handler_def capture_callbacks_def
    life_send_handler_def bc_handler_def Let_def
  have "life_step ?ok life_new (life_start OpRead life_new)" by (rule step_start) (simp add: life_new_def)
  moreover have "life_step ?ok (life_start OpRead life_new) ?s1" by (rule step_write) (simp add: life_new_def life_start_def Let_def)
  moreover have "life_step ?ok ?s1 ?s" by (intro step_handler run_post) (simp add: life_write_def)
  ultimately have reach: "rtranclp (life_step ?ok) life_new ?s" by (meson rtranclp.rtrancl_into_rtrancl rtranclp.rtrancl_refl)
  have "life_run ?ok capture_callbacks ?c ?c1"
    using run_op [where x = "\<lparr>so_id = 0, so_kind = OpRead, so_res = OpDue EcAborted 0\<rparr>" and s = ?c and snd_ok = ?ok and again = capture_callbacks]
    by (simp add: defs)
  moreover have "life_run ?ok capture_callbacks ?c1 ?c'" by (rule run_send) (simp add: defs)
  ultimately have runs: "(life_run ?ok capture_callbacks ^^ 2) ?c ?c'" by (auto simp: numeral_2_eq_2)
  have quiet: "\<nexists>d. life_run ?ok capture_callbacks ?c' d" by (auto elim!: life_runE simp: defs)
  have close: "life_close EcOk ?s = (EcOk, ?c)" by (simp add: life_close_def)
  have "life_wire ?s = []" "sl_owned ?c'" "sl_log ?c' = [(0, EcAborted)]" by (simp_all add: defs life_wire_def)
  with closed_connection_ends [OF reach close capture_reads_on runs] quiet show ?thesis by (intro exI [of _ ?c']) simp
qed

subsection \<open>The client of the live capture on such a socket\<close>

text \<open>What \<open>Live_Client\<close> keeps of the socket of its client: whether it is open and the state of its one read.\<close>

definition read_view :: "sock_op list \<Rightarrow> client_read" where
  "read_view ops = (case ops of [] \<Rightarrow> RdIdle
     | x # _ \<Rightarrow> (case so_res x of OpWaits \<Rightarrow> RdWait | OpDue e n \<Rightarrow> RdDue (e = EcOk)))"

definition client_view :: "client_timer \<Rightarrow> nat \<Rightarrow> sock_life \<Rightarrow> client_conn" where
  "client_view t posts s = \<lparr>cc_open = sl_open s, cc_timer = t, cc_read = read_view (sl_ops s), cc_posts = posts\<rparr>"

lemma client_close_refines:
  "client_view t k (snd (life_close ec s)) = close_socket (client_view t k s)"
  by (cases "sl_ops s"; cases "so_res (hd (sl_ops s))")
    (simp_all add: client_view_def read_view_def life_close_def close_socket_def)

lemma client_start_refines:
  "sl_ops s = [] \<Longrightarrow> client_view t k (life_read s) = client_read_start (client_view t k s)"
  by (simp add: client_view_def read_view_def life_read_def life_start_def op_started_def client_read_start_def Let_def)

lemma client_handler_refines:
  assumes "sl_ops s = [x]" and "so_res x = OpDue e n"
  shows "client_read_handler buf (client_view t k s)
    = (let s' = life_op_handler capture_callbacks (so_id x) (so_kind x) e n s
       in if e = EcOk then client_view t k s' else cancel_timer (client_view t k s'))"
  using assms by (simp add: client_view_def read_view_def client_read_handler_def life_op_handler_def capture_callbacks_def
      conn_proccess_def life_start_def op_started_def client_read_start_def cancel_timer_def Let_def)

subsection \<open>Websocket connections\<close>

text \<open>A websocket connection is kept by the close and fail handlers it has set on its socket, which it holds itself, and by
  a pending read. \<open>close\<close> asks \<open>websocketpp\<close> to terminate; the end of a connection, by it or by the peer, calls one of
  the two handlers, once.\<close>

record web_life = webconn +
  wv_terminated :: bool
  wv_ended :: bool

definition web_life_new :: web_life where
  "web_life_new = webconn.extend webconn_new \<lparr>wv_terminated = False, wv_ended = False\<rparr>"

definition web_life_close :: "web_life \<Rightarrow> errcode \<times> web_life" where
  "web_life_close c = (EcOk, c\<lparr>wv_terminated := True\<rparr>)"

datatype web_event = WvRead nat | WvClose | WvEnd bool

definition with_webconn :: "webconn \<Rightarrow> web_life \<Rightarrow> web_life" where
  "with_webconn w c = webconn.extend w \<lparr>wv_terminated = wv_terminated c, wv_ended = wv_ended c\<rparr>"

fun web_life_do :: "web_event \<Rightarrow> web_life \<Rightarrow> (nat \<times> errcode) list \<times> web_life" where
  "web_life_do (WvRead cb) c = ([], with_webconn (web_read cb (webconn.truncate c)) c)"
| "web_life_do WvClose c = ([], snd (web_life_close c))"
| "web_life_do (WvEnd failed) c =
     (if wv_ended c then ([], c)
      else case (if failed then web_failed else web_closed) (webconn.truncate c) of
             (calls, w) \<Rightarrow> (calls, (with_webconn w c)\<lparr>wv_ended := True\<rparr>))"

fun web_life_run :: "web_event list \<Rightarrow> web_life \<Rightarrow> (nat \<times> errcode) list \<times> web_life" where
  "web_life_run [] c = ([], c)"
| "web_life_run (e # es) c =
     (case web_life_do e c of (calls, c) \<Rightarrow> case web_life_run es c of (calls', c) \<Rightarrow> (calls @ calls', c))"

text \<open>The references to the connection besides that of its owner.\<close>

definition web_refs :: "web_life \<Rightarrow> nat" where
  "web_refs c = of_bool (wc_close c) + of_bool (wc_fail c) + of_bool (wc_onread c \<noteq> None)"

lemmas web_life_defs = web_read_def web_setHandlers_def web_resetHandlers_def web_closed_def web_failed_def
  with_webconn_def web_life_close_def webconn.defs webconn_new_def web_life_new_def

definition web_started :: "nat \<Rightarrow> web_life \<Rightarrow> bool" where
  "web_started cb c \<longleftrightarrow> wc_onread c = Some cb \<and> wc_handlersSet c \<and> wc_close c \<and> wc_fail c \<and> \<not> wv_ended c"

fun last_read :: "nat \<Rightarrow> web_event list \<Rightarrow> nat" where
  "last_read cb [] = cb"
| "last_read cb (WvRead cb' # es) = last_read cb' es"
| "last_read cb (e # es) = last_read cb es"

lemma web_started_run:
  "web_started cb c \<Longrightarrow> \<forall>f. WvEnd f \<notin> set es \<Longrightarrow> \<exists>c'. web_life_run es c = ([], c') \<and> web_started (last_read cb es) c'"
proof (induction es arbitrary: cb c)
  case (Cons e es)
  then show ?case by (cases e) (auto simp: web_started_def web_life_defs)
qed simp

text \<open>A connection that reads before it ends is told once, and then nothing but its owner keeps it.\<close>

lemma web_life_ends:
  assumes "\<forall>f. WvEnd f \<notin> set es"
  shows "\<exists>c. web_life_run (WvRead cb # es @ [WvEnd failed]) web_life_new = ([(last_read cb es, EcEof)], c) \<and> web_refs c = 0"
proof -
  let ?c = "snd (web_life_do (WvRead cb) web_life_new)"
  have app: "web_life_run (xs @ [e]) c = (case web_life_run xs c of (calls, c') \<Rightarrow>
      case web_life_do e c' of (calls', c'') \<Rightarrow> (calls @ calls', c''))" for xs e c
    by (induction xs arbitrary: c) (auto split: prod.splits)
  have "web_started cb ?c" by (simp add: web_started_def web_life_defs)
  then obtain c where c: "web_life_run es ?c = ([], c)" "web_started (last_read cb es) c"
    using web_started_run [OF _ assms] by blast
  have "\<exists>d. web_life_do (WvEnd failed) c = ([(last_read cb es, EcEof)], d) \<and> web_refs d = 0"
    using c(2) by (cases failed) (simp_all add: web_started_def web_life_defs web_refs_def)
  then show ?thesis using c(1) by (auto simp: app)
qed

text \<open>A read that is started after the end is never told, and its handler keeps the connection for ever.\<close>

lemma web_late_read_leaks:
  assumes "wv_ended c" and "wc_onread c \<noteq> None"
  shows "\<exists>c'. web_life_run es c = ([], c') \<and> 0 < web_refs c'"
  using assms
proof (induction es arbitrary: c)
  case (Cons e es)
  then show ?case by (cases e) (auto simp: web_life_defs)
qed (auto simp: web_refs_def)

lemma web_late_read_leaks_witness:
  "\<exists>c. web_life_run [WvEnd False, WvRead 1, WvClose] web_life_new = ([], c) \<and> 0 < web_refs c"
proof -
  let ?c = "snd (web_life_run [WvEnd False, WvRead 1] web_life_new)"
  have "wv_ended ?c" "wc_onread ?c \<noteq> None" by (simp_all add: web_life_defs)
  from web_late_read_leaks [OF this, of "[WvClose]"] show ?thesis by (simp add: web_life_defs)
qed

subsection \<open>Cancelling a tcp server\<close>

text \<open>The pending accepts of a server; \<open>None\<close> is one that waits. \<open>cancel\<close> completes them with \<open>operation_aborted\<close>.\<close>

type_synonym accepts = "errcode option list"

definition tcp_server_accept :: "accepts \<Rightarrow> accepts" where
  "tcp_server_accept xs = xs @ [None]"

definition tcp_server_cancel :: "accepts \<Rightarrow> accepts" where
  "tcp_server_cancel xs = map (\<lambda>r. Some (case r of None \<Rightarrow> EcAborted | Some e \<Rightarrow> e)) xs"

definition run_accepts :: "bool option \<Rightarrow> accepts \<Rightarrow> accept_outcome list \<times> accepts" where
  "run_accepts cb xs =
     (concat (map (\<lambda>r. case r of None \<Rightarrow> [] | Some e \<Rightarrow> tcp_accept_done cb e) xs), filter (\<lambda>r. r = None) xs)"

text \<open>After a cancel no accept waits, and only those that had completed before call the user.\<close>

lemma canceled_accepts_end:
  "snd (run_accepts cb (tcp_server_cancel xs)) = []
    \<and> length (filter (\<lambda>x. x = AcceptCalled) (fst (run_accepts cb (tcp_server_cancel xs))))
        = length (filter (\<lambda>r. r = Some EcOk) xs)"
  by (induction xs) (auto simp: run_accepts_def tcp_server_cancel_def tcp_accept_done_def split: option.splits)

end
