(* ===== verification/Scgi_Threads.thy ===== *)
theory Scgi_Threads
  imports Scgi_Server Socket_Life
begin

section \<open>Pool, server and dispatcher on several threads (scgi/pool.cpp, server.cpp, dispatcher.cpp)\<close>

text \<open>
  \<open>getConnection\<close> runs in an accept handler, \<open>freeConnection\<close> in the destructor of a connection and \<open>shutdown\<close> in that
  of the server, each on a thread of its own. All three look at \<open>fshutdown_\<close> before they take the mutex. A thread
  is at a point between two accesses to what the threads share; the mutex need not be recursive. After the pool come the accepts that
  outlive their server, and the dispatcher, whose mutex is never locked.
\<close>

subsection \<open>Threads\<close>

text \<open>\<open>ShutLoop\<close> has the entries of the map still to visit.\<close>

datatype pool_pc =
    PoolIdle
  | GetEntered | GetLocked
  | FreeEntered nat | FreeLocked nat
  | ShutEntered | ShutLoop "nat list"

text \<open>\<open>pt_live\<close>: the connections that exist; \<open>pt_late\<close>: those added after \<open>fshutdown_\<close> was set; \<open>pt_shut\<close>: the call of
  \<open>shutdown\<close> that set it has returned.\<close>

record pool_threads =
  pt_pool :: pool
  pt_counter :: nat
  pt_mutex :: "nat option"
  pt_pc :: "nat \<Rightarrow> pool_pc"
  pt_live :: "nat set"
  pt_closed :: "nat set"
  pt_late :: "nat set"
  pt_shut :: bool

definition pool_threads_new :: "nat \<Rightarrow> nat \<Rightarrow> pool_threads" where
  "pool_threads_new maxSize counter = \<lparr>pt_pool = pool_new maxSize, pt_counter = counter, pt_mutex = None,
     pt_pc = (\<lambda>_. PoolIdle), pt_live = {}, pt_closed = {}, pt_late = {}, pt_shut = False\<rparr>"

definition goto :: "nat \<Rightarrow> pool_pc \<Rightarrow> pool_threads \<Rightarrow> pool_threads" where
  "goto t pc s = s\<lparr>pt_pc := (pt_pc s)(t := pc)\<rparr>"

definition lock_pool :: "nat \<Rightarrow> pool_pc \<Rightarrow> pool_threads \<Rightarrow> pool_threads option" where
  "lock_pool t pc s = (if pt_mutex s = None then Some (goto t pc (s\<lparr>pt_mutex := Some t\<rparr>)) else None)"

definition unlock_pool :: "nat \<Rightarrow> pool_threads \<Rightarrow> pool_threads" where
  "unlock_pool t s = goto t PoolIdle (s\<lparr>pt_mutex := None\<rparr>)"

text \<open>The body of \<open>getConnection\<close> under the mutex.\<close>

definition get_body :: "pool_threads \<Rightarrow> pool_threads" where
  "get_body s =
     (let po = pt_pool s in
      if length (po_connections po) < po_maxSize po then
        (case Scgi_Server.create_id (pt_counter s) of
           (cid, n) \<Rightarrow> s\<lparr>pt_pool := po\<lparr>po_connections := insort cid (remove1 cid (po_connections po))\<rparr>, pt_counter := n,
                         pt_live := insert cid (pt_live s),
                         pt_late := (if po_shutdown po then insert cid (pt_late s) else pt_late s)\<rparr>)
      else s)"

definition free_body :: "nat \<Rightarrow> pool_threads \<Rightarrow> pool_threads" where
  "free_body cid s = s\<lparr>pt_pool := (pt_pool s)\<lparr>po_connections := remove1 cid (po_connections (pt_pool s))\<rparr>\<rparr>"

text \<open>The last reference to a connection goes on a thread that is in no call of the pool.\<close>

definition conn_gone :: "nat \<Rightarrow> nat \<Rightarrow> pool_threads \<Rightarrow> pool_threads" where
  "conn_gone t cid s =
     (let s = s\<lparr>pt_live := pt_live s - {cid}\<rparr>
      in if po_shutdown (pt_pool s) then s else goto t (FreeEntered cid) s)"

text \<open>One turn of the loop of \<open>shutdown\<close>; \<open>lastref\<close>: the reference of the loop was the last one, the destructor finds
  the flag set.\<close>

definition shut_turn :: "nat \<Rightarrow> nat \<Rightarrow> nat list \<Rightarrow> bool \<Rightarrow> pool_threads \<Rightarrow> pool_threads" where
  "shut_turn t cid rest lastref s =
     (let s = goto t (ShutLoop rest) s
      in if cid \<notin> pt_live s then s
         else s\<lparr>pt_closed := insert cid (pt_closed s), pt_live := (if lastref then pt_live s - {cid} else pt_live s)\<rparr>)"

datatype pool_event = EvGet | EvGone nat | EvShutdown | EvRun bool

definition pool_enter :: "nat \<Rightarrow> pool_event \<Rightarrow> pool_threads \<Rightarrow> pool_threads option" where
  "pool_enter t ev s =
     (case ev of
        EvGet \<Rightarrow> Some (if po_shutdown (pt_pool s) then s else goto t GetEntered s)
      | EvGone cid \<Rightarrow> if cid \<in> pt_live s then Some (conn_gone t cid s) else None
      | EvShutdown \<Rightarrow>
          Some (if po_shutdown (pt_pool s) then s
                else goto t ShutEntered (s\<lparr>pt_pool := (pt_pool s)\<lparr>po_shutdown := True\<rparr>\<rparr>))
      | EvRun _ \<Rightarrow> None)"

text \<open>\<open>EvRun\<close>: the thread goes on in the call it is in.\<close>

definition pool_run :: "nat \<Rightarrow> bool \<Rightarrow> pool_threads \<Rightarrow> pool_threads option" where
  "pool_run t lastref s =
     (case pt_pc s t of
        PoolIdle \<Rightarrow> None
      | GetEntered \<Rightarrow> lock_pool t GetLocked s
      | GetLocked \<Rightarrow> Some (unlock_pool t (get_body s))
      | FreeEntered cid \<Rightarrow> lock_pool t (FreeLocked cid) s
      | FreeLocked cid \<Rightarrow> Some (unlock_pool t (free_body cid s))
      | ShutEntered \<Rightarrow> lock_pool t (ShutLoop (po_connections (pt_pool s))) s
      | ShutLoop [] \<Rightarrow> Some (unlock_pool t (s\<lparr>pt_shut := True\<rparr>))
      | ShutLoop (cid # rest) \<Rightarrow> Some (shut_turn t cid rest lastref s))"

definition pool_do :: "nat \<Rightarrow> pool_event \<Rightarrow> pool_threads \<Rightarrow> pool_threads option" where
  "pool_do t ev s =
     (case ev of
        EvRun lastref \<Rightarrow> pool_run t lastref s
      | _ \<Rightarrow> if pt_pc s t = PoolIdle then pool_enter t ev s else None)"

inductive pool_reach :: "nat \<Rightarrow> nat \<Rightarrow> pool_threads \<Rightarrow> bool" for maxSize counter where
  pool_start: "pool_reach maxSize counter (pool_threads_new maxSize counter)"
| pool_next: "pool_reach maxSize counter s \<Longrightarrow> pool_do t ev s = Some s' \<Longrightarrow> pool_reach maxSize counter s'"

text \<open>A call that no other thread interrupts does what \<open>Scgi_Server\<close> says of it.\<close>

lemma get_alone:
  assumes "pt_pc s t = PoolIdle" and "pt_mutex s = None" and "\<not> po_shutdown (pt_pool s)"
    and "getConnection (pt_pool s) (pt_counter s) = (r, po, n)"
  shows "\<exists>s1 s2 s3. pool_do t EvGet s = Some s1 \<and> pool_do t (EvRun l) s1 = Some s2 \<and> pool_do t (EvRun l) s2 = Some s3
    \<and> pt_pool s3 = po \<and> pt_counter s3 = n \<and> pt_live s3 = pt_live s \<union> set_option r \<and> pt_mutex s3 = None \<and> pt_pc s3 = pt_pc s"
  using assms
  by (auto simp: pool_do_def pool_enter_def pool_run_def lock_pool_def unlock_pool_def goto_def get_body_def getConnection_def
      Scgi_Server.create_id_def Let_def fun_upd_idem split: if_splits)

lemma free_alone:
  assumes "pt_pc s t = PoolIdle" and "pt_mutex s = None" and "\<not> po_shutdown (pt_pool s)" and "cid \<in> pt_live s"
  shows "\<exists>s1 s2 s3. pool_do t (EvGone cid) s = Some s1 \<and> pool_do t (EvRun l) s1 = Some s2 \<and> pool_do t (EvRun l) s2 = Some s3
    \<and> pt_pool s3 = snd (freeConnection cid (pt_pool s)) \<and> pt_live s3 = pt_live s - {cid}"
  using assms
  by (auto simp: pool_do_def pool_enter_def pool_run_def lock_pool_def unlock_pool_def goto_def free_body_def freeConnection_def
      conn_gone_def Let_def remove1_idem)

subsection \<open>Invariant\<close>

definition holds_mutex :: "pool_pc \<Rightarrow> bool" where
  "holds_mutex pc = (case pc of GetLocked \<Rightarrow> True | FreeLocked _ \<Rightarrow> True | ShutLoop _ \<Rightarrow> True | _ \<Rightarrow> False)"

definition free_of :: "pool_pc \<Rightarrow> nat set" where
  "free_of pc = (case pc of FreeEntered cid \<Rightarrow> {cid} | FreeLocked cid \<Rightarrow> {cid} | _ \<Rightarrow> {})"

definition freeing :: "pool_threads \<Rightarrow> nat set" where
  "freeing s = (\<Union>t. free_of (pt_pc s t))"

definition shutting :: "pool_pc \<Rightarrow> bool" where
  "shutting pc = (case pc of ShutEntered \<Rightarrow> True | ShutLoop _ \<Rightarrow> True | _ \<Rightarrow> False)"

lemma shutting_pc [simp]: "\<not> shutting (FreeEntered cid)" "\<not> shutting (FreeLocked cid)" "\<not> shutting GetEntered" "\<not> shutting GetLocked"
  "\<not> shutting PoolIdle" "shutting ShutEntered" "shutting (ShutLoop rest)"
  by (simp_all add: shutting_def)

definition mutex_ok :: "pool_threads \<Rightarrow> bool" where
  "mutex_ok s \<longleftrightarrow> (\<forall>t. holds_mutex (pt_pc s t) \<longleftrightarrow> pt_mutex s = Some t)"

definition entries_ok :: "nat \<Rightarrow> pool_threads \<Rightarrow> bool" where
  "entries_ok m s \<longleftrightarrow> po_maxSize (pt_pool s) = m \<and> length (po_connections (pt_pool s)) \<le> m
     \<and> distinct (po_connections (pt_pool s)) \<and> pt_live s \<subseteq> set (po_connections (pt_pool s))
     \<and> (\<forall>cid \<in> set (po_connections (pt_pool s)). cid \<le> pt_counter s)
     \<and> freeing s \<inter> pt_live s = {} \<and> (\<forall>cid \<in> freeing s. cid \<le> pt_counter s)
     \<and> (\<not> po_shutdown (pt_pool s) \<longrightarrow> set (po_connections (pt_pool s)) \<subseteq> pt_live s \<union> freeing s)"

definition closing_ok :: "pool_threads \<Rightarrow> bool" where
  "closing_ok s \<longleftrightarrow> (\<forall>t u. shutting (pt_pc s t) \<longrightarrow> shutting (pt_pc s u) \<longrightarrow> t = u)
     \<and> (\<forall>t. shutting (pt_pc s t) \<longrightarrow> po_shutdown (pt_pool s) \<and> \<not> pt_shut s) \<and> (pt_shut s \<longrightarrow> po_shutdown (pt_pool s))
     \<and> (\<forall>t rest. pt_pc s t = ShutLoop rest \<longrightarrow> pt_live s \<subseteq> pt_closed s \<union> pt_late s \<union> set rest)
     \<and> (pt_shut s \<longrightarrow> pt_live s \<subseteq> pt_closed s \<union> pt_late s)"

lemmas pool_defs = pool_do_def pool_enter_def pool_run_def lock_pool_def unlock_pool_def goto_def free_body_def conn_gone_def
  shut_turn_def Let_def

lemma pool_do_cases:
  assumes "pool_do t ev s = Some s'"
  obtains (same) "s' = s"
  | (enter_get) "pt_pc s t = PoolIdle" "\<not> po_shutdown (pt_pool s)" "s' = goto t GetEntered s"
  | (gone_late) cid where "po_shutdown (pt_pool s)" "cid \<in> pt_live s" "s' = s\<lparr>pt_live := pt_live s - {cid}\<rparr>"
  | (gone) cid where "pt_pc s t = PoolIdle" "\<not> po_shutdown (pt_pool s)" "cid \<in> pt_live s"
      "s' = goto t (FreeEntered cid) (s\<lparr>pt_live := pt_live s - {cid}\<rparr>)"
  | (enter_shut) "pt_pc s t = PoolIdle" "\<not> po_shutdown (pt_pool s)"
      "s' = goto t ShutEntered (s\<lparr>pt_pool := (pt_pool s)\<lparr>po_shutdown := True\<rparr>\<rparr>)"
  | (lock) pc where "pt_mutex s = None" "(pt_pc s t = GetEntered \<and> pc = GetLocked)
      \<or> (\<exists>cid. pt_pc s t = FreeEntered cid \<and> pc = FreeLocked cid) \<or> (pt_pc s t = ShutEntered \<and> pc = ShutLoop (po_connections (pt_pool s)))"
      "s' = goto t pc (s\<lparr>pt_mutex := Some t\<rparr>)"
  | (got) "pt_pc s t = GetLocked" "s' = unlock_pool t (get_body s)"
  | (freed) cid where "pt_pc s t = FreeLocked cid" "s' = unlock_pool t (free_body cid s)"
  | (loop_end) "pt_pc s t = ShutLoop []" "s' = unlock_pool t (s\<lparr>pt_shut := True\<rparr>)"
  | (turn) cid rest lastref where "pt_pc s t = ShutLoop (cid # rest)" "s' = shut_turn t cid rest lastref s"
proof (cases ev)
  case EvGet
  then have "s' = s \<or> pt_pc s t = PoolIdle \<and> \<not> po_shutdown (pt_pool s) \<and> s' = goto t GetEntered s"
    using assms by (auto simp: pool_do_def pool_enter_def split: if_splits)
  then show ?thesis using same enter_get by blast
next
  case (EvGone cid)
  then have "pt_pc s t = PoolIdle \<and> cid \<in> pt_live s \<and> s' = conn_gone t cid s"
    using assms by (auto simp: pool_do_def pool_enter_def split: if_splits)
  then show ?thesis using gone [of cid] gone_late [of cid] by (cases "po_shutdown (pt_pool s)") (simp_all add: conn_gone_def Let_def)
next
  case EvShutdown
  then have "s' = s \<or> pt_pc s t = PoolIdle \<and> \<not> po_shutdown (pt_pool s)
      \<and> s' = goto t ShutEntered (s\<lparr>pt_pool := (pt_pool s)\<lparr>po_shutdown := True\<rparr>\<rparr>)"
    using assms by (auto simp: pool_do_def pool_enter_def split: if_splits)
  then show ?thesis using same enter_shut by blast
next
  case (EvRun b)
  then have run: "pool_run t b s = Some s'" using assms by (simp add: pool_do_def)
  show ?thesis
  proof (cases "pt_pc s t")
    case (ShutLoop cids)
    then show ?thesis using run loop_end turn [of _ _ b] by (cases cids) (auto simp: pool_run_def)
  next
    case GetEntered
    then show ?thesis using run lock [of GetLocked] by (simp add: pool_run_def lock_pool_def split: if_splits)
  next
    case (FreeEntered cid)
    then show ?thesis using run lock [of "FreeLocked cid"] by (simp add: pool_run_def lock_pool_def split: if_splits)
  next
    case ShutEntered
    then show ?thesis using run lock [of "ShutLoop (po_connections (pt_pool s))"]
      by (simp add: pool_run_def lock_pool_def split: if_splits)
  qed (use run got freed in \<open>simp_all add: pool_run_def\<close>)
qed

lemma get_body_fields [simp]:
  "pt_mutex (get_body s) = pt_mutex s" "pt_pc (get_body s) = pt_pc s" "pt_closed (get_body s) = pt_closed s"
  "pt_shut (get_body s) = pt_shut s" "po_shutdown (pt_pool (get_body s)) = po_shutdown (pt_pool s)"
  by (simp_all add: get_body_def Let_def split: prod.splits)

lemma goto_fields [simp]:
  "pt_pool (goto t pc s) = pt_pool s" "pt_counter (goto t pc s) = pt_counter s" "pt_mutex (goto t pc s) = pt_mutex s"
  "pt_pc (goto t pc s) = (pt_pc s)(t := pc)" "pt_live (goto t pc s) = pt_live s" "pt_closed (goto t pc s) = pt_closed s"
  "pt_late (goto t pc s) = pt_late s" "pt_shut (goto t pc s) = pt_shut s"
  by (simp_all add: goto_def)

lemma mutex_ok_do: "pool_do t ev s = Some s' \<Longrightarrow> mutex_ok s \<Longrightarrow> mutex_ok s'"
proof (erule pool_do_cases, goal_cases)
  case (6 pc)
  then have "holds_mutex pc" by (auto simp: holds_mutex_def)
  with 6 show ?case by (simp add: mutex_ok_def)
qed (auto simp: mutex_ok_def holds_mutex_def unlock_pool_def free_body_def shut_turn_def Let_def split: pool_pc.splits)

definition others_free :: "nat \<Rightarrow> pool_threads \<Rightarrow> nat set" where
  "others_free t s = (\<Union>u \<in> - {t}. free_of (pt_pc s u))"

lemma freeing_split: "freeing s = free_of (pt_pc s t) \<union> others_free t s"
  by (auto simp: freeing_def others_free_def)

lemma freeing_goto: "freeing (goto t pc s) = free_of pc \<union> others_free t s"
  by (simp add: freeing_split [of _ t] others_free_def)

lemma freeing_fields [simp]:
  "freeing (s\<lparr>pt_pool := po\<rparr>) = freeing s" "freeing (s\<lparr>pt_mutex := m\<rparr>) = freeing s" "freeing (s\<lparr>pt_live := L\<rparr>) = freeing s"
  "freeing (s\<lparr>pt_closed := C\<rparr>) = freeing s" "freeing (s\<lparr>pt_shut := b\<rparr>) = freeing s" "freeing (get_body s) = freeing s"
  "others_free t (s\<lparr>pt_pool := po\<rparr>) = others_free t s" "others_free t (s\<lparr>pt_mutex := m\<rparr>) = others_free t s"
  "others_free t (s\<lparr>pt_live := L\<rparr>) = others_free t s" "others_free t (s\<lparr>pt_closed := C\<rparr>) = others_free t s"
  "others_free t (s\<lparr>pt_shut := b\<rparr>) = others_free t s" "others_free t (get_body s) = others_free t s"
  by (simp_all add: freeing_def others_free_def)

lemma entries_ok_goto:
  assumes "entries_ok m s" and "free_of pc = free_of (pt_pc s t)"
  shows "entries_ok m (goto t pc s)"
proof -
  have "freeing (goto t pc s) = freeing s" using assms(2) by (simp add: freeing_goto freeing_split [of s t])
  then show ?thesis using assms(1) by (simp add: entries_ok_def)
qed

lemma entries_ok_got:
  assumes "entries_ok m s"
  shows "entries_ok m (get_body s)"
proof (cases "length (po_connections (pt_pool s)) < m")
  case True
  let ?n = "pt_counter s + 1"
  have fresh: "?n \<notin> set (po_connections (pt_pool s))" "?n \<notin> freeing s" using assms by (auto simp: entries_ok_def)
  then have g: "get_body s = s\<lparr>pt_pool := (pt_pool s)\<lparr>po_connections := insort ?n (po_connections (pt_pool s))\<rparr>, pt_counter := ?n,
      pt_live := insert ?n (pt_live s), pt_late := (if po_shutdown (pt_pool s) then insert ?n (pt_late s) else pt_late s)\<rparr>"
    using True assms by (simp add: get_body_def entries_ok_def Scgi_Server.create_id_def remove1_idem Let_def)
  have "freeing (get_body s) = freeing s" by simp
  then show ?thesis using assms True fresh unfolding g
    by (auto simp: entries_ok_def set_insort_key distinct_insort le_SucI)
next
  case False
  then show ?thesis using assms by (simp add: get_body_def entries_ok_def Let_def)
qed

lemma entries_ok_do:
  assumes "pool_do t ev s = Some s'" and "entries_ok m s" and "closing_ok s"
  shows "entries_ok m s'"
  using assms(1)
proof (cases rule: pool_do_cases)
  case enter_get
  then show ?thesis using entries_ok_goto [OF assms(2), of GetEntered t] by (simp add: free_of_def)
next
  case (gone_late cid)
  then show ?thesis using assms(2) by (auto simp: entries_ok_def)
next
  case (gone cid)
  then show ?thesis using assms(2) freeing_split [of s t] by (auto simp: entries_ok_def freeing_goto free_of_def)
next
  case enter_shut
  then show ?thesis using assms(2) freeing_split [of s t] by (auto simp: entries_ok_def freeing_goto free_of_def)
next
  case (lock pc)
  then have f: "free_of pc = free_of (pt_pc (s\<lparr>pt_mutex := Some t\<rparr>) t)" by (auto simp: free_of_def)
  have "entries_ok m (s\<lparr>pt_mutex := Some t\<rparr>)" using assms(2) by (simp add: entries_ok_def)
  from entries_ok_goto [OF this f] show ?thesis unfolding lock(3) .
next
  case got
  have "entries_ok m ((get_body s)\<lparr>pt_mutex := None\<rparr>)" using entries_ok_got [OF assms(2)] by (simp add: entries_ok_def)
  from entries_ok_goto [OF this, of PoolIdle t] show ?thesis using got by (simp add: unlock_pool_def free_of_def)
next
  case (freed cid)
  let ?cs = "po_connections (pt_pool s)"
  have cs: "set (remove1 cid ?cs) = set ?cs - {cid}" "length (remove1 cid ?cs) \<le> length ?cs" "distinct (remove1 cid ?cs)"
    using assms(2) by (auto simp: entries_ok_def length_remove1)
  have f: "freeing s = insert cid (others_free t s)" "freeing s' = others_free t s"
    using freed freeing_split [of s t] by (simp_all add: unlock_pool_def free_body_def freeing_goto free_of_def)
  have "cid \<notin> pt_live s" using assms(2) f(1) by (auto simp: entries_ok_def)
  then show ?thesis using assms(2) cs f freed(2) by (auto simp: entries_ok_def unlock_pool_def free_body_def)
next
  case loop_end
  have "entries_ok m (s\<lparr>pt_shut := True, pt_mutex := None\<rparr>)" using assms(2) by (simp add: entries_ok_def)
  from entries_ok_goto [OF this, of PoolIdle t] show ?thesis using loop_end by (simp add: unlock_pool_def free_of_def)
next
  case (turn cid rest lastref)
  have "entries_ok m (goto t (ShutLoop rest) s)" using entries_ok_goto [OF assms(2), of "ShutLoop rest" t] turn(1) by (simp add: free_of_def)
  moreover have "shutting (pt_pc s t)" by (simp add: turn(1))
  then have "po_shutdown (pt_pool s)" using assms(3) by (auto simp: closing_ok_def)
  ultimately show ?thesis using turn(2) by (auto simp: entries_ok_def shut_turn_def Let_def)
qed (use assms(2) in simp)

lemma not_shutting:
  assumes "closing_ok s" and "\<not> po_shutdown (pt_pool s)"
  shows "\<not> shutting (pt_pc s u)" and "pt_pc s u \<noteq> ShutLoop rest" and "\<not> pt_shut s"
proof -
  show 1: "\<not> shutting (pt_pc s u)" and "\<not> pt_shut s" using assms by (auto simp: closing_ok_def)
  then show "pt_pc s u \<noteq> ShutLoop rest" by (auto simp: shutting_def)
qed

lemma closing_ok_goto:
  assumes "closing_ok s" and "shutting pc = shutting (pt_pc s t)"
    and "\<And>rest. pc = ShutLoop rest \<Longrightarrow> pt_live s \<subseteq> pt_closed s \<union> pt_late s \<union> set rest"
  shows "closing_ok (goto t pc s)"
proof -
  have sh: "shutting (pt_pc (goto t pc s) u) = shutting (pt_pc s u)" for u using assms(2) by simp
  have "pt_live s \<subseteq> pt_closed s \<union> pt_late s \<union> set rest" if "pt_pc (goto t pc s) u = ShutLoop rest" for u rest
    using that assms(1,3) by (cases "u = t") (auto simp: closing_ok_def)
  then show ?thesis using assms(1) sh unfolding closing_ok_def by simp
qed

lemma closing_ok_got:
  assumes "closing_ok s" and "\<And>u rest. pt_pc s u \<noteq> ShutLoop rest"
  shows "closing_ok (get_body s)"
proof -
  have "pt_live (get_body s) - pt_late (get_body s) \<subseteq> pt_live s - pt_late s" if "po_shutdown (pt_pool s)"
    using that by (auto simp: get_body_def Let_def split: prod.splits)
  then show ?thesis using assms unfolding closing_ok_def get_body_fields by blast
qed

lemma closing_ok_do:
  assumes "pool_do t ev s = Some s'" and "closing_ok s" and "mutex_ok s" and "entries_ok m s"
  shows "closing_ok s'"
  using assms(1)
proof (cases rule: pool_do_cases)
  case enter_get
  then show ?thesis using assms(2) by (auto simp: closing_ok_def shutting_def split: if_splits)
next
  case (gone_late cid)
  then show ?thesis using assms(2) unfolding closing_ok_def by simp blast
next
  case (gone cid)
  then show ?thesis using not_shutting [OF assms(2)] assms(2) by (simp add: closing_ok_def)
next
  case enter_shut
  then show ?thesis using not_shutting [OF assms(2)] assms(2) by (simp add: closing_ok_def)
next
  case (lock pc)
  have "closing_ok (s\<lparr>pt_mutex := Some t\<rparr>)" using assms(2) by (simp add: closing_ok_def)
  then show ?thesis unfolding lock(3)
  proof (rule closing_ok_goto)
    show "shutting pc = shutting (pt_pc (s\<lparr>pt_mutex := Some t\<rparr>) t)" using lock(2) by auto
    show "pt_live (s\<lparr>pt_mutex := Some t\<rparr>) \<subseteq> pt_closed (s\<lparr>pt_mutex := Some t\<rparr>) \<union> pt_late (s\<lparr>pt_mutex := Some t\<rparr>) \<union> set rest"
      if "pc = ShutLoop rest" for rest
      using lock(2) that assms(4) by (auto simp: entries_ok_def)
  qed
next
  case got
  have "pt_mutex s = Some t" using assms(3) got(1) by (auto simp: mutex_ok_def holds_mutex_def split: pool_pc.splits)
  then have "pt_pc s u \<noteq> ShutLoop rest" for u rest
    using assms(3) got(1) by (cases "u = t") (auto simp: mutex_ok_def holds_mutex_def dest!: spec [of _ u])
  then have "closing_ok ((get_body s)\<lparr>pt_mutex := None\<rparr>)" using closing_ok_got [OF assms(2)] by (simp add: closing_ok_def)
  then show ?thesis unfolding got(2) unlock_pool_def by (rule closing_ok_goto) (simp_all add: got(1))
next
  case (freed cid)
  have "closing_ok ((free_body cid s)\<lparr>pt_mutex := None\<rparr>)" using assms(2) by (simp add: closing_ok_def free_body_def)
  then show ?thesis unfolding freed(2) unlock_pool_def by (rule closing_ok_goto) (simp_all add: freed(1) free_body_def)
next
  case loop_end
  have "pt_live s \<subseteq> pt_closed s \<union> pt_late s \<union> set []" using assms(2) loop_end(1) unfolding closing_ok_def by blast
  then have sh: "shutting (pt_pc s t)" "pt_live s \<subseteq> pt_closed s \<union> pt_late s" using loop_end(1) by simp_all
  then have "\<not> shutting (pt_pc s u)" if "u \<noteq> t" for u using assms(2) that by (auto simp: closing_ok_def)
  then have "\<not> shutting (pt_pc s' u)" for u unfolding loop_end(2) by (simp add: unlock_pool_def)
  moreover have "pt_pc s' u \<noteq> ShutLoop rest" for u rest using calculation [of u] by auto
  moreover have "po_shutdown (pt_pool s)" using assms(2) sh(1) by (auto simp: closing_ok_def)
  ultimately show ?thesis using sh(2) unfolding closing_ok_def loop_end(2) by (simp add: unlock_pool_def)
next
  case (turn cid rest lastref)
  define a where "a = (if cid \<notin> pt_live s then s
    else s\<lparr>pt_closed := insert cid (pt_closed s), pt_live := (if lastref then pt_live s - {cid} else pt_live s)\<rparr>)"
  have s': "s' = goto t (ShutLoop rest) a" by (simp add: turn(2) shut_turn_def a_def goto_def Let_def)
  have less: "pt_live a \<subseteq> pt_live s" "pt_closed s \<subseteq> pt_closed a" "pt_late a = pt_late s" "cid \<in> pt_live a \<longrightarrow> cid \<in> pt_closed a"
    by (auto simp: a_def)
  have same: "pt_pc a = pt_pc s" "pt_pool a = pt_pool s" "pt_shut a = pt_shut s" by (simp_all add: a_def)
  have sub: "pt_live s \<subseteq> pt_closed s \<union> pt_late s \<union> set (cid # rest)" using assms(2) turn(1) unfolding closing_ok_def by blast
  have "closing_ok a" using assms(2) less unfolding closing_ok_def same by blast
  then show ?thesis unfolding s' by (rule closing_ok_goto) (use sub less in \<open>auto simp: same turn(1)\<close>)
qed (use assms(2) in simp)

lemma pool_new_ok: "mutex_ok (pool_threads_new m n)" "entries_ok m (pool_threads_new m n)" "closing_ok (pool_threads_new m n)"
  by (simp_all add: mutex_ok_def entries_ok_def closing_ok_def pool_threads_new_def pool_new_def holds_mutex_def freeing_def free_of_def shutting_def)

lemma pool_reach_ok: "pool_reach m n s \<Longrightarrow> mutex_ok s \<and> entries_ok m s \<and> closing_ok s"
  by (induction rule: pool_reach.induct) (auto intro: pool_new_ok mutex_ok_do entries_ok_do closing_ok_do)

text \<open>C17: the pool of an SCGI server on any number of threads, however their calls interleave: never more than
  \<open>maxSize\<close> connections exist, and until it is shut down the pool knows those that exist and those being destroyed, no
  others; when \<open>shutdown\<close> has returned, every connection that exists was told to close or was added after the flag was set,
  by a call that had looked at it before; and no thread is ever stuck for good: as long as one is in a call, one can go on.\<close>

theorem pool_threads_bounded:
  assumes "pool_reach maxSize counter s"
  shows "card (pt_live s) \<le> maxSize
    \<and> pt_live s \<subseteq> set (po_connections (pt_pool s))
    \<and> (\<not> po_shutdown (pt_pool s) \<longrightarrow> set (po_connections (pt_pool s)) \<subseteq> pt_live s \<union> freeing s)
    \<and> (pt_shut s \<longrightarrow> pt_live s \<subseteq> pt_closed s \<union> pt_late s)
    \<and> (pt_pc s t \<noteq> PoolIdle \<longrightarrow> (\<exists>u l s'. pt_pc s u \<noteq> PoolIdle \<and> pool_do u (EvRun l) s = Some s'))"
proof -
  have inv: "mutex_ok s" "entries_ok maxSize s" "closing_ok s" using pool_reach_ok [OF assms] by simp_all
  have "card (pt_live s) \<le> card (set (po_connections (pt_pool s)))"
    using inv(2) by (intro card_mono) (auto simp: entries_ok_def)
  moreover have "card (set (po_connections (pt_pool s))) \<le> maxSize" using inv(2) by (simp add: entries_ok_def distinct_card)
  moreover have "\<exists>u l s'. pt_pc s u \<noteq> PoolIdle \<and> pool_do u (EvRun l) s = Some s'" if that': "pt_pc s t \<noteq> PoolIdle"
  proof -
    obtain u where u: "pt_pc s u \<noteq> PoolIdle" "pt_mutex s = None \<or> holds_mutex (pt_pc s u)"
    proof (cases "pt_mutex s")
      case None
      then show ?thesis using that that' by blast
    next
      case (Some a)
      then have "holds_mutex (pt_pc s a)" using inv(1) by (simp add: mutex_ok_def)
      then show ?thesis using that [of a] by (auto simp: holds_mutex_def split: pool_pc.splits)
    qed
    then have "pool_run u True s \<noteq> None"
      by (auto simp: pool_run_def lock_pool_def holds_mutex_def split: pool_pc.splits list.splits)
    then show ?thesis using u(1) by (auto simp: pool_do_def)
  qed
  ultimately show ?thesis using inv(2,3) by (auto simp: entries_ok_def closing_ok_def)
qed

text \<open>A client is accepted on thread 1 while thread 0 shuts the pool down: its connection is not closed.\<close>

definition late_pool :: pool_threads where
  "late_pool = foldl (\<lambda>s (t, ev). the (pool_do t ev s)) (pool_threads_new 1 0)
     [(1, EvGet), (0, EvShutdown), (0, EvRun True), (0, EvRun True), (1, EvRun True), (1, EvRun True)]"

lemma late_pool_state: "pt_shut late_pool \<and> pt_live late_pool = {1} \<and> pt_closed late_pool = {} \<and> pt_late late_pool = {1}"
  by (simp add: late_pool_def pool_threads_new_def pool_new_def pool_defs get_body_def Scgi_Server.create_id_def)

theorem pool_threads_bounded_witness:
  "card (pt_live late_pool) \<le> 1 \<and> pt_live late_pool \<subseteq> pt_closed late_pool \<union> pt_late late_pool"
proof -
  have step: "pool_reach 1 0 (the (pool_do t ev s))" if "pool_reach 1 0 s" "pool_do t ev s \<noteq> None" for t ev s
    using that pool_next by fastforce
  have "pool_reach 1 0 late_pool"
    unfolding late_pool_def foldl_Cons foldl_Nil prod.case
    by (intro step pool_start)
      (simp_all add: pool_threads_new_def pool_new_def pool_defs get_body_def Scgi_Server.create_id_def)
  from pool_threads_bounded [OF this] show ?thesis using late_pool_state by simp
qed

subsection \<open>The callback of a server that is gone\<close>

text \<open>The callback of \<open>accept\<close> holds a bare \<open>this\<close>, while the pending operation holds the listener: of the accepts of a
  server, every one that had completed when the destructor cancelled the listener still calls back, on the destroyed
  server.\<close>

definition server_destructor_accepts :: "accepts \<Rightarrow> accept_outcome list" where
  "server_destructor_accepts xs = fst (run_accepts (Some True) (tcp_server_cancel xs))"

lemma completed_accept_dangles:
  "AcceptCalled \<in> set (server_destructor_accepts xs) \<longleftrightarrow> Some EcOk \<in> set xs"
proof -
  have "length (filter (\<lambda>x. x = AcceptCalled) (server_destructor_accepts xs)) = length (filter (\<lambda>r. r = Some EcOk) xs)"
    using canceled_accepts_end [of "Some True" xs] by (simp add: server_destructor_accepts_def)
  then have "filter (\<lambda>x. x = AcceptCalled) (server_destructor_accepts xs) = [] \<longleftrightarrow> filter (\<lambda>r. r = Some EcOk) xs = []"
    by (simp only: length_0_conv [symmetric])
  then show ?thesis by (simp add: filter_empty_conv) blast
qed

subsection \<open>The handlers of the dispatcher without their mutex\<close>

text \<open>\<open>guard_t (mtx_)\<close> declares a guard that locks nothing, so \<open>find\<close> walks the map of handlers while other threads change it.
  An iterator is at a key or at the end; one at a key that has been erased is invalid.\<close>

datatype find_pc = FindAt "string option" | FindResult "nat option result"

definition iter_of :: "(string \<times> nat) list \<Rightarrow> find_pc" where
  "iter_of m = FindAt (case m of [] \<Rightarrow> None | (p, _) # _ \<Rightarrow> Some p)"

definition find_begin :: "'j dispatcher \<Rightarrow> find_pc" where
  "find_begin ds = iter_of (dp_handlers ds)"

definition find_turn :: "(string \<Rightarrow> string \<Rightarrow> bool result) \<Rightarrow> string \<Rightarrow> 'j dispatcher \<Rightarrow> find_pc \<Rightarrow> find_pc" where
  "find_turn rx uri ds pc =
     (case pc of
        FindResult r \<Rightarrow> pc
      | FindAt None \<Rightarrow> FindResult (Inr None)
      | FindAt (Some p) \<Rightarrow>
          (case dropWhile (\<lambda>(q, _). q \<noteq> p) (dp_handlers ds) of
             [] \<Rightarrow> FindResult (Inl BadAccess)
           | (q, h) # m \<Rightarrow>
               (case rx q uri of
                  Inl e \<Rightarrow> FindResult (Inl e)
                | Inr b \<Rightarrow> if b then FindResult (Inr (Some h)) else iter_of m)))"

lemma find_turn_simps [simp]:
  "find_turn rx uri ds (FindResult r) = FindResult r"
  "find_turn rx uri ds (FindAt None) = FindResult (Inr None)"
  "dropWhile (\<lambda>(q, _). q \<noteq> p) (dp_handlers ds) = [] \<Longrightarrow> find_turn rx uri ds (FindAt (Some p)) = FindResult (Inl BadAccess)"
  "dropWhile (\<lambda>(q, _). q \<noteq> p) (dp_handlers ds) = (q, h) # m \<Longrightarrow> find_turn rx uri ds (FindAt (Some p)) =
     (case rx q uri of Inl e \<Rightarrow> FindResult (Inl e) | Inr b \<Rightarrow> if b then FindResult (Inr (Some h)) else iter_of m)"
  by (simp_all add: find_turn_def del: dropWhile_eq_Nil_conv)

lemma find_turns_done [simp]: "(find_turn rx uri ds ^^ k) (FindResult r) = FindResult r"
  by (induction k) simp_all

text \<open>With the map left alone the turns come to what \<open>Scgi_Service\<close> says of \<open>find\<close>.\<close>

lemma find_turns_from:
  assumes "handlers_ok (pre @ m)" and "dp_handlers ds = pre @ m" and "length m < n"
  shows "(find_turn rx uri ds ^^ n) (iter_of m) = FindResult (find_handler rx uri m)"
  using assms
proof (induction m arbitrary: pre n)
  case Nil
  then obtain k where n: "n = Suc k" by (cases n) auto
  then show ?case by (simp add: n funpow_Suc_right iter_of_def del: funpow.simps)
next
  case (Cons e m)
  obtain p h where e: "e = (p, h)" by (cases e)
  obtain k where n: "n = Suc k" "length m < k" using Cons.prems(3) by (cases n) auto
  have "p \<notin> fst ` set pre" using Cons.prems(1) by (auto simp: handlers_ok_def e sorted_wrt_append)
  then have "\<forall>x \<in> set pre. (\<lambda>(q, _). q \<noteq> p) x" by force
  then have d: "dropWhile (\<lambda>(q, _). q \<noteq> p) (dp_handlers ds) = (p, h) # m"
    by (subst Cons.prems(2), subst dropWhile_append2) (auto simp: e)
  have it: "iter_of ((p, h) # m) = FindAt (Some p)" by (simp add: iter_of_def)
  have "(find_turn rx uri ds ^^ k) (iter_of m) = FindResult (find_handler rx uri m)"
    using Cons.IH [of "pre @ [e]" k] Cons.prems(1,2) n(2) by simp
  then show ?case
    by (cases "rx p uri") (simp_all add: n(1) funpow_Suc_right it d e del: funpow.simps)
qed

lemma find_alone:
  assumes "handlers_ok (dp_handlers ds)" and "length (dp_handlers ds) < n"
  shows "(find_turn rx uri ds ^^ n) (find_begin ds) = FindResult (find_handler rx uri (dp_handlers ds))"
  using find_turns_from [of "[]" "dp_handlers ds" ds n] assms by (simp add: find_begin_def)

text \<open>A handler removed by another thread while \<open>find\<close> is at it, or all of them cancelled, leaves the iterator invalid.\<close>

lemma find_races:
  assumes "dp_handlers ds = (createPattern pat, h) # m"
  shows "find_turn rx uri (dispatcher_remove pat ds) (find_begin ds) = FindResult (Inl BadAccess)"
    and "find_turn rx uri (dispatcher_cancel ds) (find_begin ds) = FindResult (Inl BadAccess)"
proof -
  have b: "find_begin ds = FindAt (Some (createPattern pat))" using assms by (simp add: find_begin_def iter_of_def)
  have "dropWhile (\<lambda>(q, _). q \<noteq> createPattern pat) (dp_handlers (dispatcher_remove pat ds)) = []"
    by (auto simp: dispatcher_remove_def map_erase_def dropWhile_eq_Nil_conv)
  then show "find_turn rx uri (dispatcher_remove pat ds) (find_begin ds) = FindResult (Inl BadAccess)" by (simp add: b)
  show "find_turn rx uri (dispatcher_cancel ds) (find_begin ds) = FindResult (Inl BadAccess)" by (simp add: b dispatcher_cancel_def)
qed

end
