(* ===== verification/Redis.thy ===== *)
theory Redis
  imports Prelude
begin

section \<open>Redis client (redis/)\<close>

text \<open>
  \<open>Redis\<close> builds commands, has the connection pool run them and reads the replies; the entity classes
  build the commands of one key. A command is the list of its arguments. The connection and the pool
  of redis3m are parameters over a state \<open>'w\<close> (the server and the network): an operation of a connection may
  throw, and \<open>run_with_connection\<close> runs a function on some connection of the pool.
\<close>

subsection \<open>Replies and cursors\<close>

datatype reply = StatusR string | ErrorR string | IntegerR int | NilR | StringR string | ArrayR "reply list"

definition isString :: "reply \<Rightarrow> bool" where
  "isString r = (case r of StringR _ \<Rightarrow> True | _ \<Rightarrow> False)"

definition isArray :: "reply \<Rightarrow> bool" where
  "isArray r = (case r of ArrayR _ \<Rightarrow> True | _ \<Rightarrow> False)"

definition isInteger :: "reply \<Rightarrow> bool" where
  "isInteger r = (case r of IntegerR _ \<Rightarrow> True | _ \<Rightarrow> False)"

definition isNULL :: "reply \<Rightarrow> bool" where
  "isNULL r = (r = NilR)"

definition isError :: "reply \<Rightarrow> bool" where
  "isError r = (case r of ErrorR _ \<Rightarrow> True | _ \<Rightarrow> False)"

definition isStatus :: "reply \<Rightarrow> bool" where
  "isStatus r = (case r of StatusR _ \<Rightarrow> True | _ \<Rightarrow> False)"

definition reply_str :: "reply \<Rightarrow> string" where
  "reply_str r = (case r of StringR s \<Rightarrow> s | StatusR s \<Rightarrow> s | ErrorR s \<Rightarrow> s | _ \<Rightarrow> [])"

definition reply_elements :: "reply \<Rightarrow> reply list" where
  "reply_elements r = (case r of ArrayR rs \<Rightarrow> rs | _ \<Rightarrow> [])"

definition reply_integer :: "reply \<Rightarrow> int" where
  "reply_integer r = (case r of IntegerR i \<Rightarrow> i | _ \<Rightarrow> 0)"

text \<open>A cursor is the text the server gave; \<open>0\<close> is the invalid one.\<close>

type_synonym cursor = string

definition cursor_invalid :: cursor where
  "cursor_invalid = ''0''"

definition cursor_valid :: "cursor \<Rightarrow> bool" where
  "cursor_valid c \<longleftrightarrow> c \<noteq> cursor_invalid"

definition cursor_reset :: "cursor \<Rightarrow> cursor" where
  "cursor_reset c = cursor_invalid"

subsection \<open>Running commands\<close>

type_synonym command = "string list"
type_synonym ('w, 'a) op = "'w \<Rightarrow> 'a result \<times> 'w"

definition op_bind :: "('w, 'a) op \<Rightarrow> ('a \<Rightarrow> ('w, 'b) op) \<Rightarrow> ('w, 'b) op" where
  "op_bind m f w = (case m w of (Inl e, w) \<Rightarrow> (Inl e, w) | (Inr x, w) \<Rightarrow> f x w)"

definition op_return :: "'a \<Rightarrow> ('w, 'a) op" where
  "op_return x w = (Inr x, w)"

definition op_throw :: "error \<Rightarrow> ('w, 'a) op" where
  "op_throw e w = (Inl e, w)"

record 'w redis =
  rd_run :: "command \<Rightarrow> ('w, reply) op"
  rd_append :: "command \<Rightarrow> ('w, unit) op"
  rd_get_replies :: "nat \<Rightarrow> ('w, reply list) op"
  rd_with :: "nat \<Rightarrow> ('w, reply) op \<Rightarrow> ('w, reply) op"
  rd_with_set :: "nat \<Rightarrow> ('w, reply list) op \<Rightarrow> ('w, reply list) op"
  rd_retries :: nat

definition kMAX_RETRIES :: nat where
  "kMAX_RETRIES = 50"

definition exec_args :: "'w redis \<Rightarrow> command \<Rightarrow> ('w, reply) op" where
  "exec_args rdb cmd =
     rd_with rdb (rd_retries rdb) (op_bind (rd_run rdb cmd) (\<lambda>r.
       if isError r then
         op_throw (RuntimeError (''redis error on command '' @ [CHR 39]
           @ (case cmd of [] \<Rightarrow> ''<NO COMMAND>'' | c # _ \<Rightarrow> c) @ [CHR 39] @ '' '' @ reply_str r))
       else op_return r))"

fun run_transaction :: "'w redis \<Rightarrow> command list \<Rightarrow> ('w, reply) op" where
  "run_transaction rdb [] = rd_run rdb [''EXEC'']"
| "run_transaction rdb (cmd # tr) =
     op_bind (rd_run rdb cmd) (\<lambda>r.
       if isError r then op_bind (rd_run rdb [''DISCARD'']) (\<lambda>_. op_return r)
       else run_transaction rdb tr)"

definition exec_transaction :: "'w redis \<Rightarrow> command list \<Rightarrow> ('w, reply) op" where
  "exec_transaction rdb tr =
     rd_with rdb (rd_retries rdb) (op_bind (rd_run rdb [''MULTI'']) (\<lambda>_. run_transaction rdb tr))"

text \<open>\<open>static_cast<IntType>\<close> is the parameter \<open>cast\<close>.\<close>

definition redis_getInt :: "(int \<Rightarrow> 'i) \<Rightarrow> reply \<Rightarrow> 'i \<Rightarrow> 'i" where
  "redis_getInt cast r defValue =
     (if isString r then cast (ato_int (c_str (reply_str r)))
      else if isInteger r then cast (reply_integer r)
      else defValue)"

definition redis_getString :: "reply \<Rightarrow> string \<Rightarrow> string" where
  "redis_getString r defValue =
     (if isString r then reply_str r
      else if isInteger r then string_of_int (reply_integer r)
      else defValue)"

definition as_size :: "int \<Rightarrow> u64" where
  "as_size i = word_of_int i"

definition as_int :: "int \<Rightarrow> int" where
  "as_int i = sint (word_of_int i :: 32 word)"

definition exec_size :: "'w redis \<Rightarrow> command \<Rightarrow> ('w, u64) op" where
  "exec_size rdb cmd = op_bind (exec_args rdb cmd) (\<lambda>r. op_return (redis_getInt as_size r 0))"

definition redis_exists :: "'w redis \<Rightarrow> string \<Rightarrow> ('w, bool) op" where
  "redis_exists rdb key = op_bind (exec_args rdb [''EXISTS'', key]) (\<lambda>r. op_return (redis_getInt as_int r 0 = 1))"

definition redis_expire :: "'w redis \<Rightarrow> string \<Rightarrow> int \<Rightarrow> ('w, bool) op" where
  "redis_expire rdb key v =
     op_bind (exec_args rdb [''EXPIRE'', key, string_of_int v]) (\<lambda>r. op_return (redis_getInt as_int r 0 = 1))"

definition redis_get :: "'w redis \<Rightarrow> string \<Rightarrow> ('w, reply) op" where
  "redis_get rdb key = exec_args rdb [''GET'', key]"

definition redis_get_string :: "'w redis \<Rightarrow> string \<Rightarrow> string \<Rightarrow> ('w, string) op" where
  "redis_get_string rdb key defValue = op_bind (redis_get rdb key) (\<lambda>r. op_return (redis_getString r defValue))"

definition redis_get_int :: "(int \<Rightarrow> 'i) \<Rightarrow> 'w redis \<Rightarrow> string \<Rightarrow> 'i \<Rightarrow> ('w, 'i) op" where
  "redis_get_int cast rdb key defValue = op_bind (redis_get rdb key) (\<lambda>r. op_return (redis_getInt cast r defValue))"

definition redis_set :: "'w redis \<Rightarrow> string \<Rightarrow> string \<Rightarrow> ('w, bool) op" where
  "redis_set rdb key v = op_bind (exec_args rdb [''SET'', key, v]) (\<lambda>r. op_return (\<not> isError r))"

definition redis_setex :: "'w redis \<Rightarrow> string \<Rightarrow> string \<Rightarrow> int \<Rightarrow> ('w, bool) op" where
  "redis_setex rdb key v expire =
     op_bind (exec_args rdb [''SETEX'', key, string_of_int expire, v]) (\<lambda>r. op_return (\<not> isError r))"

definition redis_setnx :: "'w redis \<Rightarrow> string \<Rightarrow> string \<Rightarrow> ('w, bool) op" where
  "redis_setnx rdb key v = op_bind (exec_args rdb [''SETNX'', key, v]) (\<lambda>r. op_return (\<not> isError r))"

definition redis_setnx_ex :: "'w redis \<Rightarrow> string \<Rightarrow> string \<Rightarrow> int \<Rightarrow> ('w, bool) op" where
  "redis_setnx_ex rdb key v expire =
     op_bind (exec_args rdb [''SET'', key, v, ''EX'', string_of_int expire, ''NX'']) (\<lambda>r. op_return (\<not> isError r))"

definition redis_ttl :: "'w redis \<Rightarrow> string \<Rightarrow> ('w, int) op" where
  "redis_ttl rdb key =
     op_bind (exec_args rdb [''TTL'', key]) (\<lambda>r. op_return (redis_getInt (\<lambda>i. sint (word_of_int i :: u64)) r 0))"

definition remove_keys :: "'w redis \<Rightarrow> string list \<Rightarrow> ('w, u64) op" where
  "remove_keys rdb keys = (if keys = [] then op_return 0 else exec_size rdb (''DEL'' # keys))"

definition remove_key :: "'w redis \<Rightarrow> string \<Rightarrow> ('w, bool) op" where
  "remove_key rdb key = op_bind (remove_keys rdb [key]) (\<lambda>n. op_return (n = 1))"

definition mget :: "'w redis \<Rightarrow> string list \<Rightarrow> ('w, string list) op" where
  "mget rdb keys =
     (if keys = [] then op_return []
      else op_bind (exec_args rdb (''MGET'' # keys)) (\<lambda>r.
        op_return (if isArray r then map reply_str (reply_elements r) else [])))"

subsection \<open>Scanning and removing by pattern\<close>

definition scan_args :: "command \<Rightarrow> cursor \<Rightarrow> string \<Rightarrow> nat \<Rightarrow> command" where
  "scan_args cmd c pattern lim =
     cmd @ [c] @ (if pattern \<noteq> [] then [''MATCH'', pattern] else [])
       @ (if 0 < lim then [''COUNT'', string_of_nat lim] else [])"

text \<open>The new cursor is part of the result.\<close>

definition scan_cmd :: "'w redis \<Rightarrow> command \<Rightarrow> cursor \<Rightarrow> string \<Rightarrow> nat \<Rightarrow> ('w, string list \<times> cursor) op" where
  "scan_cmd rdb cmd c pattern lim =
     op_bind (exec_args rdb (scan_args cmd c pattern lim)) (\<lambda>r.
       op_return
         (if isArray r then
            (case reply_elements r of
               cur # keys # _ \<Rightarrow> (filter (\<lambda>k. k \<noteq> []) (map reply_str (reply_elements keys)), reply_str cur)
             | _ \<Rightarrow> ([], cursor_reset c))
          else ([], cursor_reset c)))"

definition scan_keys :: "'w redis \<Rightarrow> cursor \<Rightarrow> string \<Rightarrow> nat \<Rightarrow> ('w, string list \<times> cursor) op" where
  "scan_keys rdb = scan_cmd rdb [''SCAN'']"

text \<open>
  \<open>removex\<close>: the loop scans, removes what it found, and starts over after a removal. The loop need not
  end, so it runs on fuel; \<open>None\<close> means that the fuel was not enough.
\<close>

fun removex_loop ::
  "'w redis \<Rightarrow> string \<Rightarrow> nat \<Rightarrow> nat \<Rightarrow> cursor \<Rightarrow> u64 \<Rightarrow> nat \<Rightarrow> 'w \<Rightarrow> (u64 result \<times> 'w) option" where
  "removex_loop rdb pattern batch 0 c removed loopGuard w = None"
| "removex_loop rdb pattern batch (Suc fuel) c removed loopGuard w =
     (case scan_keys rdb c pattern batch w of
        (Inl e, w) \<Rightarrow> Some (Inl e, w)
      | (Inr (keys, c), w) \<Rightarrow>
          if 0 < length keys then
            (case remove_keys rdb keys w of
               (Inl e, w) \<Rightarrow> Some (Inl e, w)
             | (Inr n, w) \<Rightarrow>
                 (let c = (if n \<noteq> 0 then cursor_reset c else c)
                  in if cursor_valid c \<or> n \<noteq> 0 then removex_loop rdb pattern batch fuel c (removed + n) 0 w
                     else Some (Inr (removed + n), w)))
          else if 1000 < loopGuard + 1 then
            Some (Inl (RuntimeError ''redis seems to have entered an endless loop''), w)
          else if cursor_valid c then removex_loop rdb pattern batch fuel c removed (loopGuard + 1) w
          else Some (Inr removed, w))"

definition removex :: "'w redis \<Rightarrow> string \<Rightarrow> nat \<Rightarrow> nat \<Rightarrow> 'w \<Rightarrow> (u64 result \<times> 'w) option" where
  "removex rdb pattern batch fuel w = removex_loop rdb pattern batch fuel cursor_invalid 0 0 w"


text \<open>
  What the code relies on of the server and the pool, with \<open>K\<close> the keys a state holds and \<open>sc w\<close> the answers
  of \<open>SCAN\<close> in a state: a pool returns the result of a function that succeeds; \<open>DEL\<close> with some keys deletes and
  counts; \<open>SCAN\<close> with a cursor of the iteration, that is \<open>0\<close> or what it answered before, answers with keys that match,
  changes nothing, and a full iteration, which takes at most \<open>len\<close> calls, answers with all of them. Nothing is
  asked of \<open>DEL\<close> without keys or of other cursors, which are errors of the client.
\<close>

fun scan_chain :: "(cursor \<Rightarrow> cursor \<times> string list) \<Rightarrow> nat \<Rightarrow> cursor \<Rightarrow> string list option" where
  "scan_chain sc 0 c = None"
| "scan_chain sc (Suc n) c =
     (case sc c of (c', ks) \<Rightarrow> if c' = cursor_invalid then Some ks else map_option (append ks) (scan_chain sc n c'))"

definition pool_returns :: "'w redis \<Rightarrow> bool" where
  "pool_returns rdb \<longleftrightarrow> (\<forall>n f w. is_ok (fst (f w)) \<longrightarrow> rd_with rdb n f w = f w)"

definition del_law :: "'w redis \<Rightarrow> ('w \<Rightarrow> string set) \<Rightarrow> bool" where
  "del_law rdb K \<longleftrightarrow>
     (\<forall>w ks. ks \<noteq> [] \<longrightarrow>
        (\<exists>w'. rd_run rdb (''DEL'' # ks) w = (Inr (IntegerR (int (card (set ks \<inter> K w)))), w') \<and> K w' = K w - set ks))"

definition scan_cursor :: "(cursor \<Rightarrow> cursor \<times> string list) \<Rightarrow> cursor \<Rightarrow> bool" where
  "scan_cursor sc c \<longleftrightarrow> (\<exists>n. c = ((\<lambda>c. fst (sc c)) ^^ n) cursor_invalid)"

lemma scan_cursor_start: "scan_cursor sc cursor_invalid"
  unfolding scan_cursor_def by (rule exI [of _ 0]) simp

lemma scan_cursor_next: "scan_cursor sc c \<Longrightarrow> scan_cursor sc (fst (sc c))"
  unfolding scan_cursor_def by (elim exE) (rule_tac x = "Suc n" in exI, simp)

definition scan_law ::
  "'w redis \<Rightarrow> ('w \<Rightarrow> string set) \<Rightarrow> (string \<Rightarrow> bool) \<Rightarrow> ('w \<Rightarrow> cursor \<Rightarrow> cursor \<times> string list) \<Rightarrow> string \<Rightarrow> nat \<Rightarrow> nat \<Rightarrow> bool" where
  "scan_law rdb K mat sc pattern batch len \<longleftrightarrow>
     (\<forall>w c. scan_cursor (sc w) c \<longrightarrow> rd_run rdb (scan_args [''SCAN''] c pattern batch) w
              = (Inr (ArrayR [StringR (fst (sc w c)), ArrayR (map StringR (snd (sc w c)))]), w)
            \<and> set (snd (sc w c)) \<subseteq> {k \<in> K w. mat k})
     \<and> (\<forall>w. \<exists>ks. scan_chain (sc w) len cursor_invalid = Some ks \<and> {k \<in> K w. mat k} \<subseteq> set ks)"

definition matching :: "('w \<Rightarrow> string set) \<Rightarrow> (string \<Rightarrow> bool) \<Rightarrow> 'w \<Rightarrow> string set" where
  "matching K mat w = {k \<in> K w. mat k \<and> k \<noteq> []}"

lemma exec_args_ok:
  assumes "pool_returns rdb" and "rd_run rdb cmd w = (Inr r, w')" and "\<not> isError r"
  shows "exec_args rdb cmd w = (Inr r, w')"
  using assms unfolding pool_returns_def exec_args_def by (simp add: op_bind_def op_return_def)

lemma scan_keys_ok:
  assumes "pool_returns rdb" and "scan_law rdb K mat sc pattern batch len" and "scan_cursor (sc w) c"
  shows "scan_keys rdb c pattern batch w = (Inr (filter (\<lambda>k. k \<noteq> []) (snd (sc w c)), fst (sc w c)), w)"
proof -
  have "exec_args rdb (scan_args [''SCAN''] c pattern batch) w
      = (Inr (ArrayR [StringR (fst (sc w c)), ArrayR (map StringR (snd (sc w c)))]), w)"
    using assms(2,3) by (intro exec_args_ok [OF assms(1)]) (simp_all add: scan_law_def isError_def)
  then show ?thesis
    by (simp add: scan_keys_def scan_cmd_def op_bind_def op_return_def isArray_def reply_elements_def reply_str_def comp_def)
qed

lemma remove_keys_ok:
  assumes "pool_returns rdb" and "del_law rdb K" and "ks \<noteq> []"
  obtains w' where "remove_keys rdb ks w = (Inr (word_of_nat (card (set ks \<inter> K w))), w')" and "K w' = K w - set ks"
proof -
  obtain w' where run: "rd_run rdb (''DEL'' # ks) w = (Inr (IntegerR (int (card (set ks \<inter> K w)))), w')" and K: "K w' = K w - set ks"
    using assms(2) [unfolded del_law_def, rule_format, OF assms(3), of w] by (elim exE conjE)
  have "exec_args rdb (''DEL'' # ks) w = (Inr (IntegerR (int (card (set ks \<inter> K w)))), w')"
    by (rule exec_args_ok [OF assms(1) run]) (simp add: isError_def)
  then have "remove_keys rdb ks w = (Inr (word_of_nat (card (set ks \<inter> K w))), w')"
    using assms(3) by (simp add: remove_keys_def exec_size_def op_bind_def op_return_def redis_getInt_def isString_def
        isInteger_def reply_integer_def as_size_def)
  then show ?thesis using K that by blast
qed

lemma word_of_nat_nonzero: "0 < n \<Longrightarrow> n < 2 ^ 64 \<Longrightarrow> (word_of_nat n :: u64) \<noteq> 0"
  using nat_dvd_not_less [of n "2 ^ 64"] by (simp add: word_of_nat_eq_0_iff)

lemma removex_round:
  assumes laws: "pool_returns rdb" "del_law rdb K" "scan_law rdb K mat sc pattern batch len"
    and fin: "finite (K w)" and small: "card (K w) < 2 ^ 64"
    and len: "len \<le> 1000"
    and rest: "\<And>w1 f r. card (K w1) < card (K w) \<Longrightarrow> finite (K w1) \<Longrightarrow> (card (K w1) + 1) * len \<le> f \<Longrightarrow>
      \<exists>w'. removex_loop rdb pattern batch f cursor_invalid r 0 w1 = Some (Inr (r + word_of_nat (card (matching K mat w1))), w')
        \<and> K w' = K w1 - matching K mat w1"
    and chain: "scan_chain (sc w) n c = Some ks" "matching K mat w \<subseteq> set ks" and lg: "lg + n \<le> 1000"
    and fuel: "n + card (K w) * len \<le> fuel" and cur: "scan_cursor (sc w) c"
  shows "\<exists>w'. removex_loop rdb pattern batch fuel c r lg w = Some (Inr (r + word_of_nat (card (matching K mat w))), w')
      \<and> K w' = K w - matching K mat w"
  using chain lg fuel cur
proof (induction n arbitrary: c ks lg fuel)
  case (Suc n)
  obtain f where f: "fuel = Suc f" using Suc.prems(4) by (cases fuel) auto
  obtain c' xs where sc: "sc w c = (c', xs)" by (cases "sc w c")
  let ?keys = "filter (\<lambda>k. k \<noteq> []) xs"
  have cur': "scan_cursor (sc w) c'" using scan_cursor_next [OF Suc.prems(5)] sc by simp
  have scan: "scan_keys rdb c pattern batch w = (Inr (?keys, c'), w)" using scan_keys_ok [OF laws(1,3) Suc.prems(5)] sc by simp
  have "set xs \<subseteq> {k \<in> K w. mat k}" using laws(3) sc Suc.prems(5) unfolding scan_law_def by (metis snd_conv)
  then have sub: "set ?keys \<subseteq> matching K mat w" by (auto simp: matching_def)
  show ?case
  proof (cases "?keys = []")
    case True
    then have none: "\<forall>k \<in> set xs. k = []" by (simp add: filter_empty_conv)
    show ?thesis
    proof (cases "c' = cursor_invalid")
      case True
      then have "matching K mat w = {}"
        using Suc.prems(1,2) sc none by (auto simp: matching_def)
      then show ?thesis using f scan \<open>?keys = []\<close> True Suc.prems(3) by (simp add: cursor_valid_def)
    next
      case False
      then obtain ys where ys: "scan_chain (sc w) n c' = Some ys" "ks = xs @ ys" using Suc.prems(1) sc by auto
      have "matching K mat w \<subseteq> set ys" using Suc.prems(2) ys(2) none by (auto simp: matching_def)
      moreover have "Suc lg + n \<le> 1000" "n + card (K w) * len \<le> f" using Suc.prems(3,4) f by simp_all
      ultimately obtain w' where "removex_loop rdb pattern batch f c' r (Suc lg) w
            = Some (Inr (r + word_of_nat (card (matching K mat w))), w')" and "K w' = K w - matching K mat w"
        using Suc.IH [OF ys(1) _ _ _ cur'] by blast
      then show ?thesis using f scan \<open>?keys = []\<close> False Suc.prems(3) by (simp add: cursor_valid_def)
    qed
  next
    case False
    obtain w1 where del: "remove_keys rdb ?keys w = (Inr (word_of_nat (card (set ?keys \<inter> K w))), w1)" and K1: "K w1 = K w - set ?keys"
      by (rule remove_keys_ok [OF laws(1,2) False])
    have inter: "set ?keys \<inter> K w = set ?keys" using sub by (auto simp: matching_def)
    have fm: "finite (matching K mat w)" using fin by (simp add: matching_def)
    have "set ?keys \<noteq> {}" using False by (simp only: set_empty) simp
    then have pos: "0 < card (set ?keys)" by (simp only: card_gt_0_iff) simp
    have "card (set ?keys) \<le> card (K w)" using sub fin by (intro card_mono) (auto simp: matching_def)
    then have nz: "(word_of_nat (card (set ?keys)) :: u64) \<noteq> 0" using pos small by (intro word_of_nat_nonzero) simp_all
    have less: "card (K w1) < card (K w)"
      unfolding K1 using inter \<open>set ?keys \<noteq> {}\<close> fin by (intro psubset_card_mono) auto
    have m1: "matching K mat w1 = matching K mat w - set ?keys" by (auto simp: matching_def K1)
    have "(card (K w1) + 1) * len \<le> card (K w) * len" using less by (intro mult_le_mono1) simp
    then have "(card (K w1) + 1) * len \<le> f" using Suc.prems(4) f by simp
    then obtain w' where loop: "removex_loop rdb pattern batch f cursor_invalid (r + word_of_nat (card (set ?keys))) 0 w1
          = Some (Inr (r + word_of_nat (card (set ?keys)) + word_of_nat (card (matching K mat w1))), w')"
      and K': "K w' = K w1 - matching K mat w1"
      using rest [OF less, of f "r + word_of_nat (card (set ?keys))"] fin K1 by auto
    have "card (matching K mat w) = card (set ?keys) + card (matching K mat w1)"
      unfolding m1 using card_Diff_subset [OF _ sub] card_mono [OF fm sub] by simp
    then have "word_of_nat (card (matching K mat w)) = (word_of_nat (card (set ?keys)) + word_of_nat (card (matching K mat w1)) :: u64)"
      by simp
    moreover have "K w' = K w - matching K mat w" using K' K1 m1 sub by auto
    moreover have "removex_loop rdb pattern batch fuel c r lg w
        = removex_loop rdb pattern batch f cursor_invalid (r + word_of_nat (card (set ?keys))) 0 w1"
      using f scan False del nz inter by (simp add: Let_def cursor_reset_def)
    ultimately show ?thesis using loop by (simp add: add.assoc)
  qed
qed simp


lemma removex_complete:
  assumes laws: "pool_returns rdb" "del_law rdb K" "scan_law rdb K mat sc pattern batch len" and len: "len \<le> 1000"
  shows "finite (K w) \<Longrightarrow> card (K w) < 2 ^ 64 \<Longrightarrow> (card (K w) + 1) * len \<le> fuel \<Longrightarrow>
    \<exists>w'. removex_loop rdb pattern batch fuel cursor_invalid r 0 w = Some (Inr (r + word_of_nat (card (matching K mat w))), w')
      \<and> K w' = K w - matching K mat w"
proof (induction "card (K w)" arbitrary: w fuel r rule: less_induct)
  case less
  obtain ks where ks: "scan_chain (sc w) len cursor_invalid = Some ks" "{k \<in> K w. mat k} \<subseteq> set ks"
    using laws(3) unfolding scan_law_def by blast
  show ?case
  proof (rule removex_round [OF laws less.prems(1,2) len _ ks(1)])
    show "scan_cursor (sc w) cursor_invalid" by (rule scan_cursor_start)
    show "matching K mat w \<subseteq> set ks" using ks(2) by (auto simp: matching_def)
    show "0 + len \<le> 1000" using len by simp
    show "len + card (K w) * len \<le> fuel" using less.prems(3) by (simp add: add_mult_distrib)
    fix w1 f r
    assume "card (K w1) < card (K w)" "finite (K w1)" "(card (K w1) + 1) * len \<le> f"
    then show "\<exists>w'. removex_loop rdb pattern batch f cursor_invalid r 0 w1 = Some (Inr (r + word_of_nat (card (matching K mat w1))), w')
        \<and> K w' = K w1 - matching K mat w1"
      using less.hyps [of w1 f r] less.prems(2) by simp
  qed
qed

text \<open>C26: \<open>removex\<close> ends and leaves no key behind. On a server with fewer than \<open>2 ^ 64\<close> keys, a full scan of which takes
  at most 1000 calls, while no other client changes the keys, it returns after at most (number of keys + 1) full scans
  with the number of keys that matched, and exactly those are gone, all but an empty key, which the scan
  drops. With longer scans the guard of the loop may end it: after more than 1000 answers without a key it throws.\<close>

theorem removex_removes_all:
  assumes "pool_returns rdb" and "del_law rdb K" and "scan_law rdb K mat sc pattern batch len" and "len \<le> 1000"
    and "finite (K w)" and "card (K w) < 2 ^ 64" and "(card (K w) + 1) * len \<le> fuel"
  shows "\<exists>w'. removex rdb pattern batch fuel w = Some (Inr (word_of_nat (card (matching K mat w))), w')
    \<and> K w' = K w - {k \<in> K w. mat k \<and> k \<noteq> []}"
  using removex_complete [OF assms(1-4), of w fuel 0] assms(5-7) by (simp add: removex_def matching_def)

definition demo_redis :: "string list redis" where
  "demo_redis =
     \<lparr>rd_run = (\<lambda>cmd w. case cmd of
         [] \<Rightarrow> (Inr (ErrorR ''ERR''), w)
       | c # ks \<Rightarrow>
           if c = ''DEL'' then (Inr (IntegerR (int (card (set ks \<inter> set w)))), filter (\<lambda>k. k \<notin> set ks) w)
           else (Inr (ArrayR [StringR ''0'', ArrayR (map StringR w)]), w)),
      rd_append = (\<lambda>cmd w. (Inr (), w)), rd_get_replies = (\<lambda>n w. (Inr [], w)),
      rd_with = (\<lambda>n f. f), rd_with_set = (\<lambda>n f. f), rd_retries = kMAX_RETRIES\<rparr>"

theorem removex_removes_all_witness:
  "\<exists>w'. removex demo_redis [] 0 9 [''a'', ''b''] = Some (Inr 2, w') \<and> set w' = {}"
proof -
  have "\<exists>w'. removex demo_redis [] 0 9 [''a'', ''b''] = Some (Inr (word_of_nat (card (matching set (\<lambda>_. True) [''a'', ''b'']))), w')
      \<and> set w' = set [''a'', ''b''] - {k \<in> set [''a'', ''b'']. True \<and> k \<noteq> []}"
  proof (rule removex_removes_all)
    show "pool_returns demo_redis" by (simp add: pool_returns_def demo_redis_def)
    show "del_law demo_redis set" by (auto simp: del_law_def demo_redis_def)
    show "scan_law demo_redis set (\<lambda>_. True) (\<lambda>w c. (cursor_invalid, w)) [] 0 1"
      by (simp add: scan_law_def demo_redis_def scan_args_def cursor_invalid_def)
  qed simp_all
  moreover have "matching set (\<lambda>_. True) [''a'', ''b''] = {''a'', ''b''}" by (auto simp: matching_def)
  ultimately show ?thesis by auto
qed

subsection \<open>Transactions\<close>

text \<open>A connection that records the commands it runs and answers each by \<open>rep\<close>.\<close>

definition recording :: "(command list \<Rightarrow> reply) \<Rightarrow> (command list) redis" where
  "recording rep =
     \<lparr>rd_run = (\<lambda>cmd w. (Inr (rep (w @ [cmd])), w @ [cmd])),
      rd_append = (\<lambda>cmd w. (Inr (), w @ [cmd])), rd_get_replies = (\<lambda>n w. (Inr (map (\<lambda>k. rep (take (Suc k) (drop (length w - n) w))) [0..<n]), w)),
      rd_with = (\<lambda>n f. f), rd_with_set = (\<lambda>n f. f), rd_retries = kMAX_RETRIES\<rparr>"

lemma run_transaction_recording:
  "\<exists>ran closing r. run_transaction (recording rep) tr w = (Inr r, w @ ran @ [[closing]]) \<and> take (length ran) tr = ran
    \<and> (closing = ''EXEC'' \<and> ran = tr \<and> r = rep (w @ tr @ [[''EXEC'']]) \<and> {i. i < length tr \<and> isError (rep (w @ take (Suc i) tr))} = {}
       \<or> closing = ''DISCARD'' \<and> ran \<noteq> [] \<and> r = rep (w @ ran) \<and> isError r
         \<and> {i. Suc i < length ran \<and> isError (rep (w @ take (Suc i) tr))} = {})"
proof (induction tr arbitrary: w)
  case Nil
  show ?case by (simp add: recording_def)
next
  case (Cons cmd tr)
  show ?case
  proof (cases "isError (rep (w @ [cmd]))")
    case True
    have "run_transaction (recording rep) (cmd # tr) w = (Inr (rep (w @ [cmd])), w @ [cmd] @ [[''DISCARD'']])"
      using True by (simp add: recording_def op_bind_def op_return_def)
    then show ?thesis using True
      by (intro exI [of _ "[cmd]"] exI [of _ "''DISCARD''"] exI [of _ "rep (w @ [cmd])"]) simp
  next
    case False
    have run: "run_transaction (recording rep) (cmd # tr) w = run_transaction (recording rep) tr (w @ [cmd])"
      using False by (simp add: recording_def op_bind_def)
    have split: "isError (rep (w @ take (Suc i) (cmd # tr))) \<longleftrightarrow> (\<exists>j. i = Suc j \<and> isError (rep ((w @ [cmd]) @ take (Suc j) tr)))" for i
      using False by (cases i) simp_all
    obtain ran closing r where ih: "run_transaction (recording rep) tr (w @ [cmd]) = (Inr r, (w @ [cmd]) @ ran @ [[closing]])"
      "take (length ran) tr = ran"
      "closing = ''EXEC'' \<and> ran = tr \<and> r = rep ((w @ [cmd]) @ tr @ [[''EXEC'']]) \<and> {i. i < length tr \<and> isError (rep ((w @ [cmd]) @ take (Suc i) tr))} = {}
       \<or> closing = ''DISCARD'' \<and> ran \<noteq> [] \<and> r = rep ((w @ [cmd]) @ ran) \<and> isError r
         \<and> {i. Suc i < length ran \<and> isError (rep ((w @ [cmd]) @ take (Suc i) tr))} = {}"
      using Cons.IH [of "w @ [cmd]"] by blast
    show ?thesis
      unfolding run split
      by (intro exI [of _ "cmd # ran"] exI [of _ closing] exI [of _ r]) (use ih in auto)
  qed
qed

text \<open>C32: a transaction is always closed: on a connection that answers, \<open>exec\<close> sends \<open>MULTI\<close>, the commands
  in order and \<open>EXEC\<close>, whose reply it returns; or, when a command is refused, it stops at the first one
  refused, sends \<open>DISCARD\<close> and returns that error.\<close>

theorem transaction_closed:
  "\<exists>ran closing r. exec_transaction (recording rep) tr w = (Inr r, w @ [[''MULTI'']] @ ran @ [[closing]]) \<and> take (length ran) tr = ran
    \<and> (closing = ''EXEC'' \<and> ran = tr \<and> r = rep (w @ [[''MULTI'']] @ tr @ [[''EXEC'']])
         \<and> {i. i < length tr \<and> isError (rep (w @ [[''MULTI'']] @ take (Suc i) tr))} = {}
       \<or> closing = ''DISCARD'' \<and> ran \<noteq> [] \<and> r = rep (w @ [[''MULTI'']] @ ran) \<and> isError r
         \<and> {i. Suc i < length ran \<and> isError (rep (w @ [[''MULTI'']] @ take (Suc i) tr))} = {})"
proof -
  have "exec_transaction (recording rep) tr w = run_transaction (recording rep) tr (w @ [[''MULTI'']])"
    by (simp add: exec_transaction_def op_bind_def recording_def)
  then show ?thesis using run_transaction_recording [of rep tr "w @ [[''MULTI'']]"] by simp
qed


subsection \<open>Pool, pipeline, script\<close>

fun split_colon :: "string \<Rightarrow> string list" where
  "split_colon [] = [[]]"
| "split_colon (c # s) =
     (if c = CHR '':'' then [] # split_colon s
      else (case split_colon s of p # ps \<Rightarrow> (c # p) # ps | [] \<Rightarrow> [[c]]))"

text \<open>The arguments of \<open>simple_pool::create\<close>; the host with its default is computed and not used.\<close>

definition create_simple_pool :: "string \<Rightarrow> string \<times> u16" where
  "create_simple_pool addr =
     (let parts = split_colon addr;
          host = (if parts \<noteq> [] \<and> hd parts \<noteq> [] then hd parts else ''localhost'');
          port = (if 1 < length parts then word_of_int (ato_int (c_str (parts ! 1))) else 0 :: u16);
          port = (if port = 0 then 6379 else port)
      in (hd parts, port))"

definition pipe_append :: "command \<Rightarrow> command list \<Rightarrow> command list" where
  "pipe_append cmd tr = tr @ [cmd]"

fun append_all :: "'w redis \<Rightarrow> command list \<Rightarrow> ('w, unit) op" where
  "append_all rdb [] = op_return ()"
| "append_all rdb (cmd # tr) = op_bind (rd_append rdb cmd) (\<lambda>_. append_all rdb tr)"

definition pipe_exec :: "'w redis \<Rightarrow> command list \<Rightarrow> ('w, reply list) op" where
  "pipe_exec rdb tr =
     rd_with_set rdb (rd_retries rdb) (op_bind (append_all rdb tr) (\<lambda>_. rd_get_replies rdb (length tr)))"

definition script_build :: "string list \<Rightarrow> string" where
  "script_build script = concat (map (\<lambda>line. line @ [CHR 10]) script)"

definition script_load :: "'w redis \<Rightarrow> string \<Rightarrow> ('w, string) op" where
  "script_load rdb script = op_bind (exec_args rdb [''SCRIPT'', ''LOAD'', script]) (\<lambda>r. op_return (redis_getString r []))"

text \<open>\<open>compile\<close> stores the digest, which is the state of a script.\<close>

definition script_compile :: "'w redis \<Rightarrow> string \<Rightarrow> string \<Rightarrow> 'w \<Rightarrow> string result \<times> string \<times> 'w" where
  "script_compile rdb script sha1 w =
     (case script_load rdb script w of (Inl e, w) \<Rightarrow> (Inl e, sha1, w) | (Inr s, w) \<Rightarrow> (Inr s, s, w))"

definition script_exists :: "'w redis \<Rightarrow> string \<Rightarrow> 'w \<Rightarrow> bool \<times> 'w" where
  "script_exists rdb sha1 w =
     (if sha1 = [] then (False, w)
      else (case exec_args rdb [''SCRIPT'', ''EXISTS'', sha1] w of
              (Inl _, w) \<Rightarrow> (False, w)
            | (Inr r, w) \<Rightarrow> (redis_getInt as_int r 0 = 1, w)))"

definition script_evalsha :: "string \<Rightarrow> u32 \<Rightarrow> string list \<Rightarrow> command" where
  "script_evalsha sha1 keys args = [''EVALSHA'', sha1, string_of_nat (unat keys)] @ args"

definition script_eval :: "string \<Rightarrow> u32 \<Rightarrow> string list \<Rightarrow> command" where
  "script_eval script keys args = [''EVAL'', script, string_of_nat (unat keys)] @ args"

definition script_run :: "'w redis \<Rightarrow> string \<Rightarrow> u32 \<Rightarrow> string list \<Rightarrow> ('w, reply) op" where
  "script_run rdb sha1 keys args = exec_args rdb (script_evalsha sha1 keys args)"

definition script_run_text :: "'w redis \<Rightarrow> string \<Rightarrow> u32 \<Rightarrow> string list \<Rightarrow> ('w, reply) op" where
  "script_run_text rdb script keys args = exec_args rdb (script_eval script keys args)"

subsection \<open>Entities: hash, list, set, sorted set\<close>

text \<open>Sets of the code are given as the lists of their elements in the order of the set.\<close>

definition entity_make :: "string \<Rightarrow> string \<Rightarrow> command" where
  "entity_make cmd key = [cmd, key]"

definition entity_size :: "'w redis \<Rightarrow> string \<Rightarrow> string \<Rightarrow> ('w, u64) op" where
  "entity_size rdb cmd key = exec_size rdb (entity_make cmd key)"

definition entity_erase :: "'w redis \<Rightarrow> string \<Rightarrow> string \<Rightarrow> string list \<Rightarrow> ('w, u64) op" where
  "entity_erase rdb cmd key fs =
     (if fs = [] then op_return 0 else exec_size rdb (entity_make cmd key @ fs))"

definition entity_scan :: "'w redis \<Rightarrow> string \<Rightarrow> string \<Rightarrow> cursor \<Rightarrow> string \<Rightarrow> nat \<Rightarrow> ('w, string list \<times> cursor) op" where
  "entity_scan rdb cmd key = scan_cmd rdb (entity_make cmd key)"

definition hash_getValue :: "'w redis \<Rightarrow> string \<Rightarrow> string \<Rightarrow> ('w, string) op" where
  "hash_getValue rdb key field =
     op_bind (exec_args rdb (entity_make ''HGET'' key @ [field])) (\<lambda>r. op_return (redis_getString r []))"

definition hash_set :: "'w redis \<Rightarrow> string \<Rightarrow> (string \<times> string) list \<Rightarrow> ('w, u64) op" where
  "hash_set rdb key members =
     (if members = [] then op_return 0
      else exec_size rdb (entity_make ''HSET'' key @ concat (map (\<lambda>(f, v). [f, v]) members)))"

definition hash_setValue :: "'w redis \<Rightarrow> string \<Rightarrow> string \<Rightarrow> string \<Rightarrow> ('w, u64) op" where
  "hash_setValue rdb key field v = hash_set rdb key [(field, v)]"

definition list_first :: "'w redis \<Rightarrow> string \<Rightarrow> string \<Rightarrow> ('w, string) op" where
  "list_first rdb key defValue =
     op_bind (exec_args rdb (entity_make ''LPOP'' key)) (\<lambda>r. op_return (redis_getString r defValue))"

definition list_last :: "'w redis \<Rightarrow> string \<Rightarrow> string \<Rightarrow> ('w, string) op" where
  "list_last rdb key defValue =
     op_bind (exec_args rdb (entity_make ''RPOP'' key)) (\<lambda>r. op_return (redis_getString r defValue))"

definition list_push :: "'w redis \<Rightarrow> string \<Rightarrow> string \<Rightarrow> string list \<Rightarrow> ('w, u64) op" where
  "list_push rdb cmd key vs = (if vs = [] then op_return 0 else exec_size rdb (entity_make cmd key @ vs))"

definition list_pop :: "'w redis \<Rightarrow> string \<Rightarrow> string \<Rightarrow> ('w, string) op" where
  "list_pop rdb key dst =
     op_bind (exec_args rdb (entity_make ''RPOPLPUSH'' key @ [dst])) (\<lambda>r. op_return (redis_getString r []))"

definition list_erase :: "'w redis \<Rightarrow> string \<Rightarrow> string \<Rightarrow> int \<Rightarrow> ('w, u64) op" where
  "list_erase rdb key field count = exec_size rdb (entity_make ''LREM'' key @ [string_of_int count, field])"

definition set_add :: "'w redis \<Rightarrow> string \<Rightarrow> string list \<Rightarrow> ('w, u64) op" where
  "set_add rdb key fs = (if fs = [] then op_return 0 else exec_size rdb (entity_make ''SADD'' key @ fs))"

definition string_elements :: "reply \<Rightarrow> string list" where
  "string_elements r =
     (if isArray r then map reply_str (filter (\<lambda>e. isString e \<and> reply_str e \<noteq> []) (reply_elements r)) else [])"

definition set_pop :: "'w redis \<Rightarrow> string \<Rightarrow> nat \<Rightarrow> ('w, string set) op" where
  "set_pop rdb key count =
     (if count \<noteq> 0 then
        op_bind (exec_args rdb (entity_make ''SPOP'' key @ [string_of_nat count])) (\<lambda>r. op_return (set (string_elements r)))
      else op_return {})"

definition zset_add :: "'w redis \<Rightarrow> string \<Rightarrow> (u64 \<times> string) list \<Rightarrow> string list \<Rightarrow> ('w, u64) op" where
  "zset_add rdb key members options =
     (if members = [] then op_return 0
      else exec_size rdb (entity_make ''ZADD'' key @ options @ concat (map (\<lambda>(s, f). [string_of_nat (unat s), f]) members)))"

definition zset_add_fields :: "'w redis \<Rightarrow> string \<Rightarrow> u64 \<Rightarrow> string list \<Rightarrow> string list \<Rightarrow> ('w, u64) op" where
  "zset_add_fields rdb key score fs options =
     (if fs = [] then op_return 0
      else exec_size rdb (entity_make ''ZADD'' key @ options @ concat (map (\<lambda>f. [string_of_nat (unat score), f]) fs)))"

definition zset_range :: "'w redis \<Rightarrow> string \<Rightarrow> string \<Rightarrow> nat \<Rightarrow> nat \<Rightarrow> string \<Rightarrow> ('w, string list) op" where
  "zset_range rdb key zmax lim off zmin =
     op_bind (exec_args rdb (entity_make ''ZRANGEBYSCORE'' key @ [zmin, zmax]
         @ (if lim \<noteq> 0 \<or> off \<noteq> 0 then [''LIMIT'', string_of_nat off, string_of_nat lim] else [])))
       (\<lambda>r. op_return (string_elements r))"

definition zset_score :: "u64 \<Rightarrow> bool \<Rightarrow> string" where
  "zset_score v exclusive = (let s = string_of_nat (unat v) in if exclusive then CHR ''('' # s else s)"

definition zset_erase_range :: "'w redis \<Rightarrow> string \<Rightarrow> string \<Rightarrow> string \<Rightarrow> ('w, u64) op" where
  "zset_erase_range rdb key zmin zmax = exec_size rdb (entity_make ''ZREMRANGEBYSCORE'' key @ [zmin, zmax])"

definition zset_erase_scores :: "'w redis \<Rightarrow> string \<Rightarrow> u64 \<Rightarrow> bool \<Rightarrow> u64 \<Rightarrow> bool \<Rightarrow> ('w, u64) op" where
  "zset_erase_scores rdb key zmin minex zmax maxex =
     zset_erase_range rdb key (zset_score zmin minex) (zset_score zmax maxex)"

definition zset_trimLeft :: "'w redis \<Rightarrow> string \<Rightarrow> u64 \<Rightarrow> bool \<Rightarrow> ('w, u64) op" where
  "zset_trimLeft rdb key zmax exclusive = zset_erase_range rdb key ''-inf'' (zset_score zmax exclusive)"

definition zset_trimRight :: "'w redis \<Rightarrow> string \<Rightarrow> u64 \<Rightarrow> bool \<Rightarrow> ('w, u64) op" where
  "zset_trimRight rdb key zmin exclusive = zset_erase_range rdb key (zset_score zmin exclusive) ''+inf''"


text \<open>The operations of an entity are those of \<open>Redis\<close> on its key; a \<open>Key\<close> adds reading and writing it.\<close>

definition entity_exists :: "'w redis \<Rightarrow> string \<Rightarrow> ('w, bool) op" where
  "entity_exists rdb key = redis_exists rdb key"

definition entity_expire :: "'w redis \<Rightarrow> string \<Rightarrow> int \<Rightarrow> ('w, bool) op" where
  "entity_expire rdb key v = redis_expire rdb key v"

definition entity_remove :: "'w redis \<Rightarrow> string \<Rightarrow> ('w, bool) op" where
  "entity_remove rdb key = remove_key rdb key"

definition entity_ttl :: "'w redis \<Rightarrow> string \<Rightarrow> ('w, int) op" where
  "entity_ttl rdb key = redis_ttl rdb key"

definition key_getString :: "'w redis \<Rightarrow> string \<Rightarrow> string \<Rightarrow> ('w, string) op" where
  "key_getString rdb key defValue = redis_get_string rdb key defValue"

definition key_getInt :: "(int \<Rightarrow> 'i) \<Rightarrow> 'w redis \<Rightarrow> string \<Rightarrow> 'i \<Rightarrow> ('w, 'i) op" where
  "key_getInt cast rdb key defValue = redis_get_int cast rdb key defValue"

definition key_set :: "'w redis \<Rightarrow> string \<Rightarrow> string \<Rightarrow> int option \<Rightarrow> ('w, bool) op" where
  "key_set rdb key v expire = (case expire of None \<Rightarrow> redis_set rdb key v | Some x \<Rightarrow> redis_setex rdb key v x)"

definition key_setnx :: "'w redis \<Rightarrow> string \<Rightarrow> string \<Rightarrow> int option \<Rightarrow> ('w, bool) op" where
  "key_setnx rdb key v expire = (case expire of None \<Rightarrow> redis_setnx rdb key v | Some x \<Rightarrow> redis_setnx_ex rdb key v x)"

text \<open>The virtual functions of the containers, by the class of the object.\<close>

datatype container = HashC | ListC | SetC | SortedSetC

definition container_size :: "'w redis \<Rightarrow> container \<Rightarrow> string \<Rightarrow> ('w, u64) op" where
  "container_size rdb c key =
     entity_size rdb (case c of HashC \<Rightarrow> ''HLEN'' | ListC \<Rightarrow> ''LLEN'' | SetC \<Rightarrow> ''SCARD'' | SortedSetC \<Rightarrow> ''ZCARD'') key"

definition baseset_erase :: "'w redis \<Rightarrow> container \<Rightarrow> string \<Rightarrow> string list \<Rightarrow> ('w, u64) op" where
  "baseset_erase rdb c key fs =
     entity_erase rdb (case c of HashC \<Rightarrow> ''HDEL'' | SetC \<Rightarrow> ''SREM'' | SortedSetC \<Rightarrow> ''ZREM'' | ListC \<Rightarrow> []) key fs"

definition baseset_scan :: "'w redis \<Rightarrow> container \<Rightarrow> string \<Rightarrow> cursor \<Rightarrow> string \<Rightarrow> nat \<Rightarrow> ('w, string list \<times> cursor) op" where
  "baseset_scan rdb c key =
     entity_scan rdb (case c of HashC \<Rightarrow> ''HSCAN'' | SetC \<Rightarrow> ''SSCAN'' | SortedSetC \<Rightarrow> ''ZSCAN'' | ListC \<Rightarrow> []) key"

text \<open>\<open>Container::erase(field)\<close>: of the sets it erases the set of one field, of a list every equal element.\<close>

definition container_erase :: "'w redis \<Rightarrow> container \<Rightarrow> string \<Rightarrow> string \<Rightarrow> ('w, u64) op" where
  "container_erase rdb c key field =
     (if c = ListC then list_erase rdb key field 0 else baseset_erase rdb c key [field])"

lemma setnx_expiring: "key_setnx (recording rep) key v (Some x) [] =
  (if isError (rep [[''SET'', key, v, ''EX'', string_of_int x, ''NX'']]) then
     (Inl (RuntimeError (''redis error on command '' @ [CHR 39] @ ''SET'' @ [CHR 39] @ '' ''
        @ reply_str (rep [[''SET'', key, v, ''EX'', string_of_int x, ''NX'']]))), [[''SET'', key, v, ''EX'', string_of_int x, ''NX'']])
   else (Inr True, [[''SET'', key, v, ''EX'', string_of_int x, ''NX'']]))"
  by (simp add: key_setnx_def redis_setnx_ex_def exec_args_def recording_def op_bind_def op_return_def op_throw_def)

text \<open>\<open>setnx\<close> does not tell whether the key was set: \<open>exec\<close> throws for an error reply, so the test of the reply
  for an error always gives true, for the integer 0 of a key that was there and for a null reply as well. The pool
  gives back what the function gave.\<close>

definition pool_gives_back :: "'w redis \<Rightarrow> bool" where
  "pool_gives_back rdb \<longleftrightarrow> (\<forall>n f w x w'. rd_with rdb n f w = (Inr x, w') \<longrightarrow> (\<exists>w0. f w0 = (Inr x, w')))"

lemma exec_args_no_error:
  assumes "pool_gives_back rdb" and "exec_args rdb cmd w = (Inr r, w')"
  shows "\<not> isError r"
proof -
  obtain w0 where "op_bind (rd_run rdb cmd) (\<lambda>r.
       if isError r then
         op_throw (RuntimeError (''redis error on command '' @ [CHR 39]
           @ (case cmd of [] \<Rightarrow> ''<NO COMMAND>'' | c # _ \<Rightarrow> c) @ [CHR 39] @ '' '' @ reply_str r))
       else op_return r) w0 = (Inr r, w')"
    using assms unfolding exec_args_def pool_gives_back_def by blast
  then show ?thesis by (auto simp: op_bind_def op_throw_def op_return_def split: prod.splits sum.splits if_splits)
qed

lemma setnx_always_true:
  assumes "pool_gives_back rdb" and "key_setnx rdb key v expire w = (Inr b, w')"
  shows "b"
  using assms exec_args_no_error [OF assms(1)]
  by (auto simp: key_setnx_def redis_setnx_def redis_setnx_ex_def op_bind_def op_return_def split: option.splits prod.splits sum.splits)

lemma recording_gives_back: "pool_gives_back (recording rep)"
  by (auto simp: pool_gives_back_def recording_def)

text \<open>An address without a host gives the pool an empty host, not the default one.\<close>

lemma pool_host_default_unused:
  "create_simple_pool '':7000'' = ([], 7000)"
  by (simp add: create_simple_pool_def ato_int_def c_str_def is_space_def is_digit_def digits_val_def digit_val_def Let_def)

end
