(* ===== verification/Redis_Script.thy ===== *)
theory Redis_Script
  imports Redis
begin

section \<open>Scripts and pipelines as objects (redis/script, pipeline)\<close>

text \<open>
  A \<open>Script\<close> keeps the digest under which the server knows its text and runs it by that; a \<open>Pipeline\<close> keeps the commands
  of one batch. Both are a \<open>Redis\<close> with a member. What the server does with scripts is not under \<open>src\<close>: the laws
  that Redis documents for \<open>SCRIPT LOAD\<close> and \<open>EVALSHA\<close> are the hypothesis \<open>script_server\<close>.
\<close>

subsection \<open>Objects\<close>

definition redis_new :: "'w redis \<Rightarrow> nat \<Rightarrow> 'w redis" where
  "redis_new pool retries = pool\<lparr>rd_retries := retries\<rparr>"

record 'w script =
  sc_rdb :: "'w redis"
  sc_sha1 :: string

definition script_new :: "'w redis \<Rightarrow> string \<Rightarrow> 'w script" where
  "script_new rdb sha1 = \<lparr>sc_rdb = rdb, sc_sha1 = sha1\<rparr>"

definition script_new_pool :: "'w redis \<Rightarrow> string \<Rightarrow> nat \<Rightarrow> 'w script" where
  "script_new_pool pool sha1 retries = script_new (redis_new pool retries) sha1"

text \<open>The constructor that loads its text; an exception leaves no object.\<close>

definition script_from :: "'w redis \<Rightarrow> string \<Rightarrow> ('w, 'w script) op" where
  "script_from rdb script = op_bind (script_load rdb script) (\<lambda>s. op_return (script_new rdb s))"

definition script_from_lines :: "'w redis \<Rightarrow> string list \<Rightarrow> ('w, 'w script) op" where
  "script_from_lines rdb script = script_from rdb (script_build script)"

definition script_from_pool :: "'w redis \<Rightarrow> string \<Rightarrow> nat \<Rightarrow> ('w, 'w script) op" where
  "script_from_pool pool script retries = script_from (redis_new pool retries) script"

definition script_from_pool_lines :: "'w redis \<Rightarrow> string list \<Rightarrow> nat \<Rightarrow> ('w, 'w script) op" where
  "script_from_pool_lines pool script retries = script_from_pool pool (script_build script) retries"

definition sc_compile :: "string \<Rightarrow> 'w script \<Rightarrow> 'w \<Rightarrow> string result \<times> 'w script \<times> 'w" where
  "sc_compile script sc w =
     (case script_compile (sc_rdb sc) script (sc_sha1 sc) w of (r, s, w) \<Rightarrow> (r, sc\<lparr>sc_sha1 := s\<rparr>, w))"

definition sc_compile_lines :: "string list \<Rightarrow> 'w script \<Rightarrow> 'w \<Rightarrow> string result \<times> 'w script \<times> 'w" where
  "sc_compile_lines script = sc_compile (script_build script)"

definition sc_exists :: "'w script \<Rightarrow> 'w \<Rightarrow> bool \<times> 'w" where
  "sc_exists sc = script_exists (sc_rdb sc) (sc_sha1 sc)"

definition sc_run :: "'w script \<Rightarrow> u32 \<Rightarrow> string list \<Rightarrow> ('w, reply) op" where
  "sc_run sc keys args = script_run (sc_rdb sc) (sc_sha1 sc) keys args"

definition sc_run_text :: "'w script \<Rightarrow> string \<Rightarrow> u32 \<Rightarrow> string list \<Rightarrow> ('w, reply) op" where
  "sc_run_text sc script keys args = script_run_text (sc_rdb sc) script keys args"

record 'w pipeline =
  pl_rdb :: "'w redis"
  pl_tr :: "command list"

definition pipeline_new :: "'w redis \<Rightarrow> 'w pipeline" where
  "pipeline_new rdb = \<lparr>pl_rdb = rdb, pl_tr = []\<rparr>"

definition pl_append :: "command \<Rightarrow> 'w pipeline \<Rightarrow> 'w pipeline" where
  "pl_append cmd pl = pl\<lparr>pl_tr := pipe_append cmd (pl_tr pl)\<rparr>"

definition pl_exec :: "'w pipeline \<Rightarrow> ('w, reply list) op" where
  "pl_exec pl = pipe_exec (pl_rdb pl) (pl_tr pl)"

definition pl_reset :: "'w pipeline \<Rightarrow> 'w pipeline" where
  "pl_reset pl = pl\<lparr>pl_tr := []\<rparr>"

definition pl_size :: "'w pipeline \<Rightarrow> nat" where
  "pl_size pl = length (pl_tr pl)"

subsection \<open>What runs by the digest is the text\<close>

text \<open>\<open>stored w d\<close> is the text the server has under the digest \<open>d\<close>: it answers \<open>SCRIPT LOAD\<close> with a digest, \<open>EVALSHA\<close> of a
  digest it has is \<open>EVAL\<close> of its text, and only \<open>SCRIPT FLUSH\<close> removes one.\<close>

definition flushes :: "command \<Rightarrow> bool" where
  "flushes cmd \<longleftrightarrow> take 2 cmd = [''SCRIPT'', ''FLUSH'']"

definition script_server :: "'w redis \<Rightarrow> ('w \<Rightarrow> string \<Rightarrow> string option) \<Rightarrow> bool" where
  "script_server rdb stored \<longleftrightarrow>
     (\<forall>s w r w'. exec_args rdb [''SCRIPT'', ''LOAD'', s] w = (Inr r, w') \<longrightarrow> (\<exists>d. r = StringR d \<and> stored w' d = Some s))
     \<and> (\<forall>d s k a w. stored w d = Some s \<longrightarrow> exec_args rdb (script_evalsha d k a) w = exec_args rdb (script_eval s k a) w)
     \<and> (\<forall>cmd w d s. \<not> flushes cmd \<longrightarrow> stored w d = Some s \<longrightarrow> stored (snd (exec_args rdb cmd w)) d = Some s)"

definition after_commands :: "'w redis \<Rightarrow> command list \<Rightarrow> 'w \<Rightarrow> 'w" where
  "after_commands rdb cmds w = fold (\<lambda>cmd w. snd (exec_args rdb cmd w)) cmds w"

lemma stored_after:
  assumes "script_server rdb stored" and "stored w d = Some s" and "\<forall>cmd \<in> set cmds. \<not> flushes cmd"
  shows "stored (after_commands rdb cmds w) d = Some s"
  using assms(2,3)
proof (induction cmds arbitrary: w)
  case (Cons cmd cmds)
  then have "stored (snd (exec_args rdb cmd w)) d = Some s" using assms(1) by (simp add: script_server_def)
  then show ?case using Cons by (simp add: after_commands_def)
qed (simp add: after_commands_def)

lemma script_load_stored:
  assumes "script_server rdb stored" and "script_load rdb s w = (Inr d, w')"
  shows "stored w' d = Some s"
proof -
  obtain r where r: "exec_args rdb [''SCRIPT'', ''LOAD'', s] w = (Inr r, w')" "d = redis_getString r []"
    using assms(2) by (auto simp: script_load_def op_bind_def op_return_def split: prod.splits sum.splits)
  then obtain d' where "r = StringR d'" "stored w' d' = Some s" using assms(1) unfolding script_server_def by blast
  with r(2) show ?thesis by (simp add: redis_getString_def isString_def reply_str_def)
qed

text \<open>A script that was loaded runs as its text does, whatever commands ran since then, unless one flushed the scripts; so
  does one that was compiled anew.\<close>

lemma loaded_script_runs:
  assumes "script_server rdb stored" and "script_from rdb s w = (Inr sc, w1)" and "\<forall>cmd \<in> set cmds. \<not> flushes cmd"
  shows "sc_run sc keys args (after_commands rdb cmds w1) = sc_run_text sc s keys args (after_commands rdb cmds w1)"
proof -
  obtain d where d: "script_load rdb s w = (Inr d, w1)" "sc = script_new rdb d"
    using assms(2) by (auto simp: script_from_def op_bind_def op_return_def split: prod.splits sum.splits)
  have "stored (after_commands rdb cmds w1) d = Some s"
    using stored_after [OF assms(1) script_load_stored [OF assms(1) d(1)] assms(3)] .
  then show ?thesis using assms(1)
    by (simp add: script_server_def d(2) sc_run_def sc_run_text_def script_run_def script_run_text_def script_new_def)
qed

lemma compiled_script_runs:
  assumes "script_server (sc_rdb sc) stored" and "sc_compile s sc w = (Inr d, sc', w1)" and "\<forall>cmd \<in> set cmds. \<not> flushes cmd"
  shows "sc_run sc' keys args (after_commands (sc_rdb sc) cmds w1) = sc_run_text sc' s keys args (after_commands (sc_rdb sc) cmds w1)"
proof -
  have d: "script_load (sc_rdb sc) s w = (Inr d, w1)" "sc' = sc\<lparr>sc_sha1 := d\<rparr>"
    using assms(2) by (auto simp: sc_compile_def script_compile_def split: prod.splits sum.splits)
  have "stored (after_commands (sc_rdb sc) cmds w1) d = Some s"
    using stored_after [OF assms(1) script_load_stored [OF assms(1) d(1)] assms(3)] .
  then show ?thesis using assms(1)
    by (simp add: script_server_def d(2) sc_run_def sc_run_text_def script_run_def script_run_text_def)
qed

text \<open>A refused compilation leaves the digest as it was.\<close>

lemma refused_compile_keeps: "sc_compile s sc w = (Inl e, sc', w1) \<Longrightarrow> sc' = sc"
  by (auto simp: sc_compile_def script_compile_def split: prod.splits sum.splits)

text \<open>\<open>exists()\<close> reads the reply of \<open>SCRIPT EXISTS\<close> as an integer; Redis answers it with an array of integers, of which
  \<open>getInt\<close> makes its default, so it is false for every script.\<close>

lemma script_never_exists:
  assumes "\<And>w. \<exists>rs w'. exec_args (sc_rdb sc) [''SCRIPT'', ''EXISTS'', sc_sha1 sc] w = (Inr (ArrayR rs), w')"
  shows "\<not> fst (sc_exists sc w)"
proof -
  obtain rs w' where "exec_args (sc_rdb sc) [''SCRIPT'', ''EXISTS'', sc_sha1 sc] w = (Inr (ArrayR rs), w')" using assms by blast
  then show ?thesis by (simp add: sc_exists_def script_exists_def redis_getInt_def isString_def isInteger_def)
qed

text \<open>The hypothesis can hold: a server that keeps every text under the text itself.\<close>

definition text_server :: "(string set) redis" where
  "text_server =
     \<lparr>rd_run = (\<lambda>cmd w. (case cmd of
        [_, b, c] \<Rightarrow> if b = ''LOAD'' then (Inr (StringR c), insert c w) else (Inr NilR, w)
      | _ \<Rightarrow> (Inr NilR, w))),
      rd_append = (\<lambda>_ w. (Inr (), w)), rd_get_replies = (\<lambda>_ w. (Inr [], w)), rd_with = (\<lambda>_ f. f), rd_with_set = (\<lambda>_ f. f),
      rd_retries = kMAX_RETRIES\<rparr>"

lemma text_server_exec: "exec_args text_server cmd w = rd_run text_server cmd w"
  by (auto simp: exec_args_def text_server_def op_bind_def op_return_def isError_def split: list.splits)

definition text_stored :: "string set \<Rightarrow> string \<Rightarrow> string option" where
  "text_stored w d = (if d \<in> w then Some d else None)"

lemma text_server_laws: "script_server text_server text_stored"
  unfolding script_server_def text_server_exec
  by (auto simp: text_server_def text_stored_def script_evalsha_def script_eval_def split: list.splits if_splits)

lemma loaded_script_runs_witness:
  "\<exists>sc w1. script_from text_server ''return 1'' {} = (Inr sc, w1)
    \<and> sc_run sc 0 [] (after_commands text_server [[''GET'', ''k'']] w1)
      = sc_run_text sc ''return 1'' 0 [] (after_commands text_server [[''GET'', ''k'']] w1)"
proof -
  obtain sc w1 where l: "script_from text_server ''return 1'' {} = (Inr sc, w1)"
    by (simp add: script_from_def script_load_def op_bind_def text_server_exec) (simp add: text_server_def op_return_def)
  show ?thesis using loaded_script_runs [OF text_server_laws l, of "[[''GET'', ''k'']]" 0 "[]"] l by (simp add: flushes_def)
qed

subsection \<open>A pipeline sends its commands in order\<close>

lemma append_all_recording: "append_all (recording rep) tr w = (Inr (), w @ tr)"
  by (induction tr arbitrary: w) (simp_all add: op_return_def op_bind_def recording_def)

lemma pl_append_all: "pl_tr (fold pl_append cmds pl) = pl_tr pl @ cmds \<and> pl_rdb (fold pl_append cmds pl) = pl_rdb pl"
  by (induction cmds arbitrary: pl) (simp_all add: pl_append_def pipe_append_def)

text \<open>The commands appended to a pipeline are sent together and in order, with one reply for each; they stay in it, so a
  second \<open>exec\<close> sends them again unless it was reset.\<close>

lemma pipeline_sends_all:
  "pl_exec (fold pl_append cmds (pipeline_new (recording rep))) w
    = (Inr (map (\<lambda>k. rep (take (Suc k) cmds)) [0..<length cmds]), w @ cmds)" (is ?send)
  "pl_size (fold pl_append cmds (pipeline_new rdb)) = length cmds"
  "pl_tr (pl_reset pl) = []"
proof -
  have w: "rd_with_set (recording rep) n f = f" for n f by (simp add: recording_def)
  show ?send
    by (simp add: pl_exec_def pl_append_all pipeline_new_def pipe_exec_def w op_bind_def append_all_recording)
      (simp add: recording_def)
qed (simp_all add: pl_size_def pl_append_all pipeline_new_def pl_reset_def)

end
