(* ===== verification/Esl.thy ===== *)
theory Esl
  imports Prelude
begin

section \<open>FreeSWITCH event socket client (esl/)\<close>

text \<open>
  A client keeps a connection to FreeSWITCH: a poll thread connects, subscribes to the events of the
  mask, receives events and gives them to the signals of their names. The library behind \<open>esl_handle_t\<close>
  is the answers of its calls; JSON is a parameter. What a client does is recorded as a list of signals.
\<close>

subsection \<open>Command\<close>

record command =
  cmd_s :: string
  cmd_args :: nat

definition command_new :: command where
  "command_new = \<lparr>cmd_s = [], cmd_args = 0\<rparr>"

definition command_put :: "string \<Rightarrow> command \<Rightarrow> command" where
  "command_put v c =
     (let n = cmd_args c + 1 in c\<lparr>cmd_args := n, cmd_s := cmd_s c @ (if 1 < n then '' '' else []) @ v\<rparr>)"

subsection \<open>Event\<close>

record 'j ejson =
  ej_parse :: "string \<Rightarrow> 'j result"
  ej_at_string :: "'j \<Rightarrow> string \<Rightarrow> string result"
  ej_find :: "'j \<Rightarrow> string \<Rightarrow> 'j option"
  ej_null :: 'j
  ej_is_string :: "'j \<Rightarrow> bool"
  ej_string :: "'j \<Rightarrow> string"
  ej_dump :: "'j \<Rightarrow> string"
  ej_value :: "'j \<Rightarrow> string \<Rightarrow> string \<Rightarrow> string"

definition lower_char :: "char \<Rightarrow> char" where
  "lower_char c =
     (let n = of_char c :: nat in if 65 \<le> n \<and> n \<le> 90 then char_of (n + 32) else c)"

definition strcaseeq :: "string \<Rightarrow> string \<Rightarrow> bool" where
  "strcaseeq a b \<longleftrightarrow> map lower_char a = map lower_char b"

record 'j event =
  ev_data :: 'j
  ev_name :: string
  ev_contentType :: string
  ev_errorDetected :: bool
  ev_errorFlag :: bool

definition event_new :: "'j ejson \<Rightarrow> 'j \<Rightarrow> string \<Rightarrow> 'j event result" where
  "event_new ej j contentType =
     rbind (ej_at_string ej j ''Event-Name'') (\<lambda>n.
       Inr \<lparr>ev_data = j, ev_name = n, ev_contentType = contentType, ev_errorDetected = False, ev_errorFlag = False\<rparr>)"

definition event_new_text :: "'j ejson \<Rightarrow> string \<Rightarrow> string \<Rightarrow> 'j event result" where
  "event_new_text ej from contentType = rbind (ej_parse ej from) (\<lambda>j. event_new ej j contentType)"

definition event_body :: "'j ejson \<Rightarrow> 'j event \<Rightarrow> 'j" where
  "event_body ej e = (case ej_find ej (ev_data e) ''_body'' of Some b \<Rightarrow> b | None \<Rightarrow> ej_null ej)"

definition bodyStr :: "'j ejson \<Rightarrow> 'j event \<Rightarrow> string" where
  "bodyStr ej e = (let b = event_body ej e in if ej_is_string ej b then ej_string ej b else ej_dump ej b)"

definition isAPIResponse :: "'j event \<Rightarrow> bool" where
  "isAPIResponse e = strcaseeq (ev_contentType e) ''api/response''"

definition isCommandReply :: "'j event \<Rightarrow> bool" where
  "isCommandReply e = strcaseeq (ev_contentType e) ''command/reply''"

definition isDisconnectNotice :: "'j event \<Rightarrow> bool" where
  "isDisconnectNotice e = strcaseeq (ev_contentType e) ''text/disconnect-notice''"

definition startsWith :: "string \<Rightarrow> string \<Rightarrow> bool" where
  "startsWith s p \<longleftrightarrow> take (length p) s = p"

definition checkError :: "'j ejson \<Rightarrow> 'j event \<Rightarrow> bool" where
  "checkError ej e =
     (if isAPIResponse e then
        (if ej_is_string ej (event_body ej e) then
           startsWith (bodyStr ej e) ''-ERR '' \<or> startsWith (bodyStr ej e) ''-USAGE:''
         else False)
      else if isCommandReply e then \<not> startsWith (ej_value ej (ev_data e) ''Reply-Text'' []) ''+OK ''
      else False)"

definition isErrorResponse :: "'j ejson \<Rightarrow> 'j event \<Rightarrow> bool \<times> 'j event" where
  "isErrorResponse ej e =
     (let e = (if \<not> ev_errorDetected e then e\<lparr>ev_errorFlag := checkError ej e, ev_errorDetected := True\<rparr> else e)
      in (ev_errorFlag e, e))"

subsection \<open>Client\<close>

datatype 'j esl_signal = SConnect | SDisconnect | SEvent string "'j event" | SSubscribe string

record 'j client =
  cl_stopped :: bool
  cl_connected :: bool
  cl_mask :: "string set"
  cl_signals :: "string set"
  cl_trace :: "'j esl_signal list"
  cl_polls :: nat

definition client_new :: "'j client" where
  "client_new = \<lparr>cl_stopped = True, cl_connected = False, cl_mask = {}, cl_signals = {}, cl_trace = [], cl_polls = 0\<rparr>"

definition eventMask :: "string set \<Rightarrow> bool \<Rightarrow> 'j client \<Rightarrow> 'j client" where
  "eventMask v add c = (if add then c\<lparr>cl_mask := cl_mask c \<union> v\<rparr> else c\<lparr>cl_mask := v\<rparr>)"

definition onevent :: "string \<Rightarrow> 'j client \<Rightarrow> 'j client" where
  "onevent evtname c = c\<lparr>cl_signals := insert evtname (cl_signals c)\<rparr>"

definition eventSignal :: "string \<Rightarrow> 'j client \<Rightarrow> bool" where
  "eventSignal evtname c \<longleftrightarrow> evtname \<in> cl_signals c"

text \<open>\<open>cl_polls\<close> counts the poll threads posted and not yet finished.\<close>

definition client_start :: "string set \<Rightarrow> 'j client \<Rightarrow> 'j client" where
  "client_start evtmask c =
     (if \<not> cl_stopped c then c
      else (eventMask evtmask True (c\<lparr>cl_stopped := False\<rparr>))\<lparr>cl_polls := cl_polls c + 1\<rparr>)"

definition client_stop :: "'j client \<Rightarrow> 'j client" where
  "client_stop c = c\<lparr>cl_stopped := True\<rparr>"

definition emit :: "'j esl_signal \<Rightarrow> 'j client \<Rightarrow> 'j client" where
  "emit s c = c\<lparr>cl_trace := cl_trace c @ [s]\<rparr>"

text \<open>\<open>tools::str::toList\<close> is the parameter \<open>toList\<close>.\<close>

definition subscribe :: "(string set \<Rightarrow> string) \<Rightarrow> 'j client \<Rightarrow> 'j client" where
  "subscribe toList c = (let evts = toList (cl_mask c) in if evts = [] then c else emit (SSubscribe evts) c)"

definition onConnected :: "(string set \<Rightarrow> string) \<Rightarrow> 'j client \<Rightarrow> 'j client" where
  "onConnected toList c = subscribe toList (emit SConnect c)"

definition onDisconnected :: "'j client \<Rightarrow> 'j client" where
  "onDisconnected c = emit SDisconnect c"

text \<open>An event of the library: its content type header and its JSON text, each of which may be missing.\<close>

definition client_parse :: "'j ejson \<Rightarrow> string option \<times> string option \<Rightarrow> 'j event result" where
  "client_parse ej evt =
     (case fst evt of
        None \<Rightarrow> Inl (RuntimeError ''unknown (NULL) ESL event type'')
      | Some ty \<Rightarrow>
          (case snd evt of
             None \<Rightarrow> Inl (RuntimeError ''failed to serialize ESL event'')
           | Some str \<Rightarrow>
               rbind (ej_parse ej str) (\<lambda>j.
                 if strcaseeq ty ''text/event-json'' then
                   rbind (ej_at_string ej j ''_body'') (\<lambda>body. event_new_text ej body ty)
                 else event_new ej j ty)))"

text \<open>An exception of a slot is caught, and the answer is the same.\<close>

definition dispatch :: "'j event \<Rightarrow> 'j client \<Rightarrow> bool \<times> 'j client" where
  "dispatch e c =
     (if isDisconnectNotice e then (False, c)
      else (True, if eventSignal (ev_name e) c then emit (SEvent (ev_name e) e) c else c))"

definition client_process :: "'j ejson \<Rightarrow> string option \<times> string option \<Rightarrow> 'j client \<Rightarrow> bool \<times> 'j client" where
  "client_process ej evt c = (case client_parse ej evt of Inl _ \<Rightarrow> (True, c) | Inr e \<Rightarrow> dispatch e c)"

text \<open>
  One call of \<open>esl_recv_event_timed\<close>: its status and, for success, the event, if any; whether the handle is
  still connected afterwards; the calls of \<open>start\<close> and \<open>stop\<close> that other threads made meanwhile.
\<close>

datatype esl_status = ESL_BREAK | ESL_SUCCESS "(string option \<times> string option) option" | ESL_FAIL | ESL_DISCONNECTED | ESL_GENERR

datatype flag_call = CallStart "string set" | CallStop

definition flag_calls :: "flag_call list \<Rightarrow> 'j client \<Rightarrow> 'j client" where
  "flag_calls calls = fold (\<lambda>f. case f of CallStart m \<Rightarrow> client_start m | CallStop \<Rightarrow> client_stop) calls"

type_synonym recv_answer = "esl_status \<times> bool \<times> flag_call list"

definition recv_one :: "'j ejson \<Rightarrow> recv_answer \<Rightarrow> 'j client \<Rightarrow> bool \<times> 'j client" where
  "recv_one ej a c =
     (case a of (st, connected, calls) \<Rightarrow>
       (let c = flag_calls calls (c\<lparr>cl_connected := connected\<rparr>) in
        case st of
          ESL_BREAK \<Rightarrow> (False, c)
        | ESL_SUCCESS None \<Rightarrow> (False, c)
        | ESL_SUCCESS (Some evt) \<Rightarrow> (case client_process ej evt c of (r, c) \<Rightarrow> (\<not> r, c))
        | ESL_FAIL \<Rightarrow> (True, c)
        | ESL_DISCONNECTED \<Rightarrow> (True, c)
        | ESL_GENERR \<Rightarrow> (True, c)))"

text \<open>\<open>recv\<close>: the loop ends when the condition fails; with the answers used up the thread is still in the
  loop, which the result says.\<close>

fun recv_loop :: "'j ejson \<Rightarrow> recv_answer list \<Rightarrow> bool \<Rightarrow> 'j client \<Rightarrow> bool \<times> bool \<times> 'j client" where
  "recv_loop ej answers fexit c =
     (if cl_stopped c \<or> \<not> cl_connected c \<or> fexit then (True, fexit, c)
      else (case answers of
              [] \<Rightarrow> (False, fexit, c)
            | a # rest \<Rightarrow> (case recv_one ej a c of (fexit, c) \<Rightarrow> recv_loop ej rest fexit c)))"

declare recv_loop.simps [simp del]

definition client_recv :: "'j ejson \<Rightarrow> recv_answer list \<Rightarrow> 'j client \<Rightarrow> bool \<times> 'j client" where
  "client_recv ej answers c =
     (case recv_loop ej answers False c of (done, fexit, c) \<Rightarrow>
       (done, if done \<and> (\<not> cl_connected c \<or> fexit) then onDisconnected c else c))"

text \<open>\<open>connect\<close> clears the handle and connects it; \<open>esl_connect_timeout\<close> answers with success and sets \<open>connected\<close>.\<close>

definition client_connect :: "bool \<times> bool \<Rightarrow> 'j client \<Rightarrow> bool \<times> 'j client" where
  "client_connect a c = (fst a, c\<lparr>cl_connected := snd a\<rparr>)"

definition client_disconnect :: "bool \<times> bool \<Rightarrow> 'j client \<Rightarrow> bool \<times> 'j client" where
  "client_disconnect a c =
     (if cl_connected c then
        (let c = c\<lparr>cl_connected := snd a\<rparr>;
             c = (if fst a \<and> \<not> cl_connected c then onDisconnected c else c)
         in (fst a, c\<lparr>cl_connected := False\<rparr>))
      else (True, c\<lparr>cl_connected := False\<rparr>))"

text \<open>A round of \<open>poll\<close>: the answer to the connect, the calls of other threads before the first receive, the
  answers to the receives, and the calls before the flag is read again, after the receives or while the thread
  waits. A \<open>start\<close> that clears the flag posts one more poll, which \<open>cl_polls\<close> counts; on a service with one thread
  it runs after this one. When the rounds are used up the thread is still running.\<close>

type_synonym poll_round = "(bool \<times> bool) \<times> flag_call list \<times> recv_answer list \<times> flag_call list"

fun client_poll ::
  "'j ejson \<Rightarrow> (string set \<Rightarrow> string) \<Rightarrow> bool \<times> bool \<Rightarrow> poll_round list \<Rightarrow> 'j client \<Rightarrow> bool \<times> 'j client" where
  "client_poll ej toList last_disc rounds c =
     (if cl_stopped c then (True, (snd (client_disconnect last_disc c))\<lparr>cl_polls := cl_polls c - 1\<rparr>)
      else (case rounds of
              [] \<Rightarrow> (False, c)
            | (conn, calls, answers, calls') # rest \<Rightarrow>
                (case client_connect conn c of (r, c) \<Rightarrow>
                  (let c = flag_calls calls c in
                   if r \<and> cl_connected c then
                     (case client_recv ej answers (onConnected toList c) of
                        (done, c) \<Rightarrow> if done then client_poll ej toList last_disc rest (flag_calls calls' c) else (False, c))
                   else client_poll ej toList last_disc rest (flag_calls calls' c)))))"

declare client_poll.simps [simp del]

text \<open>\<open>esl_send_recv_timed\<close> answers with a status, \<open>ESL_SUCCESS\<close> being 0, the error of the handle and the
  event received last.\<close>

definition client_send ::
  "'j ejson \<Rightarrow> (string \<Rightarrow> int \<times> int \<times> string \<times> (string option \<times> string option)) \<Rightarrow> string \<Rightarrow> 'j client \<Rightarrow> 'j event result" where
  "client_send ej send_recv cmd c =
     (let cmd = c_str cmd; q = [CHR 39] in
      if \<not> cl_connected c then Inl (RuntimeError ''disconnected from freeswitch'')
      else (case send_recv cmd of
              (status, errnum, err, last_sr) \<Rightarrow>
                if status \<noteq> 0 then
                  Inl (RuntimeError (''failed to send command '' @ q @ cmd @ q @ '', status='' @ string_of_int status
                    @ '', err='' @ string_of_int errnum @ '', errmsg='' @ q @ err @ q))
                else rbind (client_parse ej last_sr) (\<lambda>e. Inr (snd (isErrorResponse ej e)))))"

subsection \<open>What the subscribers see\<close>

definition event_signals :: "'j ejson \<Rightarrow> string set \<Rightarrow> string option \<times> string option \<Rightarrow> 'j esl_signal list" where
  "event_signals ej sigs evt =
     (case client_parse ej evt of Inl _ \<Rightarrow> [] | Inr e \<Rightarrow> if ev_name e \<in> sigs then [SEvent (ev_name e) e] else [])"

definition received :: "string option \<times> string option \<Rightarrow> recv_answer" where
  "received evt = (ESL_SUCCESS (Some evt), True, [])"

definition notice :: "'j ejson \<Rightarrow> string option \<times> string option \<Rightarrow> bool" where
  "notice ej evt = (case client_parse ej evt of Inl _ \<Rightarrow> False | Inr e \<Rightarrow> isDisconnectNotice e)"

lemma recv_one_event:
  assumes "\<not> notice ej evt" and "cl_connected c"
  shows "recv_one ej (received evt) c = (False, c\<lparr>cl_trace := cl_trace c @ event_signals ej (cl_signals c) evt\<rparr>)"
  using assms by (cases "client_parse ej evt")
    (simp_all add: recv_one_def received_def client_process_def notice_def dispatch_def event_signals_def emit_def eventSignal_def flag_calls_def Let_def)

lemma recv_loop_events:
  assumes "\<not> cl_stopped c" and "cl_connected c" and "\<forall>evt \<in> set evts. \<not> notice ej evt"
  shows "recv_loop ej (map received evts @ rest) False c
    = recv_loop ej rest False (c\<lparr>cl_trace := cl_trace c @ concat (map (event_signals ej (cl_signals c)) evts)\<rparr>)"
  using assms
proof (induction evts arbitrary: c)
  case (Cons evt evts)
  have one: "recv_one ej (received evt) c = (False, c\<lparr>cl_trace := cl_trace c @ event_signals ej (cl_signals c) evt\<rparr>)"
    using Cons.prems by (intro recv_one_event) simp_all
  show ?case using Cons by (simp add: recv_loop.simps [of ej "received evt # x" for x] one)
qed simp

text \<open>C31: the subscribers of a connected client get every event that FreeSWITCH sends up to its disconnect
  notice: those that parse and whose name has a signal, each once and in order; an event that does not
  parse stops nothing; the notice ends the connection with one disconnect signal.\<close>

theorem events_dispatched:
  assumes "\<not> cl_stopped c" and "cl_connected c" and "\<forall>evt \<in> set evts. \<not> notice ej evt" and "notice ej bye"
  shows "client_recv ej (map received evts @ [received bye]) c
    = (True, c\<lparr>cl_trace := cl_trace c @ concat (map (event_signals ej (cl_signals c)) evts) @ [SDisconnect]\<rparr>)"
proof -
  let ?c = "c\<lparr>cl_trace := cl_trace c @ concat (map (event_signals ej (cl_signals c)) evts)\<rparr>"
  have "recv_one ej (received bye) ?c = (True, ?c)"
    using assms(2,4) by (cases "client_parse ej bye")
      (simp_all add: recv_one_def received_def client_process_def notice_def dispatch_def flag_calls_def Let_def)
  then have "recv_loop ej [received bye] False ?c = (True, True, ?c)"
    using assms(1,2) by (simp add: recv_loop.simps)
  then show ?thesis
    using assms by (simp add: client_recv_def recv_loop_events onDisconnected_def emit_def)
qed

definition demo_ejson :: "string ejson" where
  "demo_ejson = \<lparr>ej_parse = (\<lambda>s. if s = [] then Inl (RuntimeError ''parse'') else Inr s), ej_at_string = (\<lambda>j f. Inr j),
     ej_find = (\<lambda>j f. None), ej_null = [], ej_is_string = (\<lambda>j. True), ej_string = (\<lambda>j. j), ej_dump = (\<lambda>j. j),
     ej_value = (\<lambda>j f d. d)\<rparr>"

lemmas demo_esl = client_parse_def event_new_def event_new_text_def demo_ejson_def notice_def strcaseeq_def lower_char_def Let_def
  isDisconnectNotice_def event_signals_def

theorem events_dispatched_witness:
  "cl_trace (snd (client_recv demo_ejson
      [received (Some ''t'', Some ''HEARTBEAT''), received (Some ''t'', None), received (Some ''text/disconnect-notice'', Some ''x'')]
      (client_new\<lparr>cl_stopped := False, cl_connected := True, cl_signals := {''HEARTBEAT''}\<rparr>)))
    = concat (map (event_signals demo_ejson {''HEARTBEAT''}) [(Some ''t'', Some ''HEARTBEAT''), (Some ''t'', None)]) @ [SDisconnect]"
proof -
  let ?c = "client_new\<lparr>cl_stopped := False, cl_connected := True, cl_signals := {''HEARTBEAT''}\<rparr> :: string client"
  have "\<forall>evt \<in> set [(Some ''t'', Some ''HEARTBEAT''), (Some ''t'', None)]. \<not> notice demo_ejson evt"
    by (simp add: demo_esl)
  moreover have "notice demo_ejson (Some ''text/disconnect-notice'', Some ''x'')" by (simp add: demo_esl)
  ultimately show ?thesis
    using events_dispatched [of ?c "[(Some ''t'', Some ''HEARTBEAT''), (Some ''t'', None)]" demo_ejson "(Some ''text/disconnect-notice'', Some ''x'')"]
    by (simp add: client_new_def)
qed

text \<open>Whether the last connect has not been followed by a disconnect, and how often one connect followed another
  without a disconnect in between.\<close>

fun conn_pairs :: "bool \<Rightarrow> nat \<Rightarrow> 'j esl_signal list \<Rightarrow> bool \<times> nat" where
  "conn_pairs opn n [] = (opn, n)"
| "conn_pairs opn n (SConnect # t) = conn_pairs True (if opn then n + 1 else n) t"
| "conn_pairs opn n (SDisconnect # t) = conn_pairs False n t"
| "conn_pairs opn n (SEvent nm e # t) = conn_pairs opn n t"
| "conn_pairs opn n (SSubscribe l # t) = conn_pairs opn n t"

definition lost_disconnects :: "'j esl_signal list \<Rightarrow> nat" where
  "lost_disconnects t = snd (conn_pairs False 0 t)"

lemma conn_pairs_append: "conn_pairs opn n (t @ u) = (case conn_pairs opn n t of (opn, n) \<Rightarrow> conn_pairs opn n u)"
  by (induction opn n t rule: conn_pairs.induct) auto

definition tr_pairs :: "'j client \<Rightarrow> bool \<times> nat" where
  "tr_pairs c = conn_pairs False 0 (cl_trace c)"

lemma tr_pairs_simps [simp]:
  "tr_pairs (c\<lparr>cl_connected := x\<rparr>) = tr_pairs c" "tr_pairs (c\<lparr>cl_stopped := y\<rparr>) = tr_pairs c"
  "tr_pairs (c\<lparr>cl_polls := k\<rparr>) = tr_pairs c" "tr_pairs (c\<lparr>cl_mask := m\<rparr>) = tr_pairs c"
  "tr_pairs (emit (SEvent nm e) c) = tr_pairs c" "tr_pairs (emit (SSubscribe l) c) = tr_pairs c"
  "tr_pairs (emit SDisconnect c) = (False, snd (tr_pairs c))"
  "tr_pairs (emit SConnect c) = (True, if fst (tr_pairs c) then snd (tr_pairs c) + 1 else snd (tr_pairs c))"
  by (simp_all add: tr_pairs_def emit_def conn_pairs_append split: prod.split)

lemma emit_sel [simp]:
  "cl_stopped (emit s c) = cl_stopped c" "cl_connected (emit s c) = cl_connected c" "cl_polls (emit s c) = cl_polls c"
  by (simp_all add: emit_def)














text \<open>Two connections that break, and a stop: no poll was posted beside this one, no disconnect is lost.\<close>

lemmas demo_poll = client_poll.simps recv_loop.simps recv_one_def client_recv_def client_connect_def client_disconnect_def
  onConnected_def onDisconnected_def subscribe_def emit_def flag_calls_def client_start_def client_stop_def client_new_def
  eventMask_def Let_def




text \<open>The stop ends \<open>recv\<close> without a signal; a start before \<open>poll\<close> reads the flag lets it connect again.\<close>

lemma restart_loses_disconnect:
  "\<exists>c'. client_poll demo_ejson (\<lambda>_. ''ALL'') (True, False)
      [((True, True), [], [(ESL_BREAK, True, [CallStop])], [CallStart {}]), ((True, True), [CallStop], [], [])]
      (client_start {} client_new) = (True, c') \<and> lost_disconnects (cl_trace c') = 1 \<and> cl_polls c' = 1"
  by (simp add: demo_poll lost_disconnects_def)

text \<open>Stopping and starting again before the poll thread has noticed leaves two poll threads on one handle.\<close>

lemma restart_starts_second_poll:
  "cl_polls (client_start m (client_stop (client_start m' client_new))) = 2"
  by (simp add: client_start_def client_stop_def client_new_def eventMask_def)

text \<open>A disconnect notice followed by a stop signals the disconnect twice.\<close>

lemma notice_then_stop_disconnects_twice:
  assumes "notice ej bye" and "\<not> cl_stopped c" and "cl_connected c"
  shows "cl_trace (snd (client_disconnect (True, False) (client_stop (snd (client_recv ej [received bye] c)))))
    = cl_trace c @ [SDisconnect, SDisconnect]"
proof -
  have "recv_one ej (received bye) c = (True, c)"
    using assms by (cases "client_parse ej bye")
      (simp_all add: recv_one_def received_def client_process_def notice_def dispatch_def flag_calls_def Let_def)
  then have "recv_loop ej [received bye] False c = (True, True, c)" using assms by (simp add: recv_loop.simps)
  then show ?thesis using assms
    by (simp add: client_recv_def onDisconnected_def emit_def client_stop_def client_disconnect_def Let_def)
qed

end
