(* ===== verification/Curl_Text.thy ===== *)
theory Curl_Text
  imports Prelude
begin

section \<open>URLs and URL encoding (curl/url.cpp, curl/urilite.h)\<close>

subsection \<open>urilite: percent encoding\<close>

definition char_code :: "char \<Rightarrow> nat" where
  "char_code c = of_char c"

definition char_between :: "nat \<Rightarrow> nat \<Rightarrow> char \<Rightarrow> bool" where
  "char_between lo hi c \<longleftrightarrow> lo \<le> char_code c \<and> char_code c \<le> hi"

definition alnum :: "char \<Rightarrow> bool" where
  "alnum c \<longleftrightarrow> char_between 97 122 c \<or> char_between 65 90 c \<or> char_between 48 57 c"

text \<open>\<open>match\<close>: whether a character is reserved and must be encoded.\<close>

definition RFC2396_match :: "char \<Rightarrow> bool" where
  "RFC2396_match c \<longleftrightarrow> \<not> (alnum c \<or> c \<in> {CHR ''-'', CHR ''_'', CHR ''.'', CHR ''~'', CHR ''!'', CHR 39, CHR ''('', CHR '')''})"

definition RFC3986_match :: "char \<Rightarrow> bool" where
  "RFC3986_match c \<longleftrightarrow> \<not> (alnum c \<or> c \<in> {CHR ''-'', CHR ''_'', CHR ''.'', CHR ''~''})"

record plus_policy =
  space_encoded :: string
  plus_decoded :: char

definition PLUS :: plus_policy where
  "PLUS = \<lparr>space_encoded = ''+'', plus_decoded = CHR '' ''\<rparr>"

definition NO_PLUS :: plus_policy where
  "NO_PLUS = \<lparr>space_encoded = ''%20'', plus_decoded = CHR ''+''\<rparr>"

definition hex_digit :: "nat \<Rightarrow> char" where
  "hex_digit d = (if d < 10 then char_of (48 + d) else char_of (87 + d))"

text \<open>\<open>oss << hex << setw(2) << setfill('0') << (c & 0xff)\<close>.\<close>

definition hex2 :: "nat \<Rightarrow> string" where
  "hex2 n = [hex_digit (n div 16 mod 16), hex_digit (n mod 16)]"

definition encode_char :: "(char \<Rightarrow> bool) \<Rightarrow> plus_policy \<Rightarrow> char \<Rightarrow> string" where
  "encode_char mat pol c =
     (if \<not> mat c then [c] else if c = CHR '' '' then space_encoded pol else CHR ''%'' # hex2 (char_code c mod 256))"

definition encode :: "(char \<Rightarrow> bool) \<Rightarrow> plus_policy \<Rightarrow> string \<Rightarrow> string" where
  "encode mat pol s = concat (map (encode_char mat pol) s)"

text \<open>\<open>iss >> hex >> d\<close> on at most two characters: blanks are skipped, an empty stream leaves \<open>d\<close> as it was,
  which is the indeterminate \<open>junk\<close>, and a stream without digits sets it to zero.\<close>

definition hex_value :: "char \<Rightarrow> nat option" where
  "hex_value c =
     (if char_between 48 57 c then Some (char_code c - 48)
      else if char_between 97 102 c then Some (char_code c - 87)
      else if char_between 65 70 c then Some (char_code c - 55)
      else None)"

fun hex_digits :: "string \<Rightarrow> nat \<Rightarrow> nat" where
  "hex_digits [] acc = acc"
| "hex_digits (c # s) acc = (case hex_value c of None \<Rightarrow> acc | Some v \<Rightarrow> hex_digits s (16 * acc + v))"

definition scan_hex :: "int \<Rightarrow> string \<Rightarrow> int" where
  "scan_hex junk s =
     (case dropWhile is_space s of
        [] \<Rightarrow> junk
      | c # s' \<Rightarrow>
          if c = CHR ''-'' then - int (hex_digits s' 0)
          else if c = CHR ''+'' then int (hex_digits s' 0)
          else int (hex_digits (c # s') 0))"

definition char_of_int :: "int \<Rightarrow> char" where
  "char_of_int d = char_of (nat (d mod 256))"

function decode :: "int \<Rightarrow> plus_policy \<Rightarrow> string \<Rightarrow> string" where
  "decode junk pol s =
     (case s of
        [] \<Rightarrow> []
      | c # s' \<Rightarrow>
          if c = CHR ''+'' then plus_decoded pol # decode junk pol s'
          else if c = CHR ''%'' then char_of_int (scan_hex junk (take 2 s')) # decode junk pol (drop 2 s')
          else c # decode junk pol s')"
  by pat_completeness auto

termination
  by (relation "measure (\<lambda>(_, _, s). length s)") auto

declare decode.simps [simp del]

lemma decode_simps [simp]:
  "decode junk pol [] = []"
  "decode junk pol (c # s) =
     (if c = CHR ''+'' then plus_decoded pol # decode junk pol s
      else if c = CHR ''%'' then char_of_int (scan_hex junk (take 2 s)) # decode junk pol (drop 2 s)
      else c # decode junk pol s)"
  by (simp_all add: decode.simps [of junk pol "[]"] decode.simps [of junk pol "c # s"])

lemma char_code_less: "char_code c < 256"
  unfolding char_code_def by simp

lemma char_code_char_of: "n < 256 \<Longrightarrow> char_code (char_of n) = n"
  by (simp add: char_code_def)

lemma hex_digit_code: "d < 16 \<Longrightarrow> char_code (hex_digit d) = (if d < 10 then 48 + d else 87 + d)"
  by (simp add: hex_digit_def char_code_char_of)

lemma hex_value_digit: "d < 16 \<Longrightarrow> hex_value (hex_digit d) = Some d"
  by (auto simp: hex_value_def char_between_def hex_digit_code)

lemma hex_digit_plain:
  assumes "d < 16"
  shows "\<not> is_space (hex_digit d)" and "hex_digit d \<noteq> CHR ''-''" and "hex_digit d \<noteq> CHR ''+''"
proof -
  have c: "(of_char (hex_digit d) :: nat) = (if d < 10 then 48 + d else 87 + d)"
    using hex_digit_code [OF assms] by (simp add: char_code_def)
  show "\<not> is_space (hex_digit d)" unfolding is_space_def using c assms by (auto split: if_splits)
  show "hex_digit d \<noteq> CHR ''-''"
  proof
    assume "hex_digit d = CHR ''-''"
    then have "(of_char (hex_digit d) :: nat) = 45" by simp
    with c show False by (simp split: if_splits)
  qed
  show "hex_digit d \<noteq> CHR ''+''"
  proof
    assume "hex_digit d = CHR ''+''"
    then have "(of_char (hex_digit d) :: nat) = 43" by simp
    with c show False by (simp split: if_splits)
  qed
qed

lemma scan_hex2: "scan_hex junk (hex2 (char_code c)) = int (char_code c)"
proof -
  have "char_code c div 16 < 16" using char_code_less [of c] by simp
  then show ?thesis
    using hex_digit_plain [of "char_code c div 16 mod 16"]
    by (simp add: scan_hex_def hex2_def hex_value_digit)
qed

lemma char_of_int_code: "char_of_int (int (char_code c)) = c"
proof -
  have "nat (int (char_code c) mod 256) = char_code c" using char_code_less [of c] by (simp add: nat_mod_distrib)
  then show ?thesis by (simp add: char_of_int_def char_code_def)
qed

text \<open>C27: what is encoded decodes to itself, for both sets of reserved characters and both policies for
  the blank, on every string of bytes, and the decoder never reaches the indeterminate value.\<close>

theorem urilite_roundtrip:
  assumes "mat \<in> {RFC2396_match, RFC3986_match}" and "pol \<in> {PLUS, NO_PLUS}"
  shows "decode junk pol (encode mat pol s) = s"
proof (induction s)
  case (Cons c s)
  have reserved: "mat (CHR ''+'')" "mat (CHR ''%'')" "mat (CHR '' '')"
    using assms(1) by (auto simp: RFC2396_match_def RFC3986_match_def alnum_def char_between_def char_code_def)
  consider "\<not> mat c" | "mat c" "c = CHR '' ''" | "mat c" "c \<noteq> CHR '' ''" by blast
  then show ?case
  proof cases
    case 1
    then have "c \<noteq> CHR ''+''" "c \<noteq> CHR ''%''" using reserved by auto
    then show ?thesis using Cons 1 by (simp add: encode_def encode_char_def)
  next
    case 2
    have "scan_hex junk ''20'' = 32"
      by (simp add: scan_hex_def is_space_def hex_value_def char_between_def char_code_def)
    moreover have "char_of_int 32 = CHR '' ''" using char_of_int_code [of "CHR '' ''"] by (simp add: char_code_def)
    ultimately show ?thesis using Cons 2 assms(2)
      by (auto simp: encode_def encode_char_def PLUS_def NO_PLUS_def)
  next
    case 3
    have "char_code c mod 256 = char_code c" using char_code_less [of c] by simp
    then have e: "encode mat pol (c # s) = CHR ''%'' # hex2 (char_code c) @ encode mat pol s"
      using 3 by (simp add: encode_def encode_char_def)
    have "length (hex2 (char_code c)) = 2" by (simp add: hex2_def)
    then show ?thesis using Cons unfolding e by (simp add: scan_hex2 char_of_int_code)
  qed
qed (simp add: encode_def)

theorem urilite_roundtrip_witness:
  "decode 77 NO_PLUS (encode RFC3986_match NO_PLUS ''a b+%'') = ''a b+%''"
  by (rule urilite_roundtrip) simp_all

subsection \<open>Url\<close>

text \<open>The match of the regular expression of \<open>Url::parse\<close> is the parameter \<open>rx\<close>: the groups 1 to 6.\<close>

record url =
  ur_scheme :: string
  ur_host :: string
  ur_port :: string
  ur_path :: string
  ur_file :: string
  ur_params :: string

definition url_empty :: url where
  "url_empty = \<lparr>ur_scheme = [], ur_host = [], ur_port = [], ur_path = [], ur_file = [], ur_params = []\<rparr>"

definition url_valid :: "url \<Rightarrow> bool" where
  "url_valid u \<longleftrightarrow> ur_scheme u \<noteq> [] \<and> ur_host u \<noteq> []"

definition url_getPort :: "url \<Rightarrow> int" where
  "url_getPort u = ato_int (c_str (ur_port u))"

definition patchPort :: "url \<Rightarrow> url" where
  "patchPort u =
     (if url_getPort u \<le> 0 then
        u\<lparr>ur_port := if ur_scheme u = ''https'' then ''443'' else if ur_scheme u = ''ftp'' then ''21'' else ''80''\<rparr>
      else u)"

definition url_parse :: "(string \<Rightarrow> string list option) \<Rightarrow> string \<Rightarrow> bool \<Rightarrow> url \<Rightarrow> bool \<times> url" where
  "url_parse rx src force u =
     (let u = (if force then url_empty else u) in
      case rx src of
        Some [sch, host, port, path, file, params] \<Rightarrow>
          (let u = \<lparr>ur_scheme = (if sch = [] then ''https'' else sch), ur_host = host, ur_port = port, ur_path = path,
                    ur_file = file, ur_params = params\<rparr>;
               u = patchPort u
           in (url_valid u, u))
      | _ \<Rightarrow> (False, u))"

definition url_new :: "(string \<Rightarrow> string list option) \<Rightarrow> string \<Rightarrow> url" where
  "url_new rx from = snd (url_parse rx from False url_empty)"

definition url_server :: "url \<Rightarrow> string" where
  "url_server u =
     (if ur_port u = [] then ur_scheme u @ ''://'' @ ur_host u else ur_scheme u @ ''://'' @ ur_host u @ '':'' @ ur_port u)"

definition url_target :: "url \<Rightarrow> string" where
  "url_target u = (if ur_path u = [] then ''/'' else ur_path u @ ur_file u @ ur_params u)"

definition url_toString :: "url \<Rightarrow> string" where
  "url_toString u = url_server u @ url_target u"

definition url_isSSL :: "url \<Rightarrow> bool" where
  "url_isSSL u \<longleftrightarrow> url_valid u \<and> ur_scheme u = ''https''"

text \<open>An address with parameters and no path loses them in its target.\<close>

lemma target_drops_params:
  assumes "rx src = Some [sch, host, port, [], file, params]"
  shows "url_target (url_new rx src) = ''/''"
  using assms by (simp add: url_new_def url_parse_def url_target_def patchPort_def Let_def)

end
