(* ===== verification/Curl_Transfer.thy ===== *)
theory Curl_Transfer
  imports Curl_Text "HOL-Library.Multiset"
begin

section \<open>Transfers: options, handlers, JSON-RPC, downloads, directories (curl/)\<close>

text \<open>
  A transfer owns a handle of libcurl: setting an option may fail and throws then; the callbacks that the
  library makes on the handle give the data and the result. The model has the options set, in order, the
  handlers, and the state a derived class collects.
\<close>

subsection \<open>Easy\<close>

datatype optval = OSelf | OFun string | OLong int | OText string | OList "string list" | ONull

type_synonym curl_opt = "string \<times> optval"

text \<open>The library is a parameter: the error text with which \<open>curl_easy_setopt\<close> refuses an option, the number of an
  option, the text of a result code. The result of \<open>set_opts\<close> has the options that were set before a refusal.\<close>

record curl_lib =
  cl_setopt :: "curl_opt \<Rightarrow> string option"
  cl_number :: "string \<Rightarrow> int"
  cl_strerror :: "int \<Rightarrow> string"

definition easy_check :: "string option \<Rightarrow> string \<Rightarrow> unit result" where
  "easy_check err from =
     (case err of None \<Rightarrow> Inr () | Some txt \<Rightarrow> Inl (RuntimeError (from @ '': '' @ [CHR 39] @ txt @ [CHR 39])))"

definition easy_set :: "curl_lib \<Rightarrow> curl_opt \<Rightarrow> unit result" where
  "easy_set lib opt =
     easy_check (cl_setopt lib opt) (''curl_easy_setopt('' @ string_of_int (cl_number lib (fst opt)) @ '')'')"

fun set_opts :: "curl_lib \<Rightarrow> curl_opt list \<Rightarrow> curl_opt list \<times> unit result" where
  "set_opts lib [] = ([], Inr ())"
| "set_opts lib (opt # opts) =
     (case easy_set lib opt of
        Inl e \<Rightarrow> ([], Inl e)
      | Inr _ \<Rightarrow> (case set_opts lib opts of (opts_set, r) \<Rightarrow> (opt # opts_set, r)))"

lemma set_opts_ok: "\<forall>opt \<in> set opts. cl_setopt lib opt = None \<Longrightarrow> set_opts lib opts = (opts, Inr ())"
  by (induction opts) (auto simp: easy_set_def easy_check_def)

lemma set_opts_stops: "set_opts lib opts = (opts_set, Inl e) \<Longrightarrow> \<exists>opt rest. opts = opts_set @ opt # rest \<and> cl_setopt lib opt \<noteq> None"
  by (induction opts arbitrary: opts_set)
    (fastforce simp: easy_set_def easy_check_def split: prod.splits option.splits)+

definition bool_opt :: "bool \<Rightarrow> optval" where
  "bool_opt b = OLong (if b then 1 else 0)"

definition easy_options :: "bool \<Rightarrow> u64 \<Rightarrow> curl_opt list" where
  "easy_options verbose timeout =
     [(''PRIVATE'', OSelf), (''ERRORBUFFER'', OText []),
      (''READFUNCTION'', OFun ''read_''), (''READDATA'', OSelf),
      (''WRITEFUNCTION'', OFun ''write_''), (''WRITEDATA'', OSelf),
      (''DEBUGFUNCTION'', OFun ''debug_''), (''DEBUGDATA'', OSelf),
      (''XFERINFOFUNCTION'', OFun ''progress_''), (''XFERINFODATA'', OSelf),
      (''VERBOSE'', bool_opt verbose), (''NOPROGRESS'', bool_opt False), (''TIMEOUT_MS'', OLong (sint timeout)),
      (''LOW_SPEED_TIME'', OLong 60), (''LOW_SPEED_LIMIT'', OLong 30)]"

record easy =
  ez_id :: nat
  ez_canceled :: bool
  ez_verbose :: bool
  ez_opts :: "curl_opt list"

definition REQUEST_TIMEOUT_MS :: u64 where
  "REQUEST_TIMEOUT_MS = 300000"

text \<open>\<open>curl_easy_init\<close> may answer with a null handle; \<open>sid\<close> is the counter of \<open>createId\<close>.\<close>

definition easy_new :: "curl_lib \<Rightarrow> bool \<Rightarrow> bool \<Rightarrow> u64 \<Rightarrow> nat \<Rightarrow> easy result \<times> nat" where
  "easy_new lib handle verbose timeout sid =
     (if \<not> handle then (Inl (InvalidArgument ''invalid EASY handle''), sid)
      else (case set_opts lib (easy_options verbose timeout) of
              (opts, Inl e) \<Rightarrow> (Inl e, sid + 1)
            | (opts, Inr _) \<Rightarrow>
                (Inr \<lparr>ez_id = sid, ez_canceled = False, ez_verbose = verbose, ez_opts = opts\<rparr>, sid + 1)))"

definition easy_cancel :: "easy \<Rightarrow> bool \<times> easy" where
  "easy_cancel e = (\<not> ez_canceled e, e\<lparr>ez_canceled := True\<rparr>)"

definition CURL_READFUNC_ABORT :: nat where
  "CURL_READFUNC_ABORT = 0x10000000"

definition easy_progress :: "easy option \<Rightarrow> int" where
  "easy_progress self = (case self of None \<Rightarrow> -1 | Some e \<Rightarrow> if ez_canceled e then -1 else 0)"

definition easy_read_cb :: "easy option \<Rightarrow> (nat \<Rightarrow> nat) \<Rightarrow> nat \<Rightarrow> nat \<Rightarrow> nat" where
  "easy_read_cb self rdf sz nitems =
     (case self of None \<Rightarrow> CURL_READFUNC_ABORT
      | Some e \<Rightarrow> if ez_canceled e then CURL_READFUNC_ABORT else rdf (sz * nitems))"

definition easy_write_cb :: "easy option \<Rightarrow> (nat \<Rightarrow> nat) \<Rightarrow> nat \<Rightarrow> nat \<Rightarrow> nat" where
  "easy_write_cb self wr sz nmemb = (case self of None \<Rightarrow> 0 | Some _ \<Rightarrow> wr (sz * nmemb))"

subsection \<open>Transfer\<close>

text \<open>A handler is known by a number; \<open>tf_adds\<close> counts the times the handle was added to the multi handle,
  \<open>tf_posted\<close> are the results posted to the service, \<open>tf_called\<close> the calls of result handlers, with the code
  and the text. The classes that derive from \<open>Transfer\<close> extend the record.\<close>

record transfer =
  tf_done :: "nat option"
  tf_read :: "nat option"
  tf_write :: "nat option"
  tf_attached :: bool
  tf_adds :: nat
  tf_posted :: "(int \<times> string) list"
  tf_called :: "(nat \<times> int \<times> string) list"

definition transfer_new :: transfer where
  "transfer_new =
     \<lparr>tf_done = None, tf_read = None, tf_write = None, tf_attached = False, tf_adds = 0, tf_posted = [], tf_called = []\<rparr>"

definition transfer_reset :: "'a transfer_scheme \<Rightarrow> 'a transfer_scheme" where
  "transfer_reset t = t\<lparr>tf_done := None, tf_read := None, tf_write := None\<rparr>"

text \<open>\<open>add\<close> is the exception with which attaching to the multi handle ends, if any.\<close>

definition transfer_attach :: "error option \<Rightarrow> 'a transfer_scheme \<Rightarrow> error option \<times> 'a transfer_scheme" where
  "transfer_attach add t =
     (if \<not> tf_attached t then
        (case add of Some e \<Rightarrow> (Some e, t) | None \<Rightarrow> (None, t\<lparr>tf_attached := True, tf_adds := tf_adds t + 1\<rparr>))
      else (None, t))"

definition transfer_detach :: "error option \<Rightarrow> 'a transfer_scheme \<Rightarrow> error option \<times> 'a transfer_scheme" where
  "transfer_detach rm t =
     (if tf_attached t then (case rm of Some e \<Rightarrow> (Some e, t) | None \<Rightarrow> (None, t\<lparr>tf_attached := False\<rparr>)) else (None, t))"

definition transfer_exec :: "error option \<Rightarrow> nat \<Rightarrow> 'a transfer_scheme \<Rightarrow> error option \<times> 'a transfer_scheme" where
  "transfer_exec add h t =
     (case transfer_attach add (t\<lparr>tf_done := Some h\<rparr>) of
        (Some e, t) \<Rightarrow> (Some e, transfer_reset t)
      | (None, t) \<Rightarrow> (None, t))"

datatype curl_msg = MsgDone int | MsgOther

definition transfer_dispatch :: "curl_lib \<Rightarrow> curl_msg \<Rightarrow> 'a transfer_scheme \<Rightarrow> 'a transfer_scheme" where
  "transfer_dispatch lib m t =
     (case m of MsgDone r \<Rightarrow> t\<lparr>tf_posted := tf_posted t @ [(r, cl_strerror lib r)]\<rparr> | MsgOther \<Rightarrow> t)"

definition transfer_done :: "int \<Rightarrow> string \<Rightarrow> 'a transfer_scheme \<Rightarrow> 'a transfer_scheme" where
  "transfer_done err txt t =
     transfer_reset (case tf_done t of None \<Rightarrow> t | Some h \<Rightarrow> t\<lparr>tf_called := tf_called t @ [(h, err, txt)]\<rparr>)"

text \<open>The service runs what was posted; \<open>dn\<close> is \<open>done\<close> of the class of the object.\<close>

definition transfer_run_posted ::
  "(int \<Rightarrow> string \<Rightarrow> 'a transfer_scheme \<Rightarrow> 'a transfer_scheme) \<Rightarrow> 'a transfer_scheme \<Rightarrow> 'a transfer_scheme" where
  "transfer_run_posted dn t =
     (case tf_posted t of [] \<Rightarrow> t | p # ps \<Rightarrow> dn (fst p) (snd p) (t\<lparr>tf_posted := ps\<rparr>))"

text \<open>The handlers of the user, given by their answer, which may be an exception.\<close>

definition transfer_read :: "nat result option \<Rightarrow> nat" where
  "transfer_read h = (case h of Some (Inr n) \<Rightarrow> n | _ \<Rightarrow> 0)"

definition transfer_write :: "nat result option \<Rightarrow> nat \<Rightarrow> nat" where
  "transfer_write h sz = (case h of Some (Inr n) \<Rightarrow> n | _ \<Rightarrow> sz)"

text \<open>The loop of \<open>debug\<close> that drops the line ends of a trace line, from its end.\<close>

fun trim_size :: "string \<Rightarrow> nat \<Rightarrow> nat" where
  "trim_size [] sz = sz"
| "trim_size (c # rest) sz = (if c = CHR 10 \<or> c = CHR 13 then trim_size rest (sz - 1) else sz)"

definition trim_text :: "string \<Rightarrow> string" where
  "trim_text d = take (trim_size (rev d) (length d)) d"

definition transfer_url :: "string option result \<Rightarrow> string" where
  "transfer_url effective = (case effective of Inr (Some u) \<Rightarrow> u | _ \<Rightarrow> [])"

text \<open>A transfer is for one request: after the first its handle stays attached, and a second request is
  never added to the multi handle, so its handler is never called.\<close>

lemma second_exec_not_added:
  assumes "transfer_exec add h t = (None, t1)"
  shows "tf_adds (snd (transfer_exec add' h' (transfer_done r txt t1))) = tf_adds t1"
  using assms
  by (auto simp: transfer_exec_def transfer_attach_def transfer_done_def transfer_reset_def split: if_splits option.splits)

text \<open>An exception of the handler that stores received data is taken for success: the library goes on.\<close>

lemma write_exception_hidden: "transfer_write (Some (Inl e)) sz = sz"
  by (simp add: transfer_write_def)

lemma trim_size_le: "n \<le> length d \<Longrightarrow> n = length rest \<Longrightarrow> d = rev rest @ drop n d \<Longrightarrow>
    take (trim_size rest n) d = rev (dropWhile (\<lambda>c. c = CHR 10 \<or> c = CHR 13) rest)"
proof (induction rest arbitrary: n)
  case (Cons c rest)
  have n: "n = Suc (length rest)" using Cons.prems(2) by simp
  have d: "d = rev rest @ drop (n - 1) d"
    using Cons.prems n by (metis append_eq_conv_conj append_assoc diff_Suc_1 length_rev rev.simps(2))
  have "take n d = rev rest @ [c]" using Cons.prems by (metis append_eq_conv_conj length_rev rev.simps(2))
  then show ?case using Cons.IH [of "n - 1"] Cons.prems n d by simp
qed simp

text \<open>What the trace shows of a line is the line without the line ends at its end.\<close>

lemma trim_text_correct: "trim_text d = rev (dropWhile (\<lambda>c. c = CHR 10 \<or> c = CHR 13) (rev d))"
  unfolding trim_text_def by (rule trim_size_le) simp_all

subsection \<open>One call per handler\<close>

text \<open>What may happen to a transfer: its user starts it, the multi handle reports, the service runs what was
  posted, with the \<open>done\<close> of the class of the object.\<close>

datatype transfer_event = TeExec "error option" nat | TeMsg curl_msg | TeRun

fun transfer_step ::
  "curl_lib \<Rightarrow> (int \<Rightarrow> string \<Rightarrow> 'a transfer_scheme \<Rightarrow> 'a transfer_scheme) \<Rightarrow> transfer_event \<Rightarrow> 'a transfer_scheme \<Rightarrow> 'a transfer_scheme" where
  "transfer_step lib dn (TeExec add h) t = snd (transfer_exec add h t)"
| "transfer_step lib dn (TeMsg m) t = transfer_dispatch lib m t"
| "transfer_step lib dn TeRun t = transfer_run_posted dn t"

fun exec_handlers :: "transfer_event list \<Rightarrow> nat list" where
  "exec_handlers [] = []"
| "exec_handlers (TeExec add h # evs) = h # exec_handlers evs"
| "exec_handlers (ev # evs) = exec_handlers evs"

text \<open>The handlers called, and the one that still may be.\<close>

definition owed :: "'a transfer_scheme \<Rightarrow> nat multiset" where
  "owed t = mset (map fst (tf_called t)) + (case tf_done t of None \<Rightarrow> {#} | Some h \<Rightarrow> {#h#})"

text \<open>
  The contract of a class that derives from \<open>Transfer\<close> and overrides \<open>done\<close>: it calls the handler that is set
  exactly once and forgets it, gives an error of the library on as it is, and leaves what is posted alone.
\<close>

locale transfer_class =
  fixes dn :: "int \<Rightarrow> string \<Rightarrow> 'a transfer_scheme \<Rightarrow> 'a transfer_scheme"
  assumes done_calls: "tf_done t = Some h \<Longrightarrow> \<exists>e x. tf_called (dn err txt t) = tf_called t @ [(h, e, x)]"
    and done_error: "tf_done t = Some h \<Longrightarrow> err \<noteq> 0 \<Longrightarrow> tf_called (dn err txt t) = tf_called t @ [(h, err, txt)]"
    and done_nobody: "tf_done t = None \<Longrightarrow> tf_called (dn err txt t) = tf_called t"
    and done_forgets: "tf_done (dn err txt t) = None"
    and done_posted: "tf_posted (dn err txt t) = tf_posted t"
begin

lemma owed_done: "owed (dn err txt t) = owed t"
proof (cases "tf_done t")
  case None
  then show ?thesis by (simp add: owed_def done_nobody done_forgets)
next
  case (Some h)
  from done_calls [OF this, of err "txt"] obtain e x where "tf_called (dn err txt t) = tf_called t @ [(h, e, x)]" by blast
  with Some show ?thesis by (simp add: owed_def done_forgets)
qed

lemma owed_step: "owed (transfer_step lib dn ev t) \<subseteq># owed t + mset (exec_handlers [ev])"
proof (cases ev)
  case (TeExec add h)
  have "mset (map fst (tf_called t)) \<subseteq># owed t" by (simp add: owed_def)
  then show ?thesis using TeExec
    by (auto simp: owed_def transfer_exec_def transfer_attach_def transfer_reset_def intro: subset_mset.order_trans split: option.splits)
next
  case TeRun
  have "owed (t\<lparr>tf_posted := ps\<rparr>) = owed t" for ps by (simp add: owed_def)
  then show ?thesis using TeRun by (simp add: transfer_run_posted_def owed_done split: list.split)
qed (auto simp: owed_def transfer_dispatch_def split: curl_msg.splits)

lemma owed_steps: "owed (fold (transfer_step lib dn) evs t) \<subseteq># owed t + mset (exec_handlers evs)"
proof (induction evs arbitrary: t)
  case (Cons ev evs)
  have "mset (exec_handlers (ev # evs)) = mset (exec_handlers [ev]) + mset (exec_handlers evs)"
    by (cases ev) simp_all
  moreover have "owed (fold (transfer_step lib dn) evs (transfer_step lib dn ev t))
      \<subseteq># owed t + mset (exec_handlers [ev]) + mset (exec_handlers evs)"
    using Cons.IH owed_step [of lib ev t] by (meson subset_mset.add_right_mono subset_mset.order_trans)
  ultimately show ?case by (simp add: union_assoc)
qed simp

text \<open>So no handler is called more often than it was given to \<open>exec\<close>.\<close>

lemma called_once:
  assumes "tf_done t = None" and "tf_called t = []"
  shows "count_list (map fst (tf_called (fold (transfer_step lib dn) evs t))) h \<le> count_list (exec_handlers evs) h"
proof -
  have "mset (map fst (tf_called (fold (transfer_step lib dn) evs t))) \<subseteq># mset (exec_handlers evs)"
    using owed_steps [of lib evs t] assms
    by (auto simp: owed_def intro: subset_mset.order_trans [OF mset_subset_eq_add_left])
  from mset_subset_eq_count [OF this, of h] show ?thesis by (simp only: count_mset)
qed

text \<open>A canceled or failed transfer tells its handler the code of the library.\<close>

lemma failure_reported:
  assumes "tf_done t = Some h" and "tf_posted t = (err, txt) # ps" and "err \<noteq> 0"
  shows "tf_called (transfer_step lib dn TeRun t) = tf_called t @ [(h, err, txt)]"
proof -
  let ?t = "t\<lparr>tf_posted := ps\<rparr>"
  have "tf_called (dn err txt ?t) = tf_called ?t @ [(h, err, txt)]"
    using assms(1,3) by (intro done_error) simp_all
  with assms(2) show ?thesis by (simp add: transfer_run_posted_def)
qed

end

interpretation base: transfer_class transfer_done
  by unfold_locales (auto simp: transfer_done_def transfer_reset_def split: option.split)

end
