(* ===== verification/Curl_Requests.thy ===== *)
theory Curl_Requests
  imports Curl_Transfer
begin

section \<open>Requests: HTTP, JSON-RPC, downloads, remote directories (curl/)\<close>

text \<open>
  The classes that derive from \<open>Transfer\<close>. Each collects the data that the library hands to \<open>write\<close> and
  looks at it in \<open>done\<close>; an exception there becomes an error code for the handler of the user. JSON, the
  regular expressions, the file system and the functions of \<open>tools\<close> are parameters.
\<close>

subsection \<open>StringList, RemoveFiles\<close>

text \<open>\<open>curl_slist_append\<close> may fail; \<open>fits\<close> says for which items it does not.\<close>

definition slist_append :: "(string \<Rightarrow> bool) \<Rightarrow> string \<Rightarrow> string list \<Rightarrow> string list result" where
  "slist_append fits item l =
     (if fits (c_str item) then Inr (l @ [c_str item]) else Inl (RuntimeError ''curl_slist_append() failed''))"

fun slist_append_all :: "(string \<Rightarrow> bool) \<Rightarrow> string list \<Rightarrow> string list \<Rightarrow> string list result" where
  "slist_append_all fits [] l = Inr l"
| "slist_append_all fits (i # items) l = rbind (slist_append fits i l) (slist_append_all fits items)"

definition slist_clear :: "string list \<Rightarrow> string list" where
  "slist_clear l = []"

definition rm_commands :: "(string \<Rightarrow> bool) \<Rightarrow> string list \<Rightarrow> string list result" where
  "rm_commands fits files = slist_append_all fits (map (\<lambda>f. ''rm '' @ [CHR 39] @ f @ [CHR 39]) files) []"

definition rm_files_new :: "curl_lib \<Rightarrow> (string \<Rightarrow> bool) \<Rightarrow> string list \<Rightarrow> curl_opt list \<times> unit result" where
  "rm_files_new lib fits files =
     (case rm_commands fits files of
        Inl e \<Rightarrow> ([], Inl e)
      | Inr cs \<Rightarrow> set_opts lib [(''QUOTE'', OList cs), (''NOBODY'', bool_opt True)])"

lemma slist_append_all_ok:
  "\<forall>i \<in> set items. fits (c_str i) \<Longrightarrow> slist_append_all fits items l = Inr (l @ map c_str items)"
  by (induction items arbitrary: l) (auto simp: slist_append_def)

text \<open>A quote in the name of a file ends the argument of its command.\<close>

lemma rm_quote_not_escaped:
  "rm_commands (\<lambda>_. True) [''a'' @ [CHR 39] @ '' b'']
   = Inr [''rm '' @ [CHR 39] @ ''a'' @ [CHR 39] @ '' b'' @ [CHR 39]]"
  by (simp add: rm_commands_def slist_append_def c_str_def)

subsection \<open>HttpRequest\<close>

definition http_contentType :: "(string \<Rightarrow> bool) \<Rightarrow> string \<Rightarrow> string list \<Rightarrow> string list result" where
  "http_contentType fits content headers = slist_append fits (''Content-Type: '' @ content) headers"

definition http_get_opts :: "string list \<Rightarrow> curl_opt list" where
  "http_get_opts headers = [(''HTTPGET'', bool_opt True), (''HTTPHEADER'', OList headers)]"

definition http_post_opts :: "string list \<Rightarrow> curl_opt list" where
  "http_post_opts headers =
     [(''HTTPPOST'', bool_opt True), (''POSTFIELDSIZE_LARGE'', OLong 0), (''POSTFIELDS'', ONull), (''HTTPHEADER'', OList headers)]"

definition http_post_data_opts :: "string list \<Rightarrow> string \<Rightarrow> curl_opt list" where
  "http_post_data_opts headers d =
     [(''HTTPPOST'', bool_opt True), (''POSTFIELDSIZE_LARGE'', OLong (int (length d))), (''COPYPOSTFIELDS'', OText d),
      (''HTTPHEADER'', OList headers)]"

definition http_post_buffer_opts :: "string list \<Rightarrow> bytes \<Rightarrow> curl_opt list" where
  "http_post_buffer_opts headers d = http_post_data_opts headers (map (\<lambda>b. char_of (unat b)) d)"

text \<open>\<open>addHeaders\<close>: the headers before one that the library refuses stay.\<close>

fun http_addHeaders :: "(string \<Rightarrow> bool) \<Rightarrow> string list \<Rightarrow> string list \<Rightarrow> string list \<times> unit result" where
  "http_addHeaders fits [] headers = (headers, Inr ())"
| "http_addHeaders fits (h # hs) headers =
     (case slist_append fits h headers of
        Inl e \<Rightarrow> (headers, Inl e)
      | Inr headers \<Rightarrow> http_addHeaders fits hs headers)"

definition http_encode :: "string \<Rightarrow> string" where
  "http_encode v = encode RFC3986_match NO_PLUS v"

definition http_decode :: "int \<Rightarrow> string \<Rightarrow> string" where
  "http_decode junk v = decode junk NO_PLUS v"

lemma http_addHeaders_result:
  "http_addHeaders fits hs headers
    = (headers @ map c_str (takeWhile (fits \<circ> c_str) hs),
       if \<forall>h \<in> set hs. fits (c_str h) then Inr () else Inl (RuntimeError ''curl_slist_append() failed''))"
  by (induction hs arbitrary: headers) (auto simp: slist_append_def)

text \<open>\<open>GET\<close>, \<open>POST\<close> set their options and execute; the first option refused is an exception, and then nothing is
  executed.\<close>

definition http_start ::
  "curl_lib \<Rightarrow> curl_opt list \<Rightarrow> error option \<Rightarrow> nat \<Rightarrow> 'a transfer_scheme \<Rightarrow> error option \<times> 'a transfer_scheme" where
  "http_start lib opts add h t =
     (case snd (set_opts lib opts) of Inl e \<Rightarrow> (Some e, t) | Inr _ \<Rightarrow> transfer_exec add h t)"

text \<open>\<open>curl_easy_getinfo\<close> may fail, or give a null pointer, of which the program builds a string.\<close>

definition http_contentType_get :: "string option result \<Rightarrow> string result" where
  "http_contentType_get info =
     (case info of Inl _ \<Rightarrow> Inr [] | Inr None \<Rightarrow> Inl BadAccess | Inr (Some s) \<Rightarrow> Inr s)"

definition http_responseCode :: "int result \<Rightarrow> int" where
  "http_responseCode info = (case info of Inl _ \<Rightarrow> 0 | Inr c \<Rightarrow> c)"

text \<open>A response without a content type, which the library reports as a null pointer.\<close>

lemma missing_content_type: "http_contentType_get (Inr None) = Inl BadAccess"
  by (simp add: http_contentType_get_def)

subsection \<open>JsonRPC\<close>

text \<open>The JSON library: values of type \<open>'j\<close>; \<open>rj_int\<close> and \<open>rj_str\<close> are \<open>getValue\<close> of \<open>tools\<close>.\<close>

record 'j rpcjson =
  rj_parse :: "string \<Rightarrow> 'j result"
  rj_dump :: "'j \<Rightarrow> string"
  rj_null :: 'j
  rj_nat :: "nat \<Rightarrow> 'j"
  rj_text :: "string \<Rightarrow> 'j"
  rj_object :: "(string \<times> 'j) list \<Rightarrow> 'j"
  rj_put :: "'j \<Rightarrow> string \<Rightarrow> 'j \<Rightarrow> 'j"
  rj_find :: "'j \<Rightarrow> string \<Rightarrow> 'j option"
  rj_is_string :: "'j \<Rightarrow> bool"
  rj_is_number :: "'j \<Rightarrow> bool"
  rj_is_null :: "'j \<Rightarrow> bool"
  rj_eq :: "'j \<Rightarrow> 'j \<Rightarrow> bool"
  rj_int :: "'j \<Rightarrow> string \<Rightarrow> int \<Rightarrow> int"
  rj_str :: "'j \<Rightarrow> string \<Rightarrow> string"

record 'j jsonrpc = transfer +
  jr_id :: nat
  jr_headers :: "string list"
  jr_method :: string
  jr_params :: 'j
  jr_buffer :: string
  jr_version :: string
  jr_result :: 'j
  jr_error :: 'j
  jr_successed :: bool

definition jsonrpc_new :: "'j rpcjson \<Rightarrow> nat \<Rightarrow> string \<Rightarrow> 'j \<Rightarrow> 'j jsonrpc" where
  "jsonrpc_new rj i meth ps =
     transfer.extend transfer_new
       \<lparr>jr_id = i, jr_headers = [], jr_method = meth, jr_params = ps, jr_buffer = [], jr_version = ''2.0'',
        jr_result = rj_null rj, jr_error = rj_null rj, jr_successed = False\<rparr>"

definition jr_request :: "'j rpcjson \<Rightarrow> 'j jsonrpc \<Rightarrow> 'j" where
  "jr_request rj r =
     (let req = rj_object rj [(''id'', rj_nat rj (jr_id r)), (''jsonrpc'', rj_text rj (jr_version r)),
                              (''method'', rj_text rj (jr_method r))]
      in if \<not> rj_is_null rj (jr_params r) then rj_put rj req ''params'' (jr_params r) else req)"

definition jr_run ::
  "curl_lib \<Rightarrow> (string \<Rightarrow> bool) \<Rightarrow> 'j rpcjson \<Rightarrow> error option \<Rightarrow> nat \<Rightarrow> 'j jsonrpc \<Rightarrow> error option \<times> 'j jsonrpc" where
  "jr_run lib fits rj add h r =
     (case http_contentType fits ''application/json'' (jr_headers r) of
        Inl e \<Rightarrow> (Some e, r)
      | Inr hs \<Rightarrow>
          http_start lib (http_post_data_opts hs (rj_dump rj (jr_request rj r))) add h (r\<lparr>jr_headers := hs\<rparr>))"

definition jr_errorCode :: "'j rpcjson \<Rightarrow> 'j jsonrpc \<Rightarrow> int" where
  "jr_errorCode rj r = rj_int rj (jr_error r) ''code'' 0"

definition jr_errorMessage :: "'j rpcjson \<Rightarrow> 'j jsonrpc \<Rightarrow> string" where
  "jr_errorMessage rj r = rj_str rj (jr_error r) ''message''"

definition jr_write :: "string \<Rightarrow> 'j jsonrpc \<Rightarrow> 'j jsonrpc" where
  "jr_write buf r = r\<lparr>jr_buffer := jr_buffer r @ buf\<rparr>"

text \<open>\<open>ctype\<close> and \<open>code\<close> are what \<open>curl_easy_getinfo\<close> answers for the content type and the response code.\<close>

definition jr_parse ::
  "'j rpcjson \<Rightarrow> int result \<Rightarrow> string option result \<Rightarrow> string \<Rightarrow> 'j jsonrpc \<Rightarrow> 'j jsonrpc result" where
  "jr_parse rj code ctype from r =
     (if http_responseCode code \<noteq> 200 then
        Inl (RuntimeError (''bad HTTP response code: '' @ string_of_int (http_responseCode code)))
      else rbind (http_contentType_get ctype) (\<lambda>ct.
        if ct \<noteq> ''application/json'' then Inl (RuntimeError ''invalid Content-Type'')
        else rbind (rj_parse rj from) (\<lambda>resp.
          case rj_find rj resp ''jsonrpc'' of
            None \<Rightarrow> Inl (RuntimeError (''can'' @ [CHR 39] @ ''t find JSON-RPC version''))
          | Some v \<Rightarrow>
              if \<not> rj_is_string rj v \<or> \<not> rj_eq rj v (rj_text rj (jr_version r)) then
                Inl (RuntimeError ''bad JSON-RPC version'')
              else (case rj_find rj resp ''id'' of
                None \<Rightarrow> Inl (RuntimeError (''can'' @ [CHR 39] @ ''t find JSON-RPC id''))
              | Some i \<Rightarrow>
                  if \<not> rj_is_number rj i \<or> \<not> rj_eq rj i (rj_nat rj (jr_id r)) then
                    Inl (RuntimeError ''invalid JSON-RPC id'')
                  else (case (rj_find rj resp ''result'', rj_find rj resp ''error'') of
                    (Some _, Some _) \<Rightarrow> Inl (RuntimeError ''ambiguous JSON-RPC response object: result and error'')
                  | (None, Some e) \<Rightarrow>
                      if rj_is_null rj e then Inl (RuntimeError ''bad JSON-RPC error object'') else Inr (r\<lparr>jr_error := e\<rparr>)
                  | (Some v, None) \<Rightarrow> Inr (r\<lparr>jr_result := v, jr_successed := True\<rparr>)
                  | (None, None) \<Rightarrow> Inl (RuntimeError ''bad JSON-RPC response: no result or error''))))))"

abbreviation CURLE_WEIRD_SERVER_REPLY :: int where "CURLE_WEIRD_SERVER_REPLY \<equiv> 8"
abbreviation CURLE_FTP_BAD_FILE_LIST :: int where "CURLE_FTP_BAD_FILE_LIST \<equiv> 19"
abbreviation CURLE_WRITE_ERROR :: int where "CURLE_WRITE_ERROR \<equiv> 23"

text \<open>\<open>what()\<close> of an exception.\<close>

fun error_what :: "error \<Rightarrow> string" where
  "error_what (RuntimeError t) = t"
| "error_what (InvalidArgument t) = t"
| "error_what (NotImplemented t) = t"
| "error_what (ItemNotFound t) = t"
| "error_what (TooManyItems t) = t"
| "error_what BadAccess = []"

definition jr_done ::
  "'j rpcjson \<Rightarrow> int result \<Rightarrow> string option result \<Rightarrow> int \<Rightarrow> string \<Rightarrow> 'j jsonrpc \<Rightarrow> 'j jsonrpc" where
  "jr_done rj code ctype err txt r =
     (if err = 0 then
        (case jr_parse rj code ctype (jr_buffer r) r of
           Inl e \<Rightarrow> transfer_done CURLE_WEIRD_SERVER_REPLY (error_what e) r
         | Inr r' \<Rightarrow> transfer_done err txt r')
      else transfer_done err txt r)"

text \<open>What the protocol asks of a response: the version and the id of the request, and exactly one of a result and an
  error that is not null.\<close>

datatype 'j rpc_reply = Answer 'j | Fault 'j

definition rpc_reply_is :: "'j rpcjson \<Rightarrow> nat \<Rightarrow> string \<Rightarrow> 'j \<Rightarrow> 'j rpc_reply \<Rightarrow> bool" where
  "rpc_reply_is rj i vers resp x \<longleftrightarrow>
     (\<exists>v. rj_find rj resp ''jsonrpc'' = Some v \<and> rj_is_string rj v \<and> rj_eq rj v (rj_text rj vers)) \<and>
     (\<exists>j. rj_find rj resp ''id'' = Some j \<and> rj_is_number rj j \<and> rj_eq rj j (rj_nat rj i)) \<and>
     (case x of
        Answer v \<Rightarrow> rj_find rj resp ''result'' = Some v \<and> rj_find rj resp ''error'' = None
      | Fault e \<Rightarrow> rj_find rj resp ''error'' = Some e \<and> rj_find rj resp ''result'' = None \<and> \<not> rj_is_null rj e)"

definition rpc_accepts ::
  "'j rpcjson \<Rightarrow> int result \<Rightarrow> string \<Rightarrow> string \<Rightarrow> 'j jsonrpc \<Rightarrow> 'j rpc_reply \<Rightarrow> bool" where
  "rpc_accepts rj code ct from r x \<longleftrightarrow>
     http_responseCode code = 200 \<and> ct = ''application/json'' \<and>
     (\<exists>resp. rj_parse rj from = Inr resp \<and> rpc_reply_is rj (jr_id r) (jr_version r) resp x)"

definition rpc_store :: "'j rpc_reply \<Rightarrow> 'j jsonrpc \<Rightarrow> 'j jsonrpc" where
  "rpc_store x r = (case x of Answer v \<Rightarrow> r\<lparr>jr_result := v, jr_successed := True\<rparr> | Fault e \<Rightarrow> r\<lparr>jr_error := e\<rparr>)"

lemma rpc_accepts_unique: "rpc_accepts rj code ct from r x \<Longrightarrow> rpc_accepts rj code ct from r y \<Longrightarrow> x = y"
  by (cases x; cases y) (auto simp: rpc_accepts_def rpc_reply_is_def)

lemma jr_parse_accepts:
  assumes "rpc_accepts rj code ct from r x"
  shows "jr_parse rj code (Inr (Some ct)) from r = Inr (rpc_store x r)"
  using assms
  by (cases x) (auto simp: rpc_accepts_def rpc_reply_is_def jr_parse_def http_contentType_get_def rpc_store_def)

lemma jr_parse_Inr:
  assumes "jr_parse rj code (Inr (Some ct)) from r = Inr r'"
  shows "\<exists>x. rpc_accepts rj code ct from r x"
proof -
  obtain resp where 1: "http_responseCode code = 200" "ct = ''application/json''" "rj_parse rj from = Inr resp"
    using assms by (auto simp: jr_parse_def http_contentType_get_def rbind_eq_Inr split: if_splits)
  obtain v i where 2: "rj_find rj resp ''jsonrpc'' = Some v" "rj_find rj resp ''id'' = Some i"
    using assms 1 by (auto simp: jr_parse_def http_contentType_get_def split: option.splits if_splits)
  have 3: "rj_is_string rj v" "rj_eq rj v (rj_text rj (jr_version r))" "rj_is_number rj i" "rj_eq rj i (rj_nat rj (jr_id r))"
    using assms 1 2 by (auto simp: jr_parse_def http_contentType_get_def split: if_splits)
  have "rpc_reply_is rj (jr_id r) (jr_version r) resp
      (case rj_find rj resp ''result'' of Some w \<Rightarrow> Answer w | None \<Rightarrow> Fault (the (rj_find rj resp ''error'')))"
    using assms 1 2 3
    by (auto simp: jr_parse_def http_contentType_get_def rpc_reply_is_def split: option.splits if_splits)
  with 1 show ?thesis unfolding rpc_accepts_def by blast
qed

interpretation jr: chunk_consumer jr_write "\<lambda>_. True" id
  by unfold_locales (simp_all add: jr_write_def)

lemma jr_writes: "fold jr_write chunks r = r\<lparr>jr_buffer := jr_buffer r @ concat chunks\<rparr>"
  using jr.feed_chunks [where s = r and chunks = chunks] by (simp add: jr_write_def)

text \<open>C12: a JSON-RPC request that has got its response, in any pieces, calls its handler once, with success exactly
  when the response has code 200, JSON as its type, the version and the id of the request and exactly one of a result
  and a non-null error; it counts as successful exactly when that is a result, which it then has.\<close>

theorem jsonrpc_reply:
  assumes "tf_done r = Some h" and "jr_buffer r = []" and "\<not> jr_successed r"
  shows "let r' = jr_done rj code (Inr (Some ct)) 0 txt (fold jr_write chunks r);
             accepts = rpc_accepts rj code ct (concat chunks) r
         in (jr_successed r' \<longleftrightarrow> (\<exists>v. accepts (Answer v)))
          \<and> (\<forall>v. accepts (Answer v) \<longrightarrow> jr_result r' = v) \<and> (\<forall>e. accepts (Fault e) \<longrightarrow> jr_error r' = e)
          \<and> (\<exists>t. tf_called r' = tf_called r @ [(h, if \<exists>x. accepts x then 0 else CURLE_WEIRD_SERVER_REPLY, t)])"
proof (cases "\<exists>x. rpc_accepts rj code ct (concat chunks) r x")
  case True
  then obtain x where x: "rpc_accepts rj code ct (concat chunks) r x" by blast
  have eq: "rpc_accepts rj code ct (concat chunks) r y \<longleftrightarrow> y = x" for y
    using x rpc_accepts_unique [OF x, of y] by blast
  have "rpc_accepts rj code ct (concat chunks) (fold jr_write chunks r) x"
    using x by (simp add: jr_writes rpc_accepts_def)
  note p = jr_parse_accepts [OF this]
  show ?thesis
    unfolding Let_def eq using assms p
    by (cases x) (simp_all add: jr_done_def jr_writes transfer_done_def transfer_reset_def rpc_store_def)
next
  case False
  have "\<not> rpc_accepts rj code ct (concat chunks) (fold jr_write chunks r) x" for x
    using False by (simp add: jr_writes rpc_accepts_def)
  then obtain e where e: "jr_parse rj code (Inr (Some ct)) (concat chunks) (fold jr_write chunks r) = Inl e"
    using jr_parse_Inr by (metis sum.exhaust_sel)
  show ?thesis
    using assms e False by (simp add: jr_done_def jr_writes transfer_done_def transfer_reset_def)
qed

datatype demo_json = DNull | DNum nat | DText string | DObj "(string \<times> demo_json) list"

definition demo_rj :: "demo_json rpcjson" where
  "demo_rj =
     \<lparr>rj_parse = (\<lambda>t. if t = ''reply'' then
          Inr (DObj [(''jsonrpc'', DText ''2.0''), (''id'', DNum 5), (''result'', DText ''done'')])
        else Inl (RuntimeError ''parse error'')),
      rj_dump = (\<lambda>_. ''request''), rj_null = DNull, rj_nat = DNum, rj_text = DText, rj_object = DObj,
      rj_put = (\<lambda>j k v. case j of DObj kvs \<Rightarrow> DObj (kvs @ [(k, v)]) | _ \<Rightarrow> j),
      rj_find = (\<lambda>j k. case j of DObj kvs \<Rightarrow> map_of kvs k | _ \<Rightarrow> None),
      rj_is_string = (\<lambda>j. case j of DText _ \<Rightarrow> True | _ \<Rightarrow> False),
      rj_is_number = (\<lambda>j. case j of DNum _ \<Rightarrow> True | _ \<Rightarrow> False),
      rj_is_null = (\<lambda>j. j = DNull), rj_eq = (=), rj_int = (\<lambda>_ _ d. d), rj_str = (\<lambda>_ _. [])\<rparr>"

definition demo_request :: "demo_json jsonrpc" where
  "demo_request = (jsonrpc_new demo_rj 5 ''ping'' DNull)\<lparr>tf_done := Some 7\<rparr>"

theorem jsonrpc_reply_witness:
  "\<exists>t. tf_called (jr_done demo_rj (Inr 200) (Inr (Some ''application/json'')) 0 []
          (fold jr_write [''re'', ''ply''] demo_request)) = [(7, 0, t)]"
proof -
  have "tf_done demo_request = Some 7" "jr_buffer demo_request = []" "\<not> jr_successed demo_request"
    "tf_called demo_request = []"
    by (simp_all add: demo_request_def jsonrpc_new_def transfer.defs transfer_new_def)
  moreover have "\<exists>x. rpc_accepts demo_rj (Inr 200) ''application/json'' (concat [''re'', ''ply'']) demo_request x"
    by (rule exI [of _ "Answer (DText ''done'')"])
      (simp add: rpc_accepts_def rpc_reply_is_def demo_rj_def demo_request_def jsonrpc_new_def transfer.defs http_responseCode_def)
  ultimately show ?thesis
    using jsonrpc_reply [of demo_request 7 demo_rj "Inr 200" "''application/json''" "[]" "[''re'', ''ply'']"]
    by (simp only: Let_def if_True append_Nil) blast
qed

subsection \<open>Downloader\<close>

text \<open>A file system is a map from names to contents. \<open>dl_data\<close> is what the stream has accepted: it may still be in
  its buffer.\<close>

type_synonym files = "string \<Rightarrow> string option"

record downloader = transfer +
  dl_file :: string
  dl_tmpfile :: string
  dl_open :: bool
  dl_data :: string

definition downloader_new :: "string \<Rightarrow> downloader" where
  "downloader_new file =
     transfer.extend transfer_new \<lparr>dl_file = file, dl_tmpfile = [], dl_open = False, dl_data = []\<rparr>"

text \<open>A try has the unique name, unless there is none, and whether a file of this name could be opened.\<close>

fun dl_tries :: "nat \<Rightarrow> (string option \<times> bool) list \<Rightarrow> files \<Rightarrow> downloader \<Rightarrow> bool \<times> files \<times> downloader" where
  "dl_tries (Suc n) ((Some p, ok) # ans) fs d =
     (let d = d\<lparr>dl_tmpfile := p\<rparr>
      in if ok then (True, fs(p \<mapsto> []), d\<lparr>dl_open := True, dl_data := []\<rparr>) else dl_tries n ans fs d)"
| "dl_tries (Suc n) ((None, ok) # ans) fs d = dl_tries n ans fs d"
| "dl_tries _ _ fs d = (False, fs, d)"

definition downloader_open :: "(string option \<times> bool) list \<Rightarrow> files \<Rightarrow> downloader \<Rightarrow> bool \<times> files \<times> downloader" where
  "downloader_open ans fs d = (if dl_open d then (True, fs, d) else dl_tries 10 ans fs d)"

text \<open>\<open>ok\<close> is the state of the stream after its \<open>write\<close>; the result is the count given to the library.\<close>

definition downloader_write ::
  "(string option \<times> bool) list \<Rightarrow> bool \<Rightarrow> string \<Rightarrow> files \<times> downloader \<Rightarrow> u64 \<times> files \<times> downloader" where
  "downloader_write ans ok buf fd =
     (case downloader_open ans (fst fd) (snd fd) of
        (False, fs, d) \<Rightarrow> (word_of_nat (length buf) - 1, fs, d)
      | (True, fs, d) \<Rightarrow>
          if \<not> ok then (word_of_nat (length buf) - 1, fs, d)
          else (word_of_nat (length buf), fs, d\<lparr>dl_data := dl_data d @ buf\<rparr>))"

text \<open>Closing the stream brings its first \<open>kept\<close> characters to the disk; \<open>fail\<close> is the exception of the rename, or
  the error of the removal, which the code drops.\<close>

definition downloader_close ::
  "nat \<Rightarrow> error option \<Rightarrow> int \<Rightarrow> files \<times> downloader \<Rightarrow> error option \<times> files \<times> downloader" where
  "downloader_close kept fail err fd =
     (let fs = fst fd; d = snd fd; tmp = dl_tmpfile d in
      if \<not> dl_open d then (None, fs, d)
      else (let fs = fs(tmp \<mapsto> take kept (dl_data d)); d = d\<lparr>dl_open := False\<rparr>
            in if err = 0 then
                 (case fail of Some e \<Rightarrow> (Some e, fs, d)
                             | None \<Rightarrow> (None, (fs(tmp := None))(dl_file d := fs tmp), d))
               else (None, (case fail of Some _ \<Rightarrow> fs | None \<Rightarrow> fs(tmp := None)), d)))"

definition downloader_done ::
  "nat \<Rightarrow> error option \<Rightarrow> int \<Rightarrow> string \<Rightarrow> files \<times> downloader \<Rightarrow> files \<times> downloader" where
  "downloader_done kept fail err txt fd =
     (case downloader_close kept fail err fd of
        (Some e, fs, d) \<Rightarrow> (fs, transfer_done CURLE_WRITE_ERROR (error_what e) d)
      | (None, fs, d) \<Rightarrow> (fs, transfer_done err txt d))"

text \<open>The library hands over the data in pieces and stops the transfer when a piece is not taken as a whole.\<close>

fun downloader_receive ::
  "((string option \<times> bool) list \<times> bool \<times> string) list \<Rightarrow> files \<times> downloader \<Rightarrow> bool \<times> files \<times> downloader" where
  "downloader_receive [] fd = (True, fd)"
| "downloader_receive ((ans, ok, buf) # ps) fd =
     (case downloader_write ans ok buf fd of
        (n, fd') \<Rightarrow> if n = word_of_nat (length buf) then downloader_receive ps fd' else (False, fd'))"

definition pieces :: "((string option \<times> bool) list \<times> bool \<times> string) list \<Rightarrow> string" where
  "pieces ps = concat (map (\<lambda>(ans, ok, buf). buf) ps)"

lemma pieces_simps [simp]: "pieces [] = []" "pieces ((ans, ok, buf) # ps) = buf @ pieces ps"
  by (simp_all add: pieces_def)

text \<open>What opening and receiving leave behind.\<close>

lemma dl_tmp_same: "\<exists>p. d = d\<lparr>dl_tmpfile := p\<rparr>"
  by (rule exI [of _ "dl_tmpfile d"]) simp

lemma dl_tries_result:
  "dl_tries n ans fs d = (b, fs', d') \<Longrightarrow>
     (if b then \<exists>p. fs' = fs(p \<mapsto> []) \<and> d' = d\<lparr>dl_tmpfile := p, dl_open := True, dl_data := []\<rparr>
      else fs' = fs \<and> (\<exists>p. d' = d\<lparr>dl_tmpfile := p\<rparr>))"
proof (induction n ans fs d rule: dl_tries.induct)
  case (1 n p ok ans fs d)
  show ?case
  proof (cases ok)
    case True
    with "1.prems" show ?thesis by (auto simp: Let_def)
  next
    case False
    with "1.prems" have "dl_tries n ans fs (d\<lparr>dl_tmpfile := p\<rparr>) = (b, fs', d')" by (simp add: Let_def)
    from "1.IH" [OF refl False this] show ?thesis by (cases b) simp_all
  qed
qed (auto simp: dl_tmp_same)

lemma write_rejected: "word_of_nat n - 1 \<noteq> (word_of_nat n :: u64)"
  by simp

lemma receive_open:
  "dl_open d \<Longrightarrow> downloader_receive ps (fs, d) = (ok, fs', d') \<Longrightarrow>
     fs' = fs \<and> (\<exists>got. d' = d\<lparr>dl_data := dl_data d @ got\<rparr> \<and> (ok \<longrightarrow> got = pieces ps))"
proof (induction ps arbitrary: d)
  case (Cons p ps)
  obtain ans k buf where p: "p = (ans, k, buf)" by (cases p)
  show ?case
  proof (cases k)
    case True
    with Cons.prems p have "downloader_receive ps (fs, d\<lparr>dl_data := dl_data d @ buf\<rparr>) = (ok, fs', d')"
      by (simp add: downloader_write_def downloader_open_def)
    from Cons.IH [OF _ this] Cons.prems(1) obtain got where "fs' = fs"
      "d' = d\<lparr>dl_data := dl_data d @ buf @ got\<rparr>" "ok \<longrightarrow> got = pieces ps" by auto
    then show ?thesis using p by (auto intro: exI [of _ "buf @ got"])
  next
    case False
    with Cons.prems p have "ok = False" "fs' = fs" "d' = d"
      by (simp_all add: downloader_write_def downloader_open_def)
    then show ?thesis by (auto intro: exI [of _ "[]"])
  qed
qed simp

lemma receive_closed:
  assumes "\<not> dl_open d" and "downloader_receive ps (fs, d) = (ok, fs', d')"
  shows "(\<exists>p. fs' = fs \<and> d' = d\<lparr>dl_tmpfile := p\<rparr> \<and> (ok \<longrightarrow> ps = []))
    \<or> (\<exists>p got. fs' = fs(p \<mapsto> []) \<and> d' = d\<lparr>dl_tmpfile := p, dl_open := True, dl_data := got\<rparr>
         \<and> (ok \<longrightarrow> got = pieces ps) \<and> ps \<noteq> [])"
proof (cases ps)
  case Nil
  with assms show ?thesis by (auto intro: exI [of _ "dl_tmpfile d"])
next
  case (Cons q qs)
  obtain ans k buf where q: "q = (ans, k, buf)" by (cases q)
  obtain b fs1 d1 where t: "dl_tries 10 ans fs d = (b, fs1, d1)" by (cases "dl_tries 10 ans fs d") auto
  note r = dl_tries_result [OF t]
  show ?thesis
  proof (cases "b \<and> k")
    case True
    then obtain p where p: "fs1 = fs(p \<mapsto> [])" "d1 = d\<lparr>dl_tmpfile := p, dl_open := True, dl_data := []\<rparr>"
      using r by auto
    have "downloader_receive qs (fs1, d1\<lparr>dl_data := buf\<rparr>) = (ok, fs', d')"
      using assms True t p Cons q by (simp add: downloader_write_def downloader_open_def)
    moreover have "dl_open (d1\<lparr>dl_data := buf\<rparr>)" using p by simp
    ultimately show ?thesis using receive_open [of "d1\<lparr>dl_data := buf\<rparr>" qs fs1 ok fs' d'] p Cons q by auto
  next
    case False
    with assms t Cons q have "ok = False" "fs' = fs1" "d' = d1"
      by (auto simp: downloader_write_def downloader_open_def split: if_splits bool.splits)
    then show ?thesis using r Cons by (auto split: if_splits intro: exI [of _ "[]"])
  qed
qed

text \<open>C13: how a download ends, whatever fails on the way. The library hands over the pieces \<open>ps\<close>, and every
  result but success may follow when one was refused. Then \<open>done\<close> closes the stream, which brings the
  first \<open>kept\<close> characters to the disk. After a success with some piece the file is what reached the disk,
  which is the content unless the close lost its end, and the temporary file is gone; but when the
  rename throws, no file has appeared, the temporary one stays and the handler hears of a write error.
  After a success with no piece there is no file at all. After a failure the files are those that were there
  before, except for a temporary file that could not be removed. In each case the handler is called once.\<close>

theorem download_complete:
  assumes "\<not> dl_open d" and "tf_done d = Some h" and "downloader_receive ps (fs, d) = (ok, fd)" and "ok \<or> err \<noteq> 0"
  shows "\<exists>tmp got. let content = pieces ps; (fs', d') = downloader_done kept fail err txt fd in
     (ok \<longrightarrow> got = content)
   \<and> (err = 0 \<and> ps \<noteq> [] \<and> fail = None \<longrightarrow> fs' = (fs(tmp := None))(dl_file d \<mapsto> take kept content)
        \<and> tf_called d' = tf_called d @ [(h, 0, txt)])
   \<and> (\<forall>e. err = 0 \<and> ps \<noteq> [] \<and> fail = Some e \<longrightarrow> fs' = fs(tmp \<mapsto> take kept content)
        \<and> tf_called d' = tf_called d @ [(h, CURLE_WRITE_ERROR, error_what e)])
   \<and> (err = 0 \<and> ps = [] \<longrightarrow> fs' = fs \<and> tf_called d' = tf_called d @ [(h, 0, txt)])
   \<and> (err \<noteq> 0 \<longrightarrow> (fs' = fs \<or> fs' = fs(tmp := None) \<or> fail \<noteq> None \<and> fs' = fs(tmp \<mapsto> take kept got))
        \<and> tf_called d' = tf_called d @ [(h, err, txt)])"
proof -
  obtain fs1 d1 where fd: "fd = (fs1, d1)" by (cases fd)
  note defs = downloader_done_def downloader_close_def transfer_done_def transfer_reset_def Let_def
  consider p where "fs1 = fs" "d1 = d\<lparr>dl_tmpfile := p\<rparr>" "ok \<longrightarrow> ps = []"
    | p got where "fs1 = fs(p \<mapsto> [])" "d1 = d\<lparr>dl_tmpfile := p, dl_open := True, dl_data := got\<rparr>"
        "ok \<longrightarrow> got = pieces ps" "ps \<noteq> []"
    using receive_closed [OF assms(1) assms(3) [unfolded fd]] by blast
  then show ?thesis
  proof cases
    case 1
    then show ?thesis using assms fd by (auto simp: defs)
  next
    case 2
    show ?thesis
    proof (rule exI [of _ p], rule exI [of _ got])
      show "let content = pieces ps; (fs', d') = downloader_done kept fail err txt fd in
         (ok \<longrightarrow> got = content)
       \<and> (err = 0 \<and> ps \<noteq> [] \<and> fail = None \<longrightarrow> fs' = (fs(p := None))(dl_file d \<mapsto> take kept content)
            \<and> tf_called d' = tf_called d @ [(h, 0, txt)])
       \<and> (\<forall>e. err = 0 \<and> ps \<noteq> [] \<and> fail = Some e \<longrightarrow> fs' = fs(p \<mapsto> take kept content)
            \<and> tf_called d' = tf_called d @ [(h, CURLE_WRITE_ERROR, error_what e)])
       \<and> (err = 0 \<and> ps = [] \<longrightarrow> fs' = fs \<and> tf_called d' = tf_called d @ [(h, 0, txt)])
       \<and> (err \<noteq> 0 \<longrightarrow> (fs' = fs \<or> fs' = fs(p := None) \<or> fail \<noteq> None \<and> fs' = fs(p \<mapsto> take kept got))
            \<and> tf_called d' = tf_called d @ [(h, err, txt)])"
        using 2 assms fd by (cases fail; cases "err = 0") (simp_all add: defs)
    qed
  qed
qed

definition demo_download :: downloader where
  "demo_download = (downloader_new ''out'')\<lparr>tf_done := Some 3\<rparr>"

definition demo_pieces :: "((string option \<times> bool) list \<times> bool \<times> string) list" where
  "demo_pieces = [([(None, False), (Some ''t1'', False), (Some ''t2'', True)], True, ''ab''), ([], True, ''cd'')]"

theorem download_complete_witness:
  "\<exists>tmp d'. downloader_done 4 None 0 [] (snd (downloader_receive demo_pieces (\<lambda>_. None, demo_download)))
      = ((\<lambda>_. None)(tmp := None, ''out'' \<mapsto> ''abcd''), d') \<and> tf_called d' = [(3, 0, [])]"
proof -
  have d: "\<not> dl_open demo_download" "tf_done demo_download = Some 3" "dl_file demo_download = ''out''"
    "tf_called demo_download = []" "dl_tmpfile demo_download = []"
    by (simp_all add: demo_download_def downloader_new_def transfer.defs transfer_new_def)
  have "fst (downloader_receive demo_pieces (\<lambda>_. None, demo_download)) = True"
    by (simp add: demo_pieces_def downloader_write_def downloader_open_def d numeral_eq_Suc Let_def)
  then have r: "downloader_receive demo_pieces (\<lambda>_. None, demo_download)
      = (True, snd (downloader_receive demo_pieces (\<lambda>_. None, demo_download)))"
    by (metis prod.collapse)
  have "pieces demo_pieces = ''abcd''" "demo_pieces \<noteq> []" by (simp_all add: demo_pieces_def)
  then show ?thesis using download_complete [OF d(1,2) r, of 0 4 None "[]"] d
    by (auto simp: Let_def split: prod.splits)
qed

text \<open>A remote file without content is reported as a success, and no file appears.\<close>

lemma empty_download_no_file:
  "\<not> dl_open d \<Longrightarrow> downloader_done kept fail 0 txt (fs, d) = (fs, transfer_done 0 txt d)"
  by (simp add: downloader_done_def downloader_close_def Let_def)

text \<open>The state of the stream is not looked at after the close: what does not reach the disk then is missing in a file
  that is reported as a success.\<close>

lemma close_error_unnoticed:
  assumes "dl_open d" and "tf_done d = Some h"
  shows "fst (downloader_done kept None 0 txt (fs, d)) (dl_file d) = Some (take kept (dl_data d))"
    and "tf_called (snd (downloader_done kept None 0 txt (fs, d))) = tf_called d @ [(h, 0, txt)]"
  using assms by (simp_all add: downloader_done_def downloader_close_def Let_def transfer_done_def transfer_reset_def)

text \<open>When the rename fails the temporary file stays.\<close>

lemma rename_error_leaves_file:
  assumes "dl_open d"
  shows "fst (downloader_done kept (Some e) 0 txt (fs, d)) (dl_tmpfile d) = Some (take kept (dl_data d))"
  using assms by (simp add: downloader_done_def downloader_close_def Let_def)

subsection \<open>RemoteDirectory\<close>

text \<open>\<open>rx\<close> and \<open>lrx\<close> are the groups of a match of the two regular expressions: eight of an entry, two of a link.\<close>

record dir_regex =
  dx_entry :: "string \<Rightarrow> string list option"
  dx_link :: "string \<Rightarrow> string list option"

record dentry =
  de_name :: string
  de_link :: string
  de_owner :: string
  de_group :: string
  de_permissions :: string
  de_size :: u64
  de_df :: char

definition dentry_empty :: dentry where
  "dentry_empty =
     \<lparr>de_name = [], de_link = [], de_owner = [], de_group = [], de_permissions = [], de_size = 0, de_df = CHR 0x00\<rparr>"

definition isDirectory :: "dentry \<Rightarrow> bool" where
  "isDirectory e \<longleftrightarrow> de_df e = CHR ''d''"

definition isSymbolicLink :: "dentry \<Rightarrow> bool" where
  "isSymbolicLink e \<longleftrightarrow> de_df e = CHR ''l''"

definition isRegularFile :: "dentry \<Rightarrow> bool" where
  "isRegularFile e \<longleftrightarrow> de_df e = CHR ''-''"

text \<open>\<open>std::stoull\<close> of a run of digits.\<close>

definition stoull :: "string \<Rightarrow> u64 result" where
  "stoull s = (if digits_val s < 2 ^ 64 then Inr (word_of_nat (digits_val s)) else Inl (RuntimeError ''stoull''))"

definition dentry_parse :: "dir_regex \<Rightarrow> string \<Rightarrow> dentry result" where
  "dentry_parse dx from =
     (case dx_entry dx from of
        Some [df, perms, nitems, ow, gr, digs, date, name] \<Rightarrow>
          rbind (stoull digs) (\<lambda>n.
            let e = dentry_empty\<lparr>de_df := (case df of [] \<Rightarrow> CHR 0x00 | c # _ \<Rightarrow> c), de_permissions := perms,
                      de_owner := ow, de_group := gr, de_size := n\<rparr>
            in if \<not> isSymbolicLink e then Inr (e\<lparr>de_name := name\<rparr>)
               else (case dx_link dx name of
                       Some [n, l] \<Rightarrow> Inr (e\<lparr>de_name := n, de_link := l\<rparr>)
                     | _ \<Rightarrow> Inr e))
      | _ \<Rightarrow> Inr dentry_empty)"

record remote_dir = transfer +
  rm_buffer :: string
  rm_entries :: "dentry list"

definition remote_dir_new :: remote_dir where
  "remote_dir_new = transfer.extend transfer_new \<lparr>rm_buffer = [], rm_entries = []\<rparr>"

definition remote_dir_write :: "string \<Rightarrow> remote_dir \<Rightarrow> remote_dir" where
  "remote_dir_write buf r = r\<lparr>rm_buffer := rm_buffer r @ buf\<rparr>"

text \<open>The entries before a line that throws stay.\<close>

fun remote_dir_entries :: "dir_regex \<Rightarrow> string list \<Rightarrow> remote_dir \<Rightarrow> error option \<times> remote_dir" where
  "remote_dir_entries dx [] r = (None, r)"
| "remote_dir_entries dx (l # ls) r =
     (case dentry_parse dx l of
        Inl e \<Rightarrow> (Some e, r)
      | Inr d \<Rightarrow> remote_dir_entries dx ls (r\<lparr>rm_entries := rm_entries r @ [d]\<rparr>))"

definition remote_dir_done ::
  "dir_regex \<Rightarrow> (string \<Rightarrow> string list) \<Rightarrow> int \<Rightarrow> string \<Rightarrow> remote_dir \<Rightarrow> remote_dir" where
  "remote_dir_done dx split_lines err txt r =
     (if err = 0 then
        (case remote_dir_entries dx (split_lines (rm_buffer r)) r of
           (Some e, r) \<Rightarrow> transfer_done CURLE_FTP_BAD_FILE_LIST (error_what e) r
         | (None, r) \<Rightarrow> transfer_done err txt r)
      else transfer_done err txt r)"

interpretation rm: chunk_consumer remote_dir_write "\<lambda>_. True" id
  by unfold_locales (simp_all add: remote_dir_write_def)

lemma remote_dir_writes: "fold remote_dir_write chunks r = r\<lparr>rm_buffer := rm_buffer r @ concat chunks\<rparr>"
  using rm.feed_chunks [where s = r and chunks = chunks] by (simp add: remote_dir_write_def)

lemma remote_dir_entries_ok:
  "map (dentry_parse dx) ls = map Inr ds \<Longrightarrow> remote_dir_entries dx ls r = (None, r\<lparr>rm_entries := rm_entries r @ ds\<rparr>)"
proof (induction ls arbitrary: ds r)
  case (Cons l ls)
  then obtain d ds' where "ds = d # ds'" "dentry_parse dx l = Inr d" "map (dentry_parse dx) ls = map Inr ds'"
    by (cases ds) auto
  with Cons.IH show ?case by simp
qed simp

lemma remote_dir_entries_error:
  "map (dentry_parse dx) ls = map Inr ds @ Inl e # rest \<Longrightarrow>
     remote_dir_entries dx ls r = (Some e, r\<lparr>rm_entries := rm_entries r @ ds\<rparr>)"
proof (induction ls arbitrary: ds r)
  case (Cons l ls)
  then show ?case by (cases ds) auto
qed simp

text \<open>A line that is no entry gives an entry without a name: the exception is built, not thrown.\<close>

lemma bad_entry_accepted: "dx_entry dx l = None \<Longrightarrow> dentry_parse dx l = Inr dentry_empty"
  by (simp add: dentry_parse_def)

text \<open>So a listing fails only for a size that is too large.\<close>

lemma dentry_parse_fails: "dentry_parse dx l = Inl e \<Longrightarrow> e = RuntimeError ''stoull''"
  by (auto simp: dentry_parse_def stoull_def rbind_def Let_def split: option.splits list.splits if_splits)

text \<open>A listing that arrives in any pieces gives one entry per line, in order, and success; a line that cannot be
  taken ends it with the error of a bad list and keeps the entries before.\<close>

lemma remote_directory_lists:
  assumes "tf_done r = Some h" and "rm_buffer r = []" and "rm_entries r = []"
  shows "let r' = remote_dir_done dx split_lines 0 txt (fold remote_dir_write chunks r);
             parsed = map (dentry_parse dx) (split_lines (concat chunks))
         in (\<forall>ds. parsed = map Inr ds \<longrightarrow> rm_entries r' = ds \<and> tf_called r' = tf_called r @ [(h, 0, txt)])
          \<and> (\<forall>ds e rest. parsed = map Inr ds @ Inl e # rest \<longrightarrow>
               rm_entries r' = ds \<and> tf_called r' = tf_called r @ [(h, CURLE_FTP_BAD_FILE_LIST, error_what e)])"
  using assms
  by (auto simp: Let_def remote_dir_done_def remote_dir_writes remote_dir_entries_ok transfer_done_def transfer_reset_def
      dest!: remote_dir_entries_error [where r = "r\<lparr>rm_buffer := concat chunks\<rparr>"])

definition demo_dir :: dir_regex where
  "demo_dir =
     \<lparr>dx_entry = (\<lambda>l. if l = ''file'' then Some [''-'', ''rw-r--r--'', ''1'', ''u'', ''g'', ''12'', ''May 1 2020'', ''f''] else None),
      dx_link = (\<lambda>_. None)\<rparr>"

definition demo_split :: "string \<Rightarrow> string list" where
  "demo_split s = [takeWhile (\<lambda>c. c \<noteq> CHR 10) s, tl (dropWhile (\<lambda>c. c \<noteq> CHR 10) s)]"

lemma remote_directory_lists_witness:
  "map de_name (rm_entries (remote_dir_done demo_dir demo_split 0 []
      (fold remote_dir_write [''fi'', ''le'' @ [CHR 10] @ ''x''] (remote_dir_new\<lparr>tf_done := Some 4\<rparr>)))) = [''f'', []]"
proof -
  have r: "tf_done (remote_dir_new\<lparr>tf_done := Some 4\<rparr>) = Some 4" "rm_buffer (remote_dir_new\<lparr>tf_done := Some 4\<rparr>) = []"
    "rm_entries (remote_dir_new\<lparr>tf_done := Some 4\<rparr>) = []"
    by (simp_all add: remote_dir_new_def transfer.defs transfer_new_def)
  have "\<exists>e. map (dentry_parse demo_dir) (demo_split (concat [''fi'', ''le'' @ [CHR 10] @ ''x''])) = map Inr [e, dentry_empty]
      \<and> de_name e = ''f''"
    by (simp add: demo_split_def demo_dir_def dentry_parse_def stoull_def digits_val_def digit_val_def dentry_empty_def
        isSymbolicLink_def Let_def)
  then obtain e where e: "map (dentry_parse demo_dir) (demo_split (concat [''fi'', ''le'' @ [CHR 10] @ ''x''])) = map Inr [e, dentry_empty]"
    "de_name e = ''f''" by blast
  let ?r = "remote_dir_done demo_dir demo_split 0 []
      (fold remote_dir_write [''fi'', ''le'' @ [CHR 10] @ ''x''] (remote_dir_new\<lparr>tf_done := Some 4\<rparr>))"
  have "rm_entries ?r = [e, dentry_empty]"
    using remote_directory_lists [OF r, of demo_dir demo_split "[]" "[''fi'', ''le'' @ [CHR 10] @ ''x'']"] e(1)
    unfolding Let_def by blast
  with e(2) show ?thesis by (simp only: list.map) (simp add: dentry_empty_def)
qed

subsection \<open>The classes keep the contract of a transfer\<close>

text \<open>What \<open>done\<close> of \<open>Transfer\<close> sees of an object.\<close>

definition base_of :: "'a transfer_scheme \<Rightarrow> nat option \<times> (nat \<times> int \<times> string) list \<times> (int \<times> string) list" where
  "base_of t = (tf_done t, tf_called t, tf_posted t)"

lemma transfer_class_intro:
  assumes "\<And>err msg t. \<exists>e m t'. dn err msg t = transfer_done e m t' \<and> base_of t' = base_of t \<and> (err \<noteq> 0 \<longrightarrow> e = err \<and> m = msg)"
  shows "transfer_class dn"
proof
  fix t :: "'a transfer_scheme" and h err msg
  obtain e m t' where d: "dn err msg t = transfer_done e m t'" "base_of t' = base_of t" "err \<noteq> 0 \<longrightarrow> e = err \<and> m = msg"
    using assms by blast
  show "\<exists>e x. tf_called (dn err msg t) = tf_called t @ [(h, e, x)]" if "tf_done t = Some h"
    using d that by (simp add: base_of_def transfer_done_def transfer_reset_def)
  show "tf_called (dn err msg t) = tf_called t @ [(h, err, msg)]" if "tf_done t = Some h" "err \<noteq> 0"
    using d that by (simp add: base_of_def transfer_done_def transfer_reset_def)
  show "tf_called (dn err msg t) = tf_called t" if "tf_done t = None"
    using d that by (simp add: base_of_def transfer_done_def transfer_reset_def)
  show "tf_done (dn err msg t) = None" "tf_posted (dn err msg t) = tf_posted t"
    using d by (auto simp: base_of_def transfer_done_def transfer_reset_def split: option.split)
qed

lemma jr_parse_base: "jr_parse rj code ctype from r = Inr r' \<Longrightarrow> base_of r' = base_of r"
  by (auto simp: base_of_def jr_parse_def rbind_eq_Inr split: if_splits option.splits)

interpretation rpc: transfer_class "jr_done rj code ctype"
proof (rule transfer_class_intro)
  fix err msg and t :: "'a jsonrpc"
  show "\<exists>e m t'. jr_done rj code ctype err msg t = transfer_done e m t' \<and> base_of t' = base_of t \<and> (err \<noteq> 0 \<longrightarrow> e = err \<and> m = msg)"
    by (cases "jr_parse rj code ctype (jr_buffer t) t") (auto simp: jr_done_def dest: jr_parse_base)
qed

lemma remote_dir_entries_base: "remote_dir_entries dx ls r = (e, r') \<Longrightarrow> base_of r' = base_of r"
proof (induction ls arbitrary: r)
  case (Cons l ls)
  then show ?case by (cases "dentry_parse dx l") (fastforce simp: base_of_def)+
qed (simp add: base_of_def)

interpretation rmt: transfer_class "remote_dir_done dx split_lines"
proof (rule transfer_class_intro)
  fix err msg and t :: remote_dir
  obtain e r' where r: "remote_dir_entries dx (split_lines (rm_buffer t)) t = (e, r')" by (cases "remote_dir_entries dx (split_lines (rm_buffer t)) t")
  show "\<exists>e m t'. remote_dir_done dx split_lines err msg t = transfer_done e m t' \<and> base_of t' = base_of t
      \<and> (err \<noteq> 0 \<longrightarrow> e = err \<and> m = msg)"
    using remote_dir_entries_base [OF r] r by (cases e) (auto simp: remote_dir_done_def)
qed

lemma downloader_close_base: "downloader_close kept fail err (fs, d) = (e, fs', d') \<Longrightarrow> base_of d' = base_of d \<and> (err \<noteq> 0 \<longrightarrow> e = None)"
  by (auto simp: downloader_close_def base_of_def Let_def split: if_splits option.splits)

interpretation dwn: transfer_class "\<lambda>err msg d. snd (downloader_done kept fail err msg (fs, d))"
proof (rule transfer_class_intro)
  fix err msg d
  obtain e fs' d' where r: "downloader_close kept fail err (fs, d) = (e, fs', d')" by (cases "downloader_close kept fail err (fs, d)")
  show "\<exists>e m t'. snd (downloader_done kept fail err msg (fs, d)) = transfer_done e m t' \<and> base_of t' = base_of d
      \<and> (err \<noteq> 0 \<longrightarrow> e = err \<and> m = msg)"
    using downloader_close_base [OF r] r by (cases e) (auto simp: downloader_done_def)
qed

text \<open>What happens to a request: it is started, the library reports about it, hands it data, and the service runs a
  result that was posted. The events carry what the outside answers: \<open>'w\<close> the data, with the answers of
  the disk to a downloader, and \<open>'q\<close> what \<open>done\<close> meets.\<close>

datatype ('w, 'q) request_event = RqExec "error option" nat | RqMessage curl_msg | RqData 'w | RqRun 'q

fun request_handlers :: "('w, 'q) request_event list \<Rightarrow> nat list" where
  "request_handlers [] = []"
| "request_handlers (RqExec add h # evs) = h # request_handlers evs"
| "request_handlers (ev # evs) = request_handlers evs"

fun jr_step :: "curl_lib \<Rightarrow> (string \<Rightarrow> bool) \<Rightarrow> 'j rpcjson \<Rightarrow> (string, int result \<times> string option result) request_event
    \<Rightarrow> 'j jsonrpc \<Rightarrow> 'j jsonrpc" where
  "jr_step lib fits rj (RqExec add h) r = snd (jr_run lib fits rj add h r)"
| "jr_step lib fits rj (RqMessage m) r = transfer_dispatch lib m r"
| "jr_step lib fits rj (RqData buf) r = jr_write buf r"
| "jr_step lib fits rj (RqRun (code, ctype)) r = transfer_run_posted (jr_done rj code ctype) r"

fun remote_dir_step :: "curl_lib \<Rightarrow> dir_regex \<Rightarrow> (string \<Rightarrow> string list) \<Rightarrow> (string, unit) request_event
    \<Rightarrow> remote_dir \<Rightarrow> remote_dir" where
  "remote_dir_step lib dx split_lines (RqExec add h) r = snd (transfer_exec add h r)"
| "remote_dir_step lib dx split_lines (RqMessage m) r = transfer_dispatch lib m r"
| "remote_dir_step lib dx split_lines (RqData buf) r = remote_dir_write buf r"
| "remote_dir_step lib dx split_lines (RqRun u) r = transfer_run_posted (remote_dir_done dx split_lines) r"

fun downloader_step :: "curl_lib \<Rightarrow> ((string option \<times> bool) list \<times> bool \<times> string, nat \<times> error option) request_event
    \<Rightarrow> files \<times> downloader \<Rightarrow> files \<times> downloader" where
  "downloader_step lib (RqExec add h) (fs, d) = (fs, snd (transfer_exec add h d))"
| "downloader_step lib (RqMessage m) (fs, d) = (fs, transfer_dispatch lib m d)"
| "downloader_step lib (RqData (ans, ok, buf)) (fs, d) = snd (downloader_write ans ok buf (fs, d))"
| "downloader_step lib (RqRun (kept, fail)) (fs, d) =
     (case tf_posted d of
        [] \<Rightarrow> (fs, d)
      | p # ps \<Rightarrow> downloader_done kept fail (fst p) (snd p) (fs, d\<lparr>tf_posted := ps\<rparr>))"

lemma owed_base_of: "base_of t = base_of t' \<Longrightarrow> owed t = owed t'"
  by (simp add: base_of_def owed_def)

text \<open>A step may owe the handler it is given, no other.\<close>

lemma owed_request_steps:
  fixes step :: "('w, 'q) request_event \<Rightarrow> 's \<Rightarrow> 's" and tr :: "'s \<Rightarrow> 'a transfer_scheme"
  assumes "\<And>ev s. owed (tr (step ev s)) \<subseteq># owed (tr s) + mset (request_handlers [ev])"
    and "tf_done (tr s) = None" and "tf_called (tr s) = []"
  shows "count_list (map fst (tf_called (tr (fold step evs s)))) h \<le> count_list (request_handlers evs) h"
proof -
  have "owed (tr (fold step evs s)) \<subseteq># owed (tr s) + mset (request_handlers evs)"
  proof (induction evs arbitrary: s)
    case (Cons ev evs)
    have "mset (request_handlers (ev # evs)) = mset (request_handlers [ev]) + mset (request_handlers evs)"
      by (cases ev) simp_all
    moreover have "owed (tr (fold step evs (step ev s))) \<subseteq># owed (tr s) + mset (request_handlers [ev]) + mset (request_handlers evs)"
      using Cons.IH assms(1) [of ev s] by (meson subset_mset.add_right_mono subset_mset.order_trans)
    ultimately show ?case by (simp add: union_assoc)
  qed simp
  then have "mset (map fst (tf_called (tr (fold step evs s)))) \<subseteq># mset (request_handlers evs)"
    using assms(2,3) by (auto simp: owed_def intro: subset_mset.order_trans [OF mset_subset_eq_add_left])
  from mset_subset_eq_count [OF this, of h] show ?thesis by (simp only: count_mset)
qed

lemma owed_exec: "owed (snd (transfer_exec add h t)) \<subseteq># owed t + {#h#}"
  using base.owed_step [of lib "TeExec add h" t] by simp

lemma owed_dispatch: "owed (transfer_dispatch lib m t) = owed t"
  by (simp add: owed_def transfer_dispatch_def split: curl_msg.split)

lemma owed_writes: "owed (jr_write buf r) = owed r" "owed (remote_dir_write buf q) = owed q"
  by (simp_all add: jr_write_def remote_dir_write_def owed_def)

lemma owed_jr_step: "owed (jr_step lib fits rj ev r) \<subseteq># owed r + mset (request_handlers [ev])"
proof (cases ev)
  case (RqExec add h)
  have same: "owed (r\<lparr>jr_headers := hs\<rparr>) = owed r" for hs by (simp add: owed_def)
  have "owed (snd (transfer_exec add h (r\<lparr>jr_headers := hs\<rparr>))) \<subseteq># owed r + {#h#}" for hs
    using owed_exec [of add h "r\<lparr>jr_headers := hs\<rparr>"] by (simp add: same)
  then show ?thesis by (auto simp: RqExec jr_run_def http_start_def same split: sum.split)
next
  case (RqRun q)
  obtain code ctype where q: "q = (code, ctype)" by (cases q)
  show ?thesis using rpc.owed_step [of lib rj code ctype TeRun r] by (simp add: RqRun q)
qed (simp_all add: owed_dispatch owed_writes)

lemma owed_remote_dir_step: "owed (remote_dir_step lib dx split_lines ev r) \<subseteq># owed r + mset (request_handlers [ev])"
proof (cases ev)
  case (RqExec add h)
  then show ?thesis using owed_exec [of add h r] by simp
next
  case (RqRun q)
  then show ?thesis using rmt.owed_step [of lib dx split_lines TeRun r] by simp
qed (simp_all add: owed_dispatch owed_writes)

lemma owed_downloader_write: "owed (snd (snd (downloader_write ans ok buf fd))) = owed (snd fd)"
proof -
  obtain b fs' d' where t: "dl_tries 10 ans (fst fd) (snd fd) = (b, fs', d')" by (cases "dl_tries 10 ans (fst fd) (snd fd)")
  have "base_of d' = base_of (snd fd)" using dl_tries_result [OF t] by (auto simp: base_of_def split: if_splits)
  then have "base_of (snd (snd (downloader_write ans ok buf fd))) = base_of (snd fd)"
    using t by (cases fd) (auto simp: downloader_write_def downloader_open_def base_of_def split: bool.split)
  then show ?thesis by (rule owed_base_of)
qed

lemma owed_downloader_step: "owed (snd (downloader_step lib ev fd)) \<subseteq># owed (snd fd) + mset (request_handlers [ev])"
proof (cases fd)
  case (Pair fs d)
  show ?thesis
  proof (cases ev)
    case (RqExec add h)
    then show ?thesis using owed_exec [of add h d] by (simp add: Pair)
  next
    case (RqMessage m)
    then show ?thesis by (simp add: Pair owed_dispatch)
  next
    case (RqData w)
    then show ?thesis by (cases w) (simp add: Pair owed_downloader_write)
  next
    case (RqRun q)
    obtain kept fail where q: "q = (kept, fail)" by (cases q)
    show ?thesis
      using dwn.owed_step [of lib kept fail fs TeRun d]
      by (cases "tf_posted d") (simp_all add: RqRun q Pair transfer_run_posted_def)
  qed
qed

text \<open>C30: in any order of starts, reports of the library, pieces of data and results that are run, requests
  call a result handler at most once for each time it was given to them: JSON-RPC with its response, directory
  listings with their lines and downloads with their files alike, whatever the library and the disk answer.\<close>

theorem handlers_called_once:
  "count_list (map fst (tf_called (fold (jr_step lib fits rj) evs (jsonrpc_new rj i meth ps)))) h
     \<le> count_list (request_handlers evs) h
   \<and> count_list (map fst (tf_called (fold (remote_dir_step lib dx split_lines) evs' remote_dir_new))) h
     \<le> count_list (request_handlers evs') h
   \<and> count_list (map fst (tf_called (snd (fold (downloader_step lib) evs'' (fs, downloader_new file))))) h
     \<le> count_list (request_handlers evs'') h"
proof (intro conjI)
  show "count_list (map fst (tf_called (fold (jr_step lib fits rj) evs (jsonrpc_new rj i meth ps)))) h
     \<le> count_list (request_handlers evs) h"
    by (rule owed_request_steps [where tr = id, unfolded id_apply, OF owed_jr_step])
      (simp_all add: jsonrpc_new_def transfer.defs transfer_new_def)
  show "count_list (map fst (tf_called (fold (remote_dir_step lib dx split_lines) evs' remote_dir_new))) h
     \<le> count_list (request_handlers evs') h"
    by (rule owed_request_steps [where tr = id, unfolded id_apply, OF owed_remote_dir_step])
      (simp_all add: remote_dir_new_def transfer.defs transfer_new_def)
  show "count_list (map fst (tf_called (snd (fold (downloader_step lib) evs'' (fs, downloader_new file))))) h
     \<le> count_list (request_handlers evs'') h"
    by (rule owed_request_steps [where tr = snd, OF owed_downloader_step])
      (simp_all add: downloader_new_def transfer.defs transfer_new_def)
qed

end
