(* ===== verification/Curl_Sync.thy ===== *)
theory Curl_Sync
  imports Curl_Requests
begin

section \<open>A synchronous call on two threads (curl/syncwait, jsonrpc)\<close>

text \<open>
  \<open>JsonRPC::run(timeout)\<close> starts the request, waits on a \<open>Synchro\<close> and returns \<open>successed()\<close>, while the thread of the
  service gets the response, parses it in \<open>done\<close> and calls the handler, which calls \<open>Synchro::finish\<close>. The model
  interleaves the two threads: each takes one step between two points where the other may run. The condition
  variable may wake up on \<open>notify_all\<close>, when the time is over, or by itself.
\<close>

subsection \<open>The two threads\<close>

text \<open>Where the caller is in \<open>Synchro::wait\<close> and after it: it is to take the mutex; it has it and reads
  \<open>finished_\<close>; it is in \<open>wait_until\<close>; it was woken, \<open>True\<close> for \<open>no_timeout\<close>, and has to take the mutex
  again; it has it; \<open>wait\<close> is over and \<open>successed()\<close> is read; \<open>run\<close> has returned.\<close>

datatype call_pc = CallLock | CallCheck | CallWait | CallWoken bool | CallHave bool | CallRead | CallReturned bool

text \<open>The thread of the service: no result yet; in \<open>finish\<close>, to take the mutex; has it; to notify; done.\<close>

datatype svc_pc = SvcRun | SvcLock | SvcSet | SvcNotify | SvcDone

datatype mutex_owner = Nobody | CallerThread | ServiceThread

text \<open>\<open>sn_response\<close> and \<open>sn_spurious\<close> record the result that was delivered and whether the wait ended by itself.\<close>

record response =
  re_chunks :: "string list"
  re_code :: "int result"
  re_ctype :: "string option result"
  re_err :: int

record 'j sync =
  sn_call :: call_pc
  sn_svc :: svc_pc
  sn_mutex :: mutex_owner
  sn_finished :: bool
  sn_easy :: easy
  sn_request :: "'j jsonrpc"
  sn_response :: "response option"
  sn_spurious :: bool

text \<open>The request was started by \<open>run(handler)\<close>, the wait begins.\<close>

definition sync_start :: "easy \<Rightarrow> 'j jsonrpc \<Rightarrow> 'j sync" where
  "sync_start e r = \<lparr>sn_call = CallLock, sn_svc = SvcRun, sn_mutex = Nobody, sn_finished = False, sn_easy = e,
     sn_request = r, sn_response = None, sn_spurious = False\<rparr>"

text \<open>\<open>run(timeout)\<close> up to the wait; an exception of \<open>run(handler)\<close> leaves it.\<close>

definition jr_run_sync ::
  "curl_lib \<Rightarrow> (string \<Rightarrow> bool) \<Rightarrow> 'j rpcjson \<Rightarrow> error option \<Rightarrow> nat \<Rightarrow> easy \<Rightarrow> 'j jsonrpc \<Rightarrow> 'j sync result" where
  "jr_run_sync lib fits rj add h e r =
     (case jr_run lib fits rj add h r of (Some err, r) \<Rightarrow> Inl err | (None, r) \<Rightarrow> Inr (sync_start e r))"

definition wait_step :: "'j sync \<Rightarrow> 'j sync option" where
  "wait_step s =
     (case sn_call s of
        CallLock \<Rightarrow> if sn_mutex s = Nobody then Some (s\<lparr>sn_mutex := CallerThread, sn_call := CallCheck\<rparr>) else None
      | CallCheck \<Rightarrow> Some (s\<lparr>sn_mutex := Nobody, sn_call := (if sn_finished s then CallRead else CallWait)\<rparr>)
      | CallWait \<Rightarrow> None
      | CallWoken no_timeout \<Rightarrow>
          if sn_mutex s = Nobody then Some (s\<lparr>sn_mutex := CallerThread, sn_call := CallHave no_timeout\<rparr>) else None
      | CallHave no_timeout \<Rightarrow>
          (let s = s\<lparr>sn_mutex := Nobody, sn_call := CallRead\<rparr>
           in Some (if no_timeout \<or> sn_finished s then s else s\<lparr>sn_easy := snd (easy_cancel (sn_easy s))\<rparr>))
      | CallRead \<Rightarrow> Some (s\<lparr>sn_call := CallReturned (jr_successed (sn_request s))\<rparr>)
      | CallReturned _ \<Rightarrow> None)"

text \<open>\<open>done\<close> parses the response and calls the handler, if it is set; then the handler is in \<open>finish\<close>.\<close>

definition deliver_step :: "'j rpcjson \<Rightarrow> response \<Rightarrow> string \<Rightarrow> 'j sync \<Rightarrow> 'j sync option" where
  "deliver_step rj re txt s =
     (if sn_svc s = SvcRun then
        Some (s\<lparr>sn_request := jr_done rj (re_code re) (re_ctype re) (re_err re) txt (fold jr_write (re_chunks re) (sn_request s)),
                sn_response := Some re,
                sn_svc := (if tf_done (sn_request s) = None then SvcDone else SvcLock)\<rparr>)
      else None)"

definition finish_step :: "'j sync \<Rightarrow> 'j sync option" where
  "finish_step s =
     (case sn_svc s of
        SvcRun \<Rightarrow> None
      | SvcLock \<Rightarrow> if sn_mutex s = Nobody then Some (s\<lparr>sn_mutex := ServiceThread, sn_svc := SvcSet\<rparr>) else None
      | SvcSet \<Rightarrow> Some (s\<lparr>sn_finished := True, sn_mutex := Nobody, sn_svc := SvcNotify\<rparr>)
      | SvcNotify \<Rightarrow> Some (s\<lparr>sn_svc := SvcDone, sn_call := (if sn_call s = CallWait then CallWoken True else sn_call s)\<rparr>)
      | SvcDone \<Rightarrow> None)"

datatype sync_event = CallerStep | TimeOver | Spurious | FinishStep | Deliver response string

fun sync_do :: "'j rpcjson \<Rightarrow> sync_event \<Rightarrow> 'j sync \<Rightarrow> 'j sync option" where
  "sync_do rj CallerStep s = wait_step s"
| "sync_do rj TimeOver s = (if sn_call s = CallWait then Some (s\<lparr>sn_call := CallWoken False\<rparr>) else None)"
| "sync_do rj Spurious s = (if sn_call s = CallWait then Some (s\<lparr>sn_call := CallWoken True, sn_spurious := True\<rparr>) else None)"
| "sync_do rj FinishStep s = finish_step s"
| "sync_do rj (Deliver re txt) s = deliver_step rj re txt s"

inductive sync_step :: "'j rpcjson \<Rightarrow> 'j sync \<Rightarrow> 'j sync \<Rightarrow> bool" for rj where
  step: "sync_do rj ev s = Some s' \<Longrightarrow> sync_step rj s s'"

inductive_cases sync_stepE: "sync_step rj s s'"

lemma jr_run_sync_start:
  assumes "jr_run_sync lib fits rj add h e r0 = Inr s"
  obtains r where "s = sync_start e r" "tf_done r = Some h" "jr_buffer r = jr_buffer r0" "jr_successed r = jr_successed r0"
    "jr_id r = jr_id r0" "jr_version r = jr_version r0"
  using assms
  by (auto simp: jr_run_sync_def jr_run_def http_start_def transfer_exec_def transfer_attach_def
      split: prod.splits sum.splits option.splits if_splits)

subsection \<open>The calls end\<close>

fun call_left :: "call_pc \<Rightarrow> nat" where
  "call_left CallLock = 6"
| "call_left CallCheck = 5"
| "call_left CallWait = 4"
| "call_left (CallWoken _) = 3"
| "call_left (CallHave _) = 2"
| "call_left CallRead = 1"
| "call_left (CallReturned _) = 0"

fun svc_left :: "svc_pc \<Rightarrow> nat" where
  "svc_left SvcRun = 4"
| "svc_left SvcLock = 3"
| "svc_left SvcSet = 2"
| "svc_left SvcNotify = 1"
| "svc_left SvcDone = 0"

definition sync_left :: "'j sync \<Rightarrow> nat" where
  "sync_left s = call_left (sn_call s) + svc_left (sn_svc s)"

lemma wait_step_left: "wait_step s = Some s' \<Longrightarrow> sync_left s' < sync_left s"
  by (auto simp: wait_step_def sync_left_def Let_def split: call_pc.splits if_splits)

lemma finish_step_left: "finish_step s = Some s' \<Longrightarrow> sync_left s' < sync_left s"
  by (auto simp: finish_step_def sync_left_def split: svc_pc.splits if_splits)

lemma sync_step_left: "sync_step rj s s' \<Longrightarrow> sync_left s' < sync_left s"
proof (erule sync_stepE)
  fix ev
  assume "sync_do rj ev s = Some s'"
  then show "sync_left s' < sync_left s"
    by (cases ev) (auto simp: deliver_step_def sync_left_def split: if_splits dest: wait_step_left [unfolded sync_left_def] finish_step_left [unfolded sync_left_def])
qed

subsection \<open>What holds between the steps\<close>

definition answered :: "'j rpcjson \<Rightarrow> 'j jsonrpc \<Rightarrow> response \<Rightarrow> 'j \<Rightarrow> bool" where
  "answered rj r re v \<longleftrightarrow> re_err re = 0 \<and>
     (\<exists>ct. re_ctype re = Inr (Some ct) \<and> rpc_accepts rj (re_code re) ct (concat (re_chunks re)) r (Answer v))"

lemma jr_parse_successed:
  assumes "jr_parse rj code ctype from r = Inr r'" and "\<not> jr_successed r"
  shows "\<exists>ct x. ctype = Inr (Some ct) \<and> rpc_accepts rj code ct from r x \<and> r' = rpc_store x r"
proof -
  obtain ct where ct: "ctype = Inr (Some ct)"
    using assms(1) by (auto simp: jr_parse_def http_contentType_get_def split: if_splits sum.splits option.splits)
  then obtain x where "rpc_accepts rj code ct from r x" using assms(1) jr_parse_Inr by blast
  then show ?thesis using jr_parse_accepts [of rj code ct "from" r x] assms(1) ct by auto
qed

lemma jr_done_successed:
  assumes "\<not> jr_successed r" and "jr_buffer r = []"
  shows "let r' = jr_done rj (re_code re) (re_ctype re) (re_err re) txt (fold jr_write (re_chunks re) r)
    in (jr_successed r' \<longleftrightarrow> (\<exists>v. answered rj r re v)) \<and> (\<forall>v. answered rj r re v \<longrightarrow> jr_result r' = v)"
proof -
  let ?r = "fold jr_write (re_chunks re) r"
  have w: "jr_buffer ?r = concat (re_chunks re)" "\<not> jr_successed ?r"
    and same: "rpc_accepts rj code ct t ?r x = rpc_accepts rj code ct t r x" for code ct t x
    using assms by (simp_all add: jr_writes rpc_accepts_def)
  show ?thesis
  proof (cases "re_err re = 0")
    case False
    then show ?thesis using w by (simp add: jr_done_def answered_def transfer_done_def transfer_reset_def split: option.split)
  next
    case err: True
    show ?thesis
    proof (cases "jr_parse rj (re_code re) (re_ctype re) (jr_buffer ?r) ?r")
      case (Inl e)
      then have "\<not> answered rj r re v" for v
        using jr_parse_accepts [of rj "re_code re" _ "concat (re_chunks re)" ?r "Answer v"] w
        by (auto simp: answered_def same)
      then show ?thesis
        using Inl err w by (simp add: jr_done_def transfer_done_def transfer_reset_def split: option.split)
    next
      case (Inr r')
      then obtain ct x where x: "re_ctype re = Inr (Some ct)" "rpc_accepts rj (re_code re) ct (concat (re_chunks re)) r x"
        "r' = rpc_store x ?r"
        using jr_parse_successed [OF Inr w(2)] w(1) same by auto
      then have "answered rj r re v \<longleftrightarrow> x = Answer v" for v
        using err rpc_accepts_unique by (auto simp: answered_def)
      then show ?thesis
        using Inr err w x
        by (cases x) (simp_all add: jr_done_def rpc_store_def transfer_done_def transfer_reset_def split: option.split)
    qed
  qed
qed

text \<open>The mutex is held by the thread that is between its taking and releasing it; \<open>finished_\<close> is set exactly when
  \<open>finish\<close> has released it; nobody waits any more when all are notified.\<close>

definition sync_control :: "'j sync \<Rightarrow> bool" where
  "sync_control s \<longleftrightarrow> (sn_mutex s = CallerThread \<longleftrightarrow> sn_call s = CallCheck \<or> (\<exists>b. sn_call s = CallHave b))
     \<and> (sn_mutex s = ServiceThread \<longleftrightarrow> sn_svc s = SvcSet)
     \<and> (sn_finished s \<longleftrightarrow> sn_svc s = SvcNotify \<or> sn_svc s = SvcDone)
     \<and> \<not> (sn_svc s = SvcDone \<and> sn_call s = CallWait)"

definition sync_data :: "'j rpcjson \<Rightarrow> 'j jsonrpc \<Rightarrow> 'j sync \<Rightarrow> bool" where
  "sync_data rj r s \<longleftrightarrow>
     (case sn_response s of
        None \<Rightarrow> sn_svc s = SvcRun \<and> sn_request s = r
      | Some re \<Rightarrow> sn_svc s \<noteq> SvcRun \<and> (jr_successed (sn_request s) \<longleftrightarrow> (\<exists>v. answered rj r re v))
          \<and> (\<forall>v. answered rj r re v \<longrightarrow> jr_result (sn_request s) = v))"

text \<open>Why the caller has gone on: it found \<open>finished_\<close>, was notified, or the time was over or the wait ended by
  itself.\<close>

definition sync_caller :: "'j sync \<Rightarrow> bool" where
  "sync_caller s \<longleftrightarrow>
     (sn_call s = CallWoken True \<or> sn_call s = CallHave True \<or> sn_call s = CallRead \<longrightarrow>
        sn_finished s \<or> sn_spurious s \<or> ez_canceled (sn_easy s))
     \<and> (\<forall>b. sn_call s = CallReturned b \<longrightarrow>
        (b \<longrightarrow> jr_successed (sn_request s))
        \<and> (\<not> b \<longrightarrow> sn_spurious s \<or> ez_canceled (sn_easy s) \<or> sn_finished s \<and> \<not> jr_successed (sn_request s)))"

definition sync_inv :: "'j rpcjson \<Rightarrow> 'j jsonrpc \<Rightarrow> 'j sync \<Rightarrow> bool" where
  "sync_inv rj r s \<longleftrightarrow> sync_control s \<and> sync_data rj r s \<and> sync_caller s"

lemma sync_inv_start:
  "\<not> jr_successed r \<Longrightarrow> sync_inv rj r (sync_start e r)"
  by (simp add: sync_inv_def sync_control_def sync_data_def sync_caller_def sync_start_def)

lemma wait_step_inv:
  assumes "wait_step s = Some s'" and "sync_inv rj r s"
  shows "sync_inv rj r s'"
proof -
  have "sync_control s'"
    using assms by (auto simp: wait_step_def sync_inv_def sync_control_def Let_def split: call_pc.splits if_splits)
  moreover have "sync_data rj r s'"
    using assms by (auto simp: wait_step_def sync_inv_def sync_data_def Let_def split: call_pc.splits if_splits option.splits)
  moreover have "sync_caller s'"
    using assms by (auto simp: wait_step_def sync_inv_def sync_caller_def easy_cancel_def Let_def split: call_pc.splits if_splits)
  ultimately show ?thesis by (simp add: sync_inv_def)
qed

lemma finish_step_inv:
  assumes "finish_step s = Some s'" and "sync_inv rj r s"
  shows "sync_inv rj r s'"
proof -
  have "sync_control s'"
    using assms by (auto simp: finish_step_def sync_inv_def sync_control_def split: svc_pc.splits if_splits)
  moreover have "sync_data rj r s'"
    using assms by (auto simp: finish_step_def sync_inv_def sync_data_def split: svc_pc.splits if_splits option.splits)
  moreover have "sync_caller s'"
    using assms by (auto simp: finish_step_def sync_inv_def sync_caller_def sync_control_def split: svc_pc.splits if_splits)
  ultimately show ?thesis by (simp add: sync_inv_def)
qed

lemma deliver_step_inv:
  assumes "deliver_step rj re txt s = Some s'" and "sync_inv rj r s"
    and r: "tf_done r = Some h" "jr_buffer r = []" "\<not> jr_successed r"
  shows "sync_inv rj r s'"
proof -
  have run: "sn_svc s = SvcRun" using assms(1) by (auto simp: deliver_step_def split: if_splits)
  then have req: "sn_request s = r" using assms(2) by (auto simp: sync_inv_def sync_data_def split: option.splits)
  let ?r = "jr_done rj (re_code re) (re_ctype re) (re_err re) txt (fold jr_write (re_chunks re) r)"
  have s': "s' = s\<lparr>sn_request := ?r, sn_response := Some re, sn_svc := SvcLock\<rparr>"
    using assms(1) run req r(1) by (simp add: deliver_step_def)
  have "sync_data rj r s'"
    using jr_done_successed [OF r(3,2), of rj re "txt"] unfolding s' by (simp add: sync_data_def Let_def)
  then show ?thesis
    using assms(2) run req r(3) unfolding s' by (auto simp: sync_inv_def sync_control_def sync_caller_def)
qed

lemma sync_reach_inv:
  assumes "rtranclp (sync_step rj) (sync_start e r) s"
    and r: "tf_done r = Some h" "jr_buffer r = []" "\<not> jr_successed r"
  shows "sync_inv rj r s"
  using assms(1)
proof (induction rule: rtranclp_induct)
  case base
  show ?case using r(3) by (rule sync_inv_start)
next
  case (step s s')
  obtain ev where ev: "sync_do rj ev s = Some s'" using step.hyps(2) by (auto elim: sync_stepE)
  show ?case
  proof (cases ev)
    case TimeOver
    then show ?thesis using ev step.IH
      by (auto simp: sync_inv_def sync_control_def sync_data_def sync_caller_def split: if_splits option.splits)
  next
    case Spurious
    then show ?thesis using ev step.IH
      by (auto simp: sync_inv_def sync_control_def sync_data_def sync_caller_def split: if_splits option.splits)
  qed (use ev step.IH r in \<open>auto intro: wait_step_inv finish_step_inv deliver_step_inv\<close>)
qed

text \<open>No deadlock and no lost wake-up: until the call has returned, one of the threads can go on, unless the caller
  waits and no result has come yet.\<close>

lemma sync_progress:
  assumes "sync_control s" and "\<not> (\<exists>b. sn_call s = CallReturned b)"
  shows "(\<exists>ev \<in> {CallerStep, FinishStep}. sync_do rj ev s \<noteq> None) \<or> sn_call s = CallWait \<and> sn_svc s = SvcRun"
proof (cases "sn_mutex s")
  case ServiceThread
  then have "sync_do rj FinishStep s \<noteq> None" using assms(1) by (simp add: sync_control_def finish_step_def)
  then show ?thesis by blast
next
  case Nobody
  show ?thesis
  proof (cases "sn_call s = CallWait")
    case True
    then have "sn_svc s \<noteq> SvcRun \<Longrightarrow> sync_do rj FinishStep s \<noteq> None"
      using Nobody assms(1) by (cases "sn_svc s") (auto simp: sync_control_def finish_step_def)
    then show ?thesis using True by blast
  next
    case False
    then have "sync_do rj CallerStep s \<noteq> None"
      using Nobody assms(2) by (auto simp: wait_step_def Let_def split: call_pc.splits)
    then show ?thesis by blast
  qed
next
  case CallerThread
  then have "sync_do rj CallerStep s \<noteq> None"
    using assms(1) by (auto simp: sync_control_def wait_step_def Let_def split: call_pc.splits)
  then show ?thesis by blast
qed

text \<open>C8: the synchronous call of JSON-RPC, on two threads in any interleaving: it returns after at most ten steps of the
  two threads, and until then a thread can go on, unless the caller waits and no result has come yet: no
  wake-up is lost, the threads do not wait for each other, and the time ends a wait for nothing. It returns true only when a response came
  that answers this request, whose result it then has. When it returns false, a response came that is no
  answer, or the time was over and the request is canceled, so that the library is told to abort it, or the
  condition variable woke up by itself.\<close>

theorem sync_call_returns:
  assumes run: "jr_run_sync lib fits rj add h e r = Inr s0" and new: "jr_buffer r = []" "\<not> jr_successed r"
    and reach: "rtranclp (sync_step rj) s0 s"
  shows "(\<forall>s'. sync_step rj s s' \<longrightarrow> sync_left s' < sync_left s) \<and> sync_left s \<le> 10
    \<and> ((\<exists>b. sn_call s = CallReturned b) \<or> (\<exists>ev \<in> {CallerStep, FinishStep}. sync_do rj ev s \<noteq> None)
         \<or> sn_call s = CallWait \<and> sn_svc s = SvcRun \<and> sync_do rj TimeOver s \<noteq> None)
    \<and> (sn_call s = CallReturned True \<longrightarrow>
         (\<exists>re v. sn_response s = Some re \<and> answered rj r re v \<and> jr_result (sn_request s) = v))
    \<and> (sn_call s = CallReturned False \<longrightarrow>
         (\<exists>re. sn_response s = Some re \<and> (\<forall>v. \<not> answered rj r re v))
         \<or> ez_canceled (sn_easy s) \<and> easy_progress (Some (sn_easy s)) = -1 \<or> sn_spurious s)"
proof -
  obtain r1 where r1: "s0 = sync_start e r1" "tf_done r1 = Some h" "jr_buffer r1 = []" "\<not> jr_successed r1"
    and same: "jr_id r1 = jr_id r" "jr_version r1 = jr_version r"
    using jr_run_sync_start [OF run] new by metis
  have ans: "answered rj r1 = answered rj r" using same by (intro ext) (simp add: answered_def rpc_accepts_def)
  have inv: "sync_inv rj r1 s" using reach r1 sync_reach_inv by blast
  have left: "sync_left s \<le> 10" using reach unfolding r1(1)
    by (induction rule: rtranclp_induct) (auto simp: sync_start_def sync_left_def dest: sync_step_left [unfolded sync_left_def])
  have "(\<exists>b. sn_call s = CallReturned b) \<or> (\<exists>ev \<in> {CallerStep, FinishStep}. sync_do rj ev s \<noteq> None)
      \<or> sn_call s = CallWait \<and> sn_svc s = SvcRun \<and> sync_do rj TimeOver s \<noteq> None"
    using inv sync_progress [of s rj] by (cases "sn_call s = CallWait") (auto simp: sync_inv_def)
  moreover have "sn_call s = CallReturned True \<longrightarrow>
      (\<exists>re v. sn_response s = Some re \<and> answered rj r re v \<and> jr_result (sn_request s) = v)"
    using inv r1(4) by (auto simp: sync_inv_def sync_caller_def sync_data_def ans split: option.splits)
  moreover have "sn_call s = CallReturned False \<longrightarrow> (\<exists>re. sn_response s = Some re \<and> (\<forall>v. \<not> answered rj r re v))
      \<or> ez_canceled (sn_easy s) \<and> easy_progress (Some (sn_easy s)) = -1 \<or> sn_spurious s"
    using inv by (auto simp: sync_inv_def sync_caller_def sync_data_def sync_control_def easy_progress_def ans split: option.splits)
  ultimately show ?thesis using left sync_step_left [of rj s] by blast
qed

definition sync_run :: "'j rpcjson \<Rightarrow> sync_event list \<Rightarrow> 'j sync \<Rightarrow> 'j sync option" where
  "sync_run rj evs s = fold (\<lambda>ev s. Option.bind s (sync_do rj ev)) evs (Some s)"

lemma sync_run_reach: "sync_run rj evs s = Some s' \<Longrightarrow> rtranclp (sync_step rj) s s'"
proof (induction evs arbitrary: s)
  case (Cons ev evs)
  show ?case
  proof (cases "sync_do rj ev s")
    case None
    have "fold (\<lambda>ev s. Option.bind s (sync_do rj ev)) evs None = None" by (induction evs) simp_all
    then show ?thesis using Cons.prems None by (simp add: sync_run_def)
  next
    case (Some s1)
    then have "sync_step rj s s1" by (rule sync_step.step)
    moreover have "rtranclp (sync_step rj) s1 s'" using Cons.prems Some by (intro Cons.IH) (simp add: sync_run_def)
    ultimately show ?thesis by (rule converse_rtranclp_into_rtranclp)
  qed
qed (simp add: sync_run_def)

definition demo_easy :: easy where
  "demo_easy = \<lparr>ez_id = 5, ez_canceled = False, ez_verbose = False, ez_opts = []\<rparr>"

definition demo_curl :: curl_lib where
  "demo_curl = \<lparr>cl_setopt = (\<lambda>_. None), cl_number = (\<lambda>_. 1), cl_strerror = (\<lambda>_. [])\<rparr>"

definition demo_call :: "demo_json sync" where
  "demo_call = sync_start demo_easy (demo_request\<lparr>jr_headers := [''Content-Type: application/json''], tf_attached := True, tf_adds := 1\<rparr>)"

lemma demo_call_starts: "jr_run_sync demo_curl (\<lambda>_. True) demo_rj None 7 demo_easy demo_request = Inr demo_call"
  by (simp add: jr_run_sync_def jr_run_def http_contentType_def slist_append_def c_str_def http_start_def set_opts_ok demo_curl_def
      transfer_exec_def transfer_attach_def demo_call_def demo_request_def jsonrpc_new_def transfer.defs transfer_new_def)

lemma demo_new: "jr_buffer demo_request = []" "\<not> jr_successed demo_request"
  by (simp_all add: demo_request_def jsonrpc_new_def transfer.defs)

text \<open>The response comes while the caller waits.\<close>

definition demo_sync :: "sync_event list" where
  "demo_sync = [CallerStep, CallerStep, Deliver \<lparr>re_chunks = [''re'', ''ply''], re_code = Inr 200, re_ctype = Inr (Some ''application/json''), re_err = 0\<rparr> [],
     FinishStep, FinishStep, FinishStep, CallerStep, CallerStep, CallerStep]"

lemma demo_sync_run: "\<exists>s. sync_run demo_rj demo_sync demo_call = Some s \<and> sn_call s = CallReturned True"
proof -
  let ?r = "demo_request\<lparr>jr_headers := [''Content-Type: application/json''], tf_attached := True, tf_adds := 1\<rparr>"
  have "jr_successed (jr_done demo_rj (Inr 200) (Inr (Some ''application/json'')) 0 [] (fold jr_write [''re'', ''ply''] ?r))"
    by (simp add: jr_done_def jr_parse_def jr_write_def http_responseCode_def http_contentType_get_def demo_rj_def
        demo_request_def jsonrpc_new_def transfer.defs transfer_new_def transfer_done_def transfer_reset_def)
  moreover have "tf_done ?r = Some 7" by (simp add: demo_request_def)
  ultimately show ?thesis
    by (simp add: sync_run_def demo_sync_def demo_call_def sync_start_def wait_step_def deliver_step_def finish_step_def Let_def)
qed

theorem sync_call_returns_witness:
  "\<exists>s re v. rtranclp (sync_step demo_rj) demo_call s \<and> sn_call s = CallReturned True
    \<and> sn_response s = Some re \<and> answered demo_rj demo_request re v \<and> jr_result (sn_request s) = v"
proof -
  obtain s where s: "sync_run demo_rj demo_sync demo_call = Some s" "sn_call s = CallReturned True"
    using demo_sync_run by blast
  from sync_call_returns [OF demo_call_starts demo_new sync_run_reach [OF s(1)]] s sync_run_reach [OF s(1)]
  show ?thesis by blast
qed

subsection \<open>Two flaws of the wait\<close>

text \<open>The wait is not repeated when the condition variable wakes up by itself: the call returns false although
  the request goes on and is not canceled.\<close>

lemma sync_spurious_false:
  "\<exists>s. rtranclp (sync_step demo_rj) demo_call s \<and> sn_call s = CallReturned False
    \<and> sn_svc s = SvcRun \<and> \<not> ez_canceled (sn_easy s)"
proof -
  have "\<exists>s. sync_run demo_rj [CallerStep, CallerStep, Spurious, CallerStep, CallerStep, CallerStep] demo_call = Some s
      \<and> sn_call s = CallReturned False \<and> sn_svc s = SvcRun \<and> \<not> ez_canceled (sn_easy s)"
    using demo_new by (simp add: sync_run_def demo_call_def sync_start_def wait_step_def Let_def demo_easy_def)
  then show ?thesis using sync_run_reach by blast
qed

text \<open>After a wait that timed out \<open>successed()\<close> is read without the mutex while \<open>done\<close> may be parsing: both
  threads may take their step, and the answer of the call depends on which is first.\<close>

lemma sync_read_races:
  "\<exists>s. rtranclp (sync_step demo_rj) demo_call s \<and> sn_call s = CallRead \<and> sn_svc s = SvcRun
    \<and> ez_canceled (sn_easy s)"
proof -
  have "\<exists>s. sync_run demo_rj [CallerStep, CallerStep, TimeOver, CallerStep, CallerStep] demo_call = Some s
      \<and> sn_call s = CallRead \<and> sn_svc s = SvcRun \<and> ez_canceled (sn_easy s)"
    by (simp add: sync_run_def demo_call_def sync_start_def wait_step_def Let_def demo_easy_def easy_cancel_def)
  then show ?thesis using sync_run_reach by blast
qed

end
