(* ===== verification/Curl_Service.thy ===== *)
theory Curl_Service
  imports Curl_Transfer
begin

section \<open>The socket service: Multi, Service, TcpSocket, UdpSocket (curl/)\<close>

text \<open>
  \<open>Service\<close> drives libcurl by events: the library asks through callbacks to watch sockets and to set a timer,
  and the service calls \<open>curl_multi_socket_action\<close> when a socket is ready or the timer fires. What the library
  does in such a call is a parameter, a \<open>curl_call\<close>: the callbacks it makes, in order, its result, and the
  messages it has ready afterwards. A callback that sets the timer to zero calls the library again.
\<close>

subsection \<open>Sockets\<close>

abbreviation CURL_POLL_IN :: u32 where "CURL_POLL_IN \<equiv> 1"
abbreviation CURL_POLL_OUT :: u32 where "CURL_POLL_OUT \<equiv> 2"
abbreviation CURL_POLL_INOUT :: u32 where "CURL_POLL_INOUT \<equiv> 3"
abbreviation CURL_POLL_REMOVE :: u32 where "CURL_POLL_REMOVE \<equiv> 4"
abbreviation CURL_CSELECT_IN :: u32 where "CURL_CSELECT_IN \<equiv> 1"
abbreviation CURL_CSELECT_OUT :: u32 where "CURL_CSELECT_OUT \<equiv> 2"
abbreviation CURL_CSELECT_ERR :: u32 where "CURL_CSELECT_ERR \<equiv> 4"
abbreviation CURL_SOCKET_BAD :: int where "CURL_SOCKET_BAD \<equiv> -1"
abbreviation CURL_SOCKET_TIMEOUT :: int where "CURL_SOCKET_TIMEOUT \<equiv> -1"

unbundle bit_operations_syntax

datatype sock_kind = TcpSock | UdpSock

datatype io_status = IoOk | IoAborted | IoError string

text \<open>\<open>cs_wait\<close> are the operations that wait for the socket, each with the event mask it reports; \<open>cs_ready\<close>
  are those that have completed and whose handlers the service has yet to run.\<close>

record csock =
  cs_kind :: sock_kind
  cs_mask :: u32
  cs_wait :: "u32 list"
  cs_ready :: "(u32 \<times> io_status) list"

definition csock_new :: "sock_kind \<Rightarrow> csock" where
  "csock_new k = \<lparr>cs_kind = k, cs_mask = 0, cs_wait = [], cs_ready = []\<rparr>"

definition tcp_read :: "u32 \<Rightarrow> csock \<Rightarrow> csock" where
  "tcp_read evs s = s\<lparr>cs_wait := cs_wait s @ [evs]\<rparr>"

definition tcp_write :: "u32 \<Rightarrow> csock \<Rightarrow> csock" where
  "tcp_write evs s = s\<lparr>cs_wait := cs_wait s @ [evs]\<rparr>"

definition udp_read :: "u32 \<Rightarrow> csock \<Rightarrow> csock" where
  "udp_read evs s = s\<lparr>cs_wait := cs_wait s @ [evs]\<rparr>"

definition udp_write :: "u32 \<Rightarrow> csock \<Rightarrow> csock" where
  "udp_write evs s = s\<lparr>cs_wait := cs_wait s @ [evs]\<rparr>"

definition sock_read :: "u32 \<Rightarrow> csock \<Rightarrow> csock" where
  "sock_read evs s = (case cs_kind s of TcpSock \<Rightarrow> tcp_read evs s | UdpSock \<Rightarrow> udp_read evs s)"

definition sock_write :: "u32 \<Rightarrow> csock \<Rightarrow> csock" where
  "sock_write evs s = (case cs_kind s of TcpSock \<Rightarrow> tcp_write evs s | UdpSock \<Rightarrow> udp_write evs s)"

text \<open>Canceling completes what waits; what has completed before keeps its result.\<close>

definition sock_cancel :: "csock \<Rightarrow> csock" where
  "sock_cancel s = s\<lparr>cs_wait := [], cs_ready := cs_ready s @ map (\<lambda>m. (m, IoAborted)) (cs_wait s)\<rparr>"

definition sock_complete :: "nat \<Rightarrow> string option \<Rightarrow> csock \<Rightarrow> csock" where
  "sock_complete i err s =
     (if i < length (cs_wait s) then
        s\<lparr>cs_wait := take i (cs_wait s) @ drop (Suc i) (cs_wait s),
          cs_ready := cs_ready s @ [(cs_wait s ! i, case err of None \<Rightarrow> IoOk | Some t \<Rightarrow> IoError t)]\<rparr>
      else s)"

definition sock_idle :: "csock \<Rightarrow> bool" where
  "sock_idle s \<longleftrightarrow> cs_wait s = [] \<and> cs_ready s = []"

lemma sock_read_eq: "sock_read m s = s\<lparr>cs_wait := cs_wait s @ [m]\<rparr>"
  by (simp add: sock_read_def tcp_read_def udp_read_def split: sock_kind.split)

lemma sock_write_eq: "sock_write m s = s\<lparr>cs_wait := cs_wait s @ [m]\<rparr>"
  by (simp add: sock_write_def tcp_write_def udp_write_def split: sock_kind.split)

subsection \<open>Service\<close>

text \<open>\<open>sv_pinger\<close> says that the ping timer waits, \<open>sv_pingdue\<close> that it has expired and its handler is to run;
  \<open>sv_closed\<close> are the sockets no longer registered that live on in the handlers of their operations;
  \<open>sv_calls\<close> logs the calls of \<open>curl_multi_socket_action\<close>; \<open>sv_transfers\<close> are the transfers by number.\<close>

record service =
  sv_sockets :: "int \<Rightarrow> csock option"
  sv_closed :: "int \<Rightarrow> csock option"
  sv_timer :: "int option"
  sv_pinger :: bool
  sv_pingdue :: bool
  sv_pingerset :: bool
  sv_calls :: "(int \<times> u32) list"
  sv_transfers :: "nat \<Rightarrow> transfer option"

definition service_new :: service where
  "service_new =
     \<lparr>sv_sockets = Map.empty, sv_closed = Map.empty, sv_timer = None, sv_pinger = False, sv_pingdue = False,
      sv_pingerset = False,
      sv_calls = [], sv_transfers = Map.empty\<rparr>"

definition service_pinger :: "service \<Rightarrow> service" where
  "service_pinger sv = sv\<lparr>sv_pinger := True\<rparr>"

definition service_stop :: "service \<Rightarrow> service" where
  "service_stop sv = sv\<lparr>sv_pinger := False\<rparr>"

definition cancelTimer :: "service \<Rightarrow> service" where
  "cancelTimer sv = sv\<lparr>sv_timer := None\<rparr>"

definition rearm :: "u32 \<Rightarrow> u32 \<Rightarrow> csock \<Rightarrow> csock" where
  "rearm what prev s =
     (let s = s\<lparr>cs_mask := what\<rparr>;
          s = (if what AND CURL_POLL_IN = CURL_POLL_IN \<and> prev AND CURL_POLL_IN = 0
               then sock_read CURL_CSELECT_IN s else s)
      in if what AND CURL_POLL_OUT = CURL_POLL_OUT \<and> prev AND CURL_POLL_OUT = 0
         then sock_write CURL_CSELECT_OUT s else s)"

definition service_update :: "int \<Rightarrow> u32 \<Rightarrow> u32 \<Rightarrow> service \<Rightarrow> service" where
  "service_update fd what prev sv =
     (case sv_sockets sv fd of
        None \<Rightarrow> sv
      | Some s \<Rightarrow> sv\<lparr>sv_sockets := (sv_sockets sv)(fd \<mapsto> rearm what prev s)\<rparr>)"

text \<open>\<open>err\<close> is the exception of \<open>Multi::assign\<close>.\<close>

definition service_add :: "error option \<Rightarrow> int \<Rightarrow> u32 \<Rightarrow> service \<Rightarrow> error option \<times> service" where
  "service_add err fd what sv =
     (case sv_sockets sv fd of
        None \<Rightarrow> (None, sv)
      | Some _ \<Rightarrow> (case err of Some e \<Rightarrow> (Some e, sv) | None \<Rightarrow> (None, service_update fd what 0 sv)))"

text \<open>\<open>assigned\<close> says whether the library has a pointer for the socket, which \<open>add\<close> gave it.\<close>

definition service_action :: "error option \<Rightarrow> int \<Rightarrow> u32 \<Rightarrow> bool \<Rightarrow> service \<Rightarrow> error option \<times> service" where
  "service_action err fd what assigned sv =
     (if what = CURL_POLL_IN \<or> what = CURL_POLL_OUT \<or> what = CURL_POLL_INOUT then
        (if \<not> assigned then service_add err fd what sv
         else (None, case sv_sockets sv fd of None \<Rightarrow> sv | Some s \<Rightarrow> service_update fd what (cs_mask s) sv))
      else if what = CURL_POLL_REMOVE then
        (None, case sv_sockets sv fd of
           Some s \<Rightarrow>
             if assigned \<and> cs_mask s \<noteq> 0
             then sv\<lparr>sv_sockets := (sv_sockets sv)(fd \<mapsto> sock_cancel (s\<lparr>cs_mask := 0\<rparr>))\<rparr> else sv
         | None \<Rightarrow> sv)
      else (None, sv))"

definition service_close :: "int \<Rightarrow> service \<Rightarrow> int \<times> service" where
  "service_close fd sv =
     (case sv_sockets sv fd of
        None \<Rightarrow> (1, sv)
      | Some s \<Rightarrow>
          (0, sv\<lparr>sv_sockets := (sv_sockets sv)(fd := None),
                sv_closed := (if sock_idle s then sv_closed sv else (sv_closed sv)(fd \<mapsto> s))\<rparr>))"

definition service_options :: "int \<Rightarrow> service \<Rightarrow> int" where
  "service_options fd sv = (if sv_sockets sv fd = None then 1 else 0)"

text \<open>\<open>made\<close> is the descriptor of the new socket, or the exception of its constructor.\<close>

definition service_socket :: "int \<Rightarrow> int option \<Rightarrow> int result \<Rightarrow> service \<Rightarrow> int \<times> service" where
  "service_socket purpose socktype made sv =
     (let add = (\<lambda>k. case made of
            Inl e \<Rightarrow> (CURL_SOCKET_BAD, sv)
          | Inr fd \<Rightarrow> (fd, sv\<lparr>sv_sockets := (sv_sockets sv)(fd \<mapsto> csock_new k)\<rparr>))
      in if purpose = 0 \<or> purpose = 1 then
           (case socktype of
              Some t \<Rightarrow> if t = 2 then add UdpSock else if t = 1 then add TcpSock else (CURL_SOCKET_BAD, sv)
            | None \<Rightarrow> (CURL_SOCKET_BAD, sv))
         else (CURL_SOCKET_BAD, sv))"

subsection \<open>Multi\<close>

definition multi_opts :: "curl_opt list" where
  "multi_opts =
     [(''OPENSOCKETFUNCTION'', OFun ''socket_''), (''OPENSOCKETDATA'', OSelf), (''SOCKOPTFUNCTION'', OFun ''options_''),
      (''SOCKOPTDATA'', OSelf), (''CLOSESOCKETFUNCTION'', OFun ''close_''), (''CLOSESOCKETDATA'', OSelf)]"

definition multi_check :: "string option \<Rightarrow> string \<Rightarrow> unit result" where
  "multi_check err from =
     (case err of None \<Rightarrow> Inr () | Some txt \<Rightarrow> Inl (RuntimeError (from @ '': '' @ [CHR 39] @ txt @ [CHR 39])))"

text \<open>A message is for the transfer whose number is the private pointer of the handle, when it is set.\<close>

definition multi_dispatch :: "curl_lib \<Rightarrow> nat option \<times> curl_msg \<Rightarrow> service \<Rightarrow> service" where
  "multi_dispatch lib m sv =
     (case fst m of
        None \<Rightarrow> sv
      | Some i \<Rightarrow> sv\<lparr>sv_transfers := (sv_transfers sv)(i := map_option (transfer_dispatch lib (snd m)) (sv_transfers sv i))\<rparr>)"

definition multi_poll :: "curl_lib \<Rightarrow> (nat option \<times> curl_msg) list \<Rightarrow> service \<Rightarrow> service" where
  "multi_poll lib msgs = fold (multi_dispatch lib) msgs"

text \<open>The error text of the call and the number of running transfers are the result of a \<open>curl_call\<close>.\<close>

datatype curl_cb =
    CbAction int u32 bool "error option"
  | CbClose int
  | CbOptions int
  | CbSocket int "int option" "int result"
  | CbTimer int curl_call
and curl_call = CurlCall "curl_cb list" "string option" int "(nat option \<times> curl_msg) list"

fun curl_cb_run :: "curl_lib \<Rightarrow> curl_cb \<Rightarrow> service \<Rightarrow> error option \<times> service"
  and curl_cbs_run :: "curl_lib \<Rightarrow> curl_cb list \<Rightarrow> service \<Rightarrow> error option \<times> service"
  and multi_action :: "curl_lib \<Rightarrow> int \<Rightarrow> u32 \<Rightarrow> curl_call \<Rightarrow> service \<Rightarrow> int result \<times> service"
  and multi_timer :: "curl_lib \<Rightarrow> curl_call \<Rightarrow> service \<Rightarrow> service"
  and setTimer :: "curl_lib \<Rightarrow> int \<Rightarrow> curl_call \<Rightarrow> service \<Rightarrow> service"
where
  "curl_cb_run lib (CbAction fd what assigned err) sv = service_action err fd what assigned sv"
| "curl_cb_run lib (CbClose fd) sv = (None, snd (service_close fd sv))"
| "curl_cb_run lib (CbOptions fd) sv = (None, sv)"
| "curl_cb_run lib (CbSocket purpose socktype made) sv = (None, snd (service_socket purpose socktype made sv))"
| "curl_cb_run lib (CbTimer ms call) sv = (None, setTimer lib ms call sv)"
| "curl_cbs_run lib [] sv = (None, sv)"
| "curl_cbs_run lib (cb # cbs) sv =
     (case curl_cb_run lib cb sv of
        (Some e, sv) \<Rightarrow> (Some e, sv)
      | (None, sv) \<Rightarrow> curl_cbs_run lib cbs sv)"
| "multi_action lib fd evs (CurlCall cbs err running msgs) sv =
     (case curl_cbs_run lib cbs (sv\<lparr>sv_calls := sv_calls sv @ [(fd, evs)]\<rparr>) of
        (Some e, sv) \<Rightarrow> (Inl e, sv)
      | (None, sv) \<Rightarrow> (rbind (multi_check err ''curl_multi_socket_action()'') (\<lambda>_. Inr running), sv))"
| "multi_timer lib (CurlCall cbs err running msgs) sv =
     multi_poll lib msgs (snd (multi_action lib CURL_SOCKET_TIMEOUT 0 (CurlCall cbs err running msgs) sv))"
| "setTimer lib ms call sv =
     (let sv = (if \<not> sv_pingerset sv then (service_pinger sv)\<lparr>sv_pingerset := True\<rparr> else sv);
          sv = cancelTimer sv
      in if 0 < ms then sv\<lparr>sv_timer := Some ms\<rparr>
         else if ms = 0 then multi_timer lib call sv
         else sv)"

fun call_messages :: "curl_call \<Rightarrow> (nat option \<times> curl_msg) list" where
  "call_messages (CurlCall cbs err running msgs) = msgs"

definition multi_process :: "curl_lib \<Rightarrow> int \<Rightarrow> u32 \<Rightarrow> curl_call \<Rightarrow> service \<Rightarrow> service" where
  "multi_process lib fd evs call sv =
     multi_poll lib (call_messages call)
       (case multi_action lib fd evs call sv of
          (Inl e, sv) \<Rightarrow> sv
        | (Inr running, sv) \<Rightarrow> if running \<le> 0 then cancelTimer sv else sv)"

text \<open>Attaching a transfer sets six options and adds its handle; the library may make callbacks in that call too.\<close>

definition multi_attach ::
  "curl_lib \<Rightarrow> curl_cb list \<Rightarrow> string option \<Rightarrow> service \<Rightarrow> error option \<times> service" where
  "multi_attach lib cbs err sv =
     (case snd (set_opts lib multi_opts) of
        Inl e \<Rightarrow> (Some e, sv)
      | Inr _ \<Rightarrow>
          (case curl_cbs_run lib cbs sv of
             (Some e, sv) \<Rightarrow> (Some e, sv)
           | (None, sv) \<Rightarrow> (case multi_check err ''curl_multi_add_handle()'' of Inl e \<Rightarrow> (Some e, sv) | Inr _ \<Rightarrow> (None, sv))))"

text \<open>The static callbacks check the pointer they were registered with.\<close>

definition action_cb :: "bool \<Rightarrow> int \<Rightarrow> int" where
  "action_cb self r = (if \<not> self then -1 else r)"

definition close_cb :: "bool \<Rightarrow> int \<Rightarrow> int" where
  "close_cb self r = (if \<not> self then 1 else r)"

definition options_cb :: "bool \<Rightarrow> int \<Rightarrow> int" where
  "options_cb self r = (if \<not> self then 1 else r)"

definition setTimer_cb :: "bool \<Rightarrow> int \<Rightarrow> int" where
  "setTimer_cb self r = (if \<not> self then -1 else r)"

definition socket_cb :: "bool \<Rightarrow> int \<Rightarrow> int" where
  "socket_cb self r = (if \<not> self then CURL_SOCKET_BAD else r)"

subsection \<open>The handler of a socket\<close>

text \<open>\<open>socket_of\<close> is the object behind a descriptor, registered or only held by its handlers.\<close>

definition socket_of :: "int \<Rightarrow> service \<Rightarrow> csock option" where
  "socket_of fd sv = (case sv_sockets sv fd of Some s \<Rightarrow> Some s | None \<Rightarrow> sv_closed sv fd)"

definition put_socket :: "int \<Rightarrow> csock \<Rightarrow> service \<Rightarrow> service" where
  "put_socket fd s sv =
     (if sv_sockets sv fd \<noteq> None then sv\<lparr>sv_sockets := (sv_sockets sv)(fd \<mapsto> s)\<rparr>
      else sv\<lparr>sv_closed := (sv_closed sv)(fd \<mapsto> s)\<rparr>)"

definition drop_idle :: "int \<Rightarrow> service \<Rightarrow> service" where
  "drop_idle fd sv =
     (case sv_closed sv fd of
        Some s \<Rightarrow> if sock_idle s then sv\<lparr>sv_closed := (sv_closed sv)(fd := None)\<rparr> else sv
      | None \<Rightarrow> sv)"

text \<open>\<open>prev\<close> is read before \<open>process\<close>, in which the mask may change.\<close>

definition socket_handler :: "curl_lib \<Rightarrow> int \<Rightarrow> csock \<Rightarrow> io_status \<Rightarrow> u32 \<Rightarrow> curl_call \<Rightarrow> service \<Rightarrow> service" where
  "socket_handler lib fd s status evs call sv =
     (let err = (status \<noteq> IoOk);
          evs = (if err then evs OR CURL_CSELECT_ERR else evs);
          prev = cs_mask s;
          sv = multi_process lib fd evs call sv
      in case sv_sockets sv fd of
           Some s \<Rightarrow> if \<not> err \<and> cs_mask s \<noteq> 0 then service_update fd (cs_mask s) (prev AND NOT evs) sv else sv
         | None \<Rightarrow> sv)"

text \<open>The service takes the next completed operation of a socket; the handler of a canceled one does nothing.\<close>

definition run_handler :: "curl_lib \<Rightarrow> int \<Rightarrow> curl_call \<Rightarrow> service \<Rightarrow> service" where
  "run_handler lib fd call sv =
     (case socket_of fd sv of
        None \<Rightarrow> sv
      | Some s \<Rightarrow>
          (case cs_ready s of
             [] \<Rightarrow> sv
           | (evs, status) # rest \<Rightarrow>
               (let s = s\<lparr>cs_ready := rest\<rparr>; sv = put_socket fd s sv
                in drop_idle fd (if status = IoAborted then sv else socket_handler lib fd s status evs call sv))))"

subsection \<open>Events\<close>

datatype service_event =
    EvTransfer nat
  | EvReady int nat "string option"
  | EvHandler int curl_call
  | EvTimer curl_call
  | EvPingDue
  | EvPinger
  | EvStop
  | EvExec nat nat "curl_cb list" "string option"
  | EvPosted nat
  | EvRelease nat "curl_cb list"

definition service_exec :: "curl_lib \<Rightarrow> nat \<Rightarrow> nat \<Rightarrow> curl_cb list \<Rightarrow> string option \<Rightarrow> service \<Rightarrow> service" where
  "service_exec lib i h cbs err sv =
     (case sv_transfers sv i of
        None \<Rightarrow> sv
      | Some t \<Rightarrow>
          (case if tf_attached t then (None, sv) else multi_attach lib cbs err sv of
             (add, sv) \<Rightarrow>
               sv\<lparr>sv_transfers := (sv_transfers sv)(i := map_option (\<lambda>t. snd (transfer_exec add h t)) (sv_transfers sv i))\<rparr>))"

text \<open>The last reference to a transfer goes: its handle is removed from the multi handle. A posted result holds a
  reference.\<close>

definition multi_detach :: "curl_lib \<Rightarrow> curl_cb list \<Rightarrow> string option \<Rightarrow> service \<Rightarrow> error option \<times> service" where
  "multi_detach lib cbs err sv =
     (case curl_cbs_run lib cbs sv of
        (Some e, sv) \<Rightarrow> (Some e, sv)
      | (None, sv) \<Rightarrow>
          (case multi_check err ''curl_multi_remove_handle()'' of Inl e \<Rightarrow> (Some e, sv) | Inr _ \<Rightarrow> (None, sv)))"

definition service_release :: "curl_lib \<Rightarrow> nat \<Rightarrow> curl_cb list \<Rightarrow> service \<Rightarrow> service" where
  "service_release lib i cbs sv =
     (case sv_transfers sv i of
        None \<Rightarrow> sv
      | Some t \<Rightarrow>
          if tf_posted t \<noteq> [] then sv
          else (let sv = (if tf_attached t then snd (multi_detach lib cbs None sv) else sv)
                in sv\<lparr>sv_transfers := (sv_transfers sv)(i := None)\<rparr>))"

definition service_transfer :: "nat \<Rightarrow> service \<Rightarrow> service" where
  "service_transfer i sv =
     (if sv_transfers sv i = None then sv\<lparr>sv_transfers := (sv_transfers sv)(i \<mapsto> transfer_new)\<rparr> else sv)"

fun service_step :: "curl_lib \<Rightarrow> service_event \<Rightarrow> service \<Rightarrow> service" where
  "service_step lib (EvTransfer i) sv = service_transfer i sv"
| "service_step lib (EvReady fd i err) sv =
     (case socket_of fd sv of None \<Rightarrow> sv | Some s \<Rightarrow> put_socket fd (sock_complete i err s) sv)"
| "service_step lib (EvHandler fd call) sv = run_handler lib fd call sv"
| "service_step lib (EvTimer call) sv =
     (if sv_timer sv = None then sv else multi_timer lib call (sv\<lparr>sv_timer := None\<rparr>))"
| "service_step lib EvPingDue sv = (if sv_pinger sv then sv\<lparr>sv_pinger := False, sv_pingdue := True\<rparr> else sv)"
| "service_step lib EvPinger sv = (if sv_pingdue sv then service_pinger (sv\<lparr>sv_pingdue := False\<rparr>) else sv)"
| "service_step lib EvStop sv = service_stop sv"
| "service_step lib (EvExec i h cbs err) sv = service_exec lib i h cbs err sv"
| "service_step lib (EvPosted i) sv =
     sv\<lparr>sv_transfers := (sv_transfers sv)(i := map_option (transfer_run_posted transfer_done) (sv_transfers sv i))\<rparr>"
| "service_step lib (EvRelease i cbs) sv = service_release lib i cbs sv"

subsection \<open>What holds through every call of the library\<close>

text \<open>
  A property that the operations of the service keep one by one holds through every call of the library: its
  callbacks, nested as they come, are such operations. A call adds to the log, which is the only part of the state that
  depends on what the call is for.
\<close>

locale service_invariant =
  fixes P :: "service \<Rightarrow> bool"
  assumes inv_action: "P sv \<Longrightarrow> P (snd (service_action err fd what assigned sv))"
    and inv_close: "P sv \<Longrightarrow> P (snd (service_close fd sv))"
    and inv_socket: "P sv \<Longrightarrow> P (snd (service_socket purpose socktype made sv))"
    and inv_logged: "P sv \<Longrightarrow> P (sv\<lparr>sv_calls := sv_calls sv @ [(CURL_SOCKET_TIMEOUT, 0)]\<rparr>)"
    and inv_timer: "P sv \<Longrightarrow> \<forall>t. tm = Some t \<longrightarrow> 0 < t \<Longrightarrow> P (sv\<lparr>sv_timer := tm\<rparr>)"
    and inv_pinger: "P sv \<Longrightarrow> \<not> sv_pingerset sv \<Longrightarrow> P (sv\<lparr>sv_pinger := True, sv_pingerset := True\<rparr>)"
    and inv_transfers: "P sv \<Longrightarrow> P (sv\<lparr>sv_transfers := ts\<rparr>)"
begin

lemma inv_poll: "P sv \<Longrightarrow> P (multi_poll lib msgs sv)"
  unfolding multi_poll_def
proof (induction msgs arbitrary: sv)
  case (Cons m msgs)
  have "P (multi_dispatch lib m sv)" using Cons.prems inv_transfers by (simp add: multi_dispatch_def split: option.split)
  with Cons.IH show ?case by simp
qed simp

lemma inv_calls:
  "P sv \<Longrightarrow> P (snd (curl_cb_run lib cb sv))"
  "P sv \<Longrightarrow> P (snd (curl_cbs_run lib cbs sv))"
  "P (sv\<lparr>sv_calls := sv_calls sv @ [(fd, evs)]\<rparr>) \<Longrightarrow> P (snd (multi_action lib fd evs call sv))"
  "P sv \<Longrightarrow> P (multi_timer lib call sv)"
  "P sv \<Longrightarrow> P (setTimer lib ms call sv)"
proof (induction lib cb sv and lib cbs sv and lib fd evs call sv and lib call sv and lib ms call sv
    rule: curl_cb_run_curl_cbs_run_multi_action_multi_timer_setTimer.induct)
  case (7 lib cb cbs sv)
  then show ?case by (cases "curl_cb_run lib cb sv" rule: prod.exhaust) (auto split: option.splits)
next
  case (8 lib fd evs cbs err running msgs sv)
  from "8.IH" [OF "8.prems"] show ?case by (auto split: prod.splits option.splits)
next
  case (9 lib cbs err running msgs sv)
  from "9.IH" [OF inv_logged [OF "9.prems"]] show ?case by (simp add: inv_poll)
next
  case (10 lib ms call sv)
  let ?sv = "cancelTimer (if \<not> sv_pingerset sv then (service_pinger sv)\<lparr>sv_pingerset := True\<rparr> else sv)"
  have w: "P ?sv" using "10.prems" inv_pinger [of sv] inv_timer [of _ None] by (simp add: cancelTimer_def service_pinger_def)
  have "ms = 0 \<Longrightarrow> P (multi_timer lib call ?sv)" using "10.IH" [OF refl refl _ _ w] by simp
  with w show ?case using inv_timer [OF w, of "Some ms"] by (simp add: Let_def)
qed (simp_all add: inv_action inv_close inv_socket)

lemma inv_process:
  assumes "P (sv\<lparr>sv_calls := sv_calls sv @ [(fd, evs)]\<rparr>)"
  shows "P (multi_process lib fd evs call sv)"
proof -
  have "P (snd (multi_action lib fd evs call sv))" using assms by (rule inv_calls(3))
  then show ?thesis
    using inv_timer [of "snd (multi_action lib fd evs call sv)" None]
    by (cases "multi_action lib fd evs call sv" rule: prod.exhaust)
      (simp add: multi_process_def cancelTimer_def inv_poll split: sum.split)
qed

lemma inv_exec: "P sv \<Longrightarrow> P (service_exec lib i h cbs err sv)"
  using inv_calls(2) [of sv lib cbs]
  by (cases "curl_cbs_run lib cbs sv" rule: prod.exhaust)
    (auto simp: service_exec_def multi_attach_def split: option.split sum.split intro: inv_transfers)

lemma inv_release: "P sv \<Longrightarrow> P (service_release lib i cbs sv)"
  using inv_calls(2) [of sv lib cbs]
  by (cases "curl_cbs_run lib cbs sv" rule: prod.exhaust)
    (auto simp: service_release_def multi_detach_def Let_def split: option.split sum.split intro: inv_transfers)

lemma inv_timer_fired: "P sv \<Longrightarrow> P (multi_timer lib call (sv\<lparr>sv_timer := None\<rparr>))"
  by (rule inv_calls(4)) (simp add: inv_timer)

end

subsection \<open>Every registered socket is watched\<close>

text \<open>For every event of its mask but those of \<open>B\<close> a socket has an operation that waits or has completed well, and
  none of its operations has failed.\<close>

definition sock_watched :: "u32 set \<Rightarrow> csock \<Rightarrow> bool" where
  "sock_watched B s \<longleftrightarrow>
     (\<forall>b. (b = CURL_POLL_IN \<or> b = CURL_POLL_OUT) \<and> b \<notin> B \<and> cs_mask s AND b = b \<longrightarrow>
        b \<in> set (cs_wait s) \<or> (b, IoOk) \<in> set (cs_ready s)) \<and>
     (\<forall>m st. (m, st) \<in> set (cs_ready s) \<longrightarrow> st = IoOk \<or> st = IoAborted)"

definition watched :: "u32 set \<Rightarrow> int \<Rightarrow> service \<Rightarrow> bool" where
  "watched B fd sv \<longleftrightarrow> (\<forall>s. sv_sockets sv fd = Some s \<longrightarrow> sock_watched B s)"

lemma and_power: "(x :: u32) AND 2 ^ n = 0 \<or> x AND 2 ^ n = 2 ^ n"
proof (cases "bit x n")
  case True
  have "x AND 2 ^ n = 2 ^ n" by (rule bit_eqI) (use True in \<open>auto simp: bit_and_iff bit_exp_iff\<close>)
  then show ?thesis ..
qed (simp add: and_exp_eq_0_iff_not_bit)

lemma bit_of_mask: "b = 1 \<or> b = 2 \<Longrightarrow> (x :: u32) AND b = 0 \<or> x AND b = b"
  using and_power [of x 0] and_power [of x 1] by auto

lemma rearm_fields:
  "cs_mask (rearm what prev s) = what" "cs_ready (rearm what prev s) = cs_ready s"
  "set (cs_wait (rearm what prev s)) = set (cs_wait s) \<union> {b. (b = 1 \<or> b = 2) \<and> what AND b = b \<and> prev AND b = 0}"
  by (auto simp: rearm_def sock_read_eq sock_write_eq Let_def)

lemma rearm_watched:
  assumes "sock_watched B s" and "\<And>b. b = 1 \<or> b = 2 \<Longrightarrow> prev AND b = b \<Longrightarrow> what AND b = b \<Longrightarrow> b \<notin> B' \<Longrightarrow> b \<notin> B \<and> cs_mask s AND b = b"
  shows "sock_watched B' (rearm what prev s)"
  unfolding sock_watched_def rearm_fields
proof (intro conjI allI impI)
  fix b assume b: "(b = CURL_POLL_IN \<or> b = CURL_POLL_OUT) \<and> b \<notin> B' \<and> what AND b = b"
  show "b \<in> set (cs_wait s) \<union> {b. (b = 1 \<or> b = 2) \<and> what AND b = b \<and> prev AND b = 0} \<or> (b, IoOk) \<in> set (cs_ready s)"
    using b assms(2) [of b] assms(1) bit_of_mask [of b prev] unfolding sock_watched_def by blast
next
  fix m st assume "(m, st) \<in> set (cs_ready s)"
  with assms(1) show "st = IoOk \<or> st = IoAborted" unfolding sock_watched_def by blast
qed

lemma cancel_watched: "sock_watched B s \<Longrightarrow> sock_watched B' (sock_cancel (s\<lparr>cs_mask := 0\<rparr>))"
  by (auto simp: sock_watched_def sock_cancel_def)

lemma new_watched: "sock_watched B (csock_new k)"
  by (auto simp: sock_watched_def csock_new_def)

lemma watched_sockets: "sv_sockets sv = sv_sockets sv' \<Longrightarrow> watched B fd sv \<longleftrightarrow> watched B fd sv'"
  by (simp add: watched_def)

lemma watched_upd: "watched B fd sv \<Longrightarrow> (\<And>s. x = Some s \<Longrightarrow> fd' = fd \<Longrightarrow> sock_watched B s) \<Longrightarrow>
    watched B fd (sv\<lparr>sv_sockets := (sv_sockets sv)(fd' := x)\<rparr>)"
  by (simp add: watched_def)

text \<open>A request of the library is answered with the mask the socket has.\<close>

lemma update_watched:
  assumes "watched B fd sv" and "\<And>s b. sv_sockets sv fd' = Some s \<Longrightarrow> b = 1 \<or> b = 2 \<Longrightarrow> prev AND b = b \<Longrightarrow> cs_mask s AND b = b"
  shows "watched B fd (service_update fd' what prev sv)"
  using assms
  by (auto simp: service_update_def watched_def split: option.splits intro: rearm_watched)

lemma action_watched: "watched B fd sv \<Longrightarrow> watched B fd (snd (service_action err fd' what assigned sv))"
  by (auto simp: service_action_def service_add_def split: option.splits intro!: update_watched watched_upd)
    (auto simp: watched_def intro: cancel_watched)

lemma close_watched: "watched B fd sv \<Longrightarrow> watched B fd (snd (service_close fd' sv))"
  by (auto simp: service_close_def watched_def split: option.splits)

lemma socket_watched: "watched B fd sv \<Longrightarrow> watched B fd (snd (service_socket purpose ty made sv))"
  by (auto simp: service_socket_def watched_def Let_def new_watched split: option.splits sum.splits)

text \<open>So nothing that the library does in a call can leave a socket unwatched.\<close>

interpretation watch: service_invariant "watched B fd"
  by unfold_locales (simp_all add: action_watched close_watched socket_watched, simp_all add: watched_def)

lemma process_watched: "watched B fd sv \<Longrightarrow> watched B fd (multi_process lib fd' evs call sv)"
  by (rule watch.inv_process) (simp add: watched_def)

lemma and_not_self: "(x AND NOT b) AND b = b \<Longrightarrow> b = (0 :: u32)"
  by (simp add: and.assoc)

text \<open>The handler of an operation that ended well arms its event again, unless the mask has lost it.\<close>

lemma handler_watched_same:
  assumes "watched {b} fd sv"
  shows "watched {} fd (socket_handler lib fd s IoOk b call sv)"
proof -
  let ?sv = "multi_process lib fd b call sv"
  have w: "watched {b} fd ?sv" using assms by (rule process_watched)
  show ?thesis
  proof (cases "sv_sockets ?sv fd")
    case None
    then show ?thesis by (simp add: socket_handler_def watched_def)
  next
    case (Some s')
    with w have s': "sock_watched {b} s'" by (simp add: watched_def)
    show ?thesis
    proof (cases "cs_mask s' = 0")
      case True
      with Some s' show ?thesis by (auto simp: socket_handler_def watched_def sock_watched_def)
    next
      case False
      have "sock_watched {} (rearm (cs_mask s') (cs_mask s AND NOT b) s')"
        using and_not_self [of "cs_mask s" b] by (intro rearm_watched [OF s']) force
      with False Some show ?thesis
        by (simp add: socket_handler_def watched_def service_update_def Let_def)
    qed
  qed
qed

lemma update_other: "fd' \<noteq> fd \<Longrightarrow> watched B fd (service_update fd' what prev sv) \<longleftrightarrow> watched B fd sv"
  by (simp add: service_update_def watched_def split: option.split)

lemma handler_watched_other:
  assumes "watched B fd sv" and "fd' \<noteq> fd \<or> status \<noteq> IoOk"
  shows "watched B fd (socket_handler lib fd' s status evs call sv)"
  using assms process_watched [OF assms(1)]
  by (auto simp: socket_handler_def Let_def update_other split: option.splits)

lemma sock_watched_pop:
  assumes "sock_watched {} s" and "cs_ready s = (m, st) # rest"
  shows "st = IoOk \<and> sock_watched {m} (s\<lparr>cs_ready := rest\<rparr>) \<or> st = IoAborted \<and> sock_watched {} (s\<lparr>cs_ready := rest\<rparr>)"
  using assms unfolding sock_watched_def by (cases st) auto

lemma sock_watched_complete: "sock_watched {} s \<Longrightarrow> sock_watched {} (sock_complete i None s)"
proof -
  assume w: "sock_watched {} s"
  show ?thesis
  proof (cases "i < length (cs_wait s)")
    case True
    then have "set (cs_wait s) = set (take i (cs_wait s)) \<union> {cs_wait s ! i} \<union> set (drop (Suc i) (cs_wait s))"
      using arg_cong [OF id_take_nth_drop [OF True], of set] by (simp add: insert_commute)
    with w True show ?thesis by (auto simp: sock_watched_def sock_complete_def)
  qed (use w in \<open>simp add: sock_complete_def\<close>)
qed

lemma sock_watched_mono: "sock_watched {} s \<Longrightarrow> sock_watched B s"
  unfolding sock_watched_def by blast

lemma watched_mono: "watched {} fd sv \<Longrightarrow> watched B fd sv"
  using sock_watched_mono unfolding watched_def by blast

lemma put_watched:
  assumes "watched {} fd sv" and "socket_of fd' sv = Some s" and "fd' = fd \<Longrightarrow> sock_watched {} s \<Longrightarrow> sock_watched B s'"
  shows "watched B fd (put_socket fd' s' sv)"
proof (cases "fd' = fd")
  case True
  with assms show ?thesis
    by (cases "sv_sockets sv fd") (simp_all add: watched_def put_socket_def socket_of_def)
next
  case False
  with watched_mono [OF assms(1), of B] show ?thesis by (simp add: watched_def put_socket_def)
qed

lemma drop_idle_watched [simp]: "watched B fd (drop_idle fd' sv) \<longleftrightarrow> watched B fd sv"
  by (simp add: watched_def drop_idle_def split: option.split)

lemma run_handler_watched:
  assumes w: "watched {} fd sv"
  shows "watched {} fd (run_handler lib fd' call sv)"
proof (cases "socket_of fd' sv")
  case None
  with w show ?thesis by (simp add: run_handler_def)
next
  case (Some s)
  note s = this
  show ?thesis
  proof (cases "cs_ready s")
    case Nil
    with w s show ?thesis by (simp add: run_handler_def)
  next
    case (Cons p rest)
    obtain m st where p: "p = (m, st)" by (cases p)
    let ?s = "s\<lparr>cs_ready := rest\<rparr>"
    let ?sv = "put_socket fd' ?s sv"
    have run: "run_handler lib fd' call sv
        = drop_idle fd' (if st = IoAborted then ?sv else socket_handler lib fd' ?s st m call ?sv)"
      using s Cons p by (simp add: run_handler_def Let_def)
    show ?thesis
    proof (cases "fd' = fd \<and> st = IoOk")
      case True
      have "watched {m} fd ?sv"
        using sock_watched_pop [of s m st rest] Cons p True by (intro put_watched [OF w s]) simp
      from handler_watched_same [OF this] True show ?thesis unfolding run by simp
    next
      case False
      have "watched {} fd ?sv"
        using sock_watched_pop [of s m st rest] Cons p False by (intro put_watched [OF w s]) auto
      with False handler_watched_other [of "{}" fd ?sv fd' st] show ?thesis by (auto simp: run)
    qed
  qed
qed

lemma ready_watched:
  assumes "watched {} fd sv" and "\<not> (fd' = fd \<and> err \<noteq> None)"
  shows "watched {} fd (service_step lib (EvReady fd' i err) sv)"
proof (cases "socket_of fd' sv")
  case (Some s)
  have "watched {} fd (put_socket fd' (sock_complete i err s) sv)"
    using assms(2) sock_watched_complete by (intro put_watched [OF assms(1) Some]) auto
  with Some show ?thesis by simp
qed (use assms(1) in simp)

lemma step_watched:
  assumes "watched {} fd sv" and "\<And>i txt. ev \<noteq> EvReady fd i (Some txt)"
  shows "watched {} fd (service_step lib ev sv)"
proof (cases ev)
  case (EvReady fd' i err)
  with assms show ?thesis using ready_watched [OF assms(1), of fd' err] by (metis option.exhaust)
next
  case (EvTimer call)
  with assms(1) show ?thesis by (simp add: watch.inv_timer_fired)
qed (use assms(1) in \<open>simp_all add: run_handler_watched watch.inv_exec watch.inv_release, simp_all add: watched_def
    service_pinger_def service_stop_def service_transfer_def\<close>)

text \<open>C5: whatever the library asks for and in whatever order the operations complete, between two events every socket
  that is registered and has had no error waits for each event of its mask, or has one reported.\<close>

theorem service_watches:
  assumes "\<And>i txt. EvReady fd i (Some txt) \<notin> set evs"
    and "sv_sockets (fold (service_step lib) evs service_new) fd = Some s"
    and "b = CURL_POLL_IN \<or> b = CURL_POLL_OUT" and "cs_mask s AND b = b"
  shows "b \<in> set (cs_wait s) \<or> (b, IoOk) \<in> set (cs_ready s)"
proof -
  have "watched {} fd sv \<Longrightarrow> watched {} fd (fold (service_step lib) evs sv)" for sv
    using assms(1)
  proof (induction evs arbitrary: sv)
    case (Cons ev evs)
    have "watched {} fd (service_step lib ev sv)" using Cons.prems by (intro step_watched) auto
    with Cons show ?case by simp
  qed simp
  moreover have "watched {} fd service_new" by (simp add: watched_def service_new_def)
  ultimately have "sock_watched {} s" using assms(2) unfolding watched_def by blast
  with assms(3,4) show ?thesis unfolding sock_watched_def by blast
qed

definition demo_lib :: curl_lib where
  "demo_lib = \<lparr>cl_setopt = (\<lambda>_. None), cl_number = (\<lambda>_. 0), cl_strerror = (\<lambda>_. [])\<rparr>"

text \<open>A transfer opens a socket and asks for both events; the socket is readable, and then only writing is asked for.\<close>

definition demo_events :: "service_event list" where
  "demo_events =
     [EvTransfer 0, EvExec 0 9 [CbSocket 0 (Some 1) (Inr 5), CbAction 5 CURL_POLL_INOUT False None] None,
      EvReady 5 0 None, EvHandler 5 (CurlCall [CbAction 5 CURL_POLL_OUT True None] None 1 [])]"

lemmas service_eval = service_transfer_def service_exec_def multi_attach_def set_opts_ok service_new_def
  transfer_new_def transfer_exec_def transfer_attach_def service_socket_def service_action_def service_add_def
  service_update_def rearm_def sock_read_eq sock_write_eq csock_new_def socket_of_def put_socket_def sock_complete_def
  run_handler_def socket_handler_def multi_process_def multi_poll_def multi_check_def drop_idle_def Let_def

lemma demo_multi_opts: "set_opts demo_lib multi_opts = (multi_opts, Inr ())"
  by (rule set_opts_ok) (simp add: demo_lib_def)

lemma demo_events_run:
  "sv_sockets (fold (service_step demo_lib) demo_events service_new) 5
   = Some \<lparr>cs_kind = TcpSock, cs_mask = 2, cs_wait = [2], cs_ready = []\<rparr>"
  by (simp add: demo_events_def service_eval demo_multi_opts)

theorem service_watches_witness:
  "\<exists>s. sv_sockets (fold (service_step demo_lib) demo_events service_new) 5 = Some s \<and> cs_mask s = CURL_POLL_OUT
     \<and> (CURL_POLL_OUT \<in> set (cs_wait s) \<or> (CURL_POLL_OUT, IoOk) \<in> set (cs_ready s))"
  using service_watches [of 5 demo_events demo_lib "\<lparr>cs_kind = TcpSock, cs_mask = 2, cs_wait = [2], cs_ready = []\<rparr>" 2]
    demo_events_run
  by (simp add: demo_events_def)

text \<open>When a call for a readable socket asks for writing as well, the operation for writing is started twice: in the
  callback, and again after the call, with the mask from before it.\<close>

lemma write_armed_twice:
  "map_option cs_wait (sv_sockets (fold (service_step demo_lib)
      [EvTransfer 0, EvExec 0 9 [CbSocket 0 (Some 1) (Inr 5), CbAction 5 CURL_POLL_IN False None] None,
       EvReady 5 0 None, EvHandler 5 (CurlCall [CbAction 5 CURL_POLL_INOUT True None] None 1 [])] service_new) 5)
   = Some [CURL_CSELECT_OUT, CURL_CSELECT_IN, CURL_CSELECT_OUT]"
  by (simp add: service_eval demo_multi_opts)

text \<open>A failed operation is reported to the library and not started again; a request with the same mask does not
  start it either, so the socket stays unwatched.\<close>

lemma error_not_rearmed:
  "map_option cs_wait (sv_sockets (fold (service_step demo_lib)
      [EvTransfer 0, EvExec 0 9 [CbSocket 0 (Some 1) (Inr 5), CbAction 5 CURL_POLL_IN False None] None,
       EvReady 5 0 (Some ''reset''), EvHandler 5 (CurlCall [CbAction 5 CURL_POLL_IN True None] None 1 [])] service_new) 5)
   = Some []"
  by (simp add: service_eval demo_multi_opts)

subsection \<open>The types the state keeps\<close>

text \<open>Masks and pending operations only ever have the bits of the two events, a timer that is set is positive, and
  the ping timer runs only once it was set up.\<close>

definition sock_typed :: "csock \<Rightarrow> bool" where
  "sock_typed s \<longleftrightarrow>
     cs_mask s \<in> {0, CURL_POLL_IN, CURL_POLL_OUT, CURL_POLL_INOUT} \<and> set (cs_wait s) \<subseteq> {CURL_POLL_IN, CURL_POLL_OUT} \<and>
     fst ` set (cs_ready s) \<subseteq> {CURL_POLL_IN, CURL_POLL_OUT}"

definition service_typed :: "service \<Rightarrow> bool" where
  "service_typed sv \<longleftrightarrow>
     (\<forall>fd s. sv_sockets sv fd = Some s \<or> sv_closed sv fd = Some s \<longrightarrow> sock_typed s) \<and>
     (\<forall>t. sv_timer sv = Some t \<longrightarrow> 0 < t) \<and> (sv_pinger sv \<or> sv_pingdue sv \<longrightarrow> sv_pingerset sv)"

named_theorems typed_intros "operations that keep the state typed"

lemma rearm_typed: "sock_typed s \<Longrightarrow> what \<in> {0, 1, 2, 3} \<Longrightarrow> sock_typed (rearm what prev s)"
  unfolding sock_typed_def rearm_fields by auto

lemma cancel_typed: "sock_typed s \<Longrightarrow> sock_typed (sock_cancel (s\<lparr>cs_mask := 0\<rparr>))"
  by (auto simp: sock_typed_def sock_cancel_def)

lemma new_typed: "sock_typed (csock_new k)"
  by (simp add: sock_typed_def csock_new_def)

lemma complete_typed:
  assumes "sock_typed s"
  shows "sock_typed (sock_complete i err s)"
proof (cases "i < length (cs_wait s)")
  case True
  let ?B = "{CURL_POLL_IN, CURL_POLL_OUT}"
  have w: "set (cs_wait s) \<subseteq> ?B" using assms by (simp only: sock_typed_def)
  from True have "cs_wait s ! i \<in> ?B" using w nth_mem by (meson subsetD)
  moreover have "set (take i (cs_wait s)) \<subseteq> ?B" "set (drop (Suc i) (cs_wait s)) \<subseteq> ?B"
    using w by (meson set_take_subset set_drop_subset order_trans)+
  ultimately show ?thesis using True assms by (simp add: sock_typed_def sock_complete_def)
qed (use assms in \<open>simp add: sock_complete_def\<close>)

lemma upd_typed:
  "service_typed sv \<Longrightarrow> sock_typed s \<Longrightarrow> service_typed (sv\<lparr>sv_sockets := (sv_sockets sv)(fd \<mapsto> s)\<rparr>)"
  by (auto simp: service_typed_def)

lemma update_typed [typed_intros]:
  "service_typed sv \<Longrightarrow> what \<in> {0, 1, 2, 3} \<Longrightarrow> service_typed (service_update fd what prev sv)"
  by (auto simp: service_update_def split: option.split intro!: upd_typed rearm_typed) (auto simp: service_typed_def)

lemma typed_sockD: "service_typed sv \<Longrightarrow> sv_sockets sv fd = Some s \<Longrightarrow> sock_typed s"
  by (simp add: service_typed_def)

lemma action_typed [typed_intros]:
  assumes "service_typed sv"
  shows "service_typed (snd (service_action err fd what assigned sv))"
proof (cases "what = 1 \<or> what = 2 \<or> what = 3")
  case True
  then have "what \<in> {0, 1, 2, 3}" by blast
  with assms True show ?thesis
    by (auto simp: service_action_def service_add_def split: option.split intro: update_typed)
next
  case False
  with assms show ?thesis
    by (auto simp: service_action_def split: option.split intro: upd_typed cancel_typed typed_sockD)
qed

lemma close_typed [typed_intros]: "service_typed sv \<Longrightarrow> service_typed (snd (service_close fd sv))"
  by (auto simp: service_close_def service_typed_def split: option.split)

lemma socket_typed [typed_intros]: "service_typed sv \<Longrightarrow> service_typed (snd (service_socket purpose ty made sv))"
  by (auto simp: service_socket_def Let_def split: option.split sum.split intro!: upd_typed new_typed)

interpretation typed: service_invariant service_typed
  by unfold_locales (simp_all add: typed_intros, auto simp: service_typed_def)

lemma process_typed: "service_typed sv \<Longrightarrow> service_typed (multi_process lib fd evs call sv)"
  by (rule typed.inv_process) (simp add: service_typed_def)

lemma handler_typed: "service_typed sv \<Longrightarrow> service_typed (socket_handler lib fd s status evs call sv)"
proof -
  assume "service_typed sv"
  then have "service_typed (multi_process lib fd e call sv)" for e by (rule process_typed)
  then show ?thesis
    by (auto simp: socket_handler_def Let_def split: option.split intro!: update_typed)
      (auto simp: service_typed_def sock_typed_def)
qed

lemma put_typed: "service_typed sv \<Longrightarrow> sock_typed s \<Longrightarrow> service_typed (put_socket fd s sv)"
  by (auto simp: put_socket_def service_typed_def)

lemma drop_idle_typed: "service_typed sv \<Longrightarrow> service_typed (drop_idle fd sv)"
  by (auto simp: drop_idle_def service_typed_def split: option.split)

lemma socket_of_typed: "service_typed sv \<Longrightarrow> socket_of fd sv = Some s \<Longrightarrow> sock_typed s"
  by (auto simp: socket_of_def service_typed_def split: option.splits)

lemma run_handler_typed:
  assumes "service_typed sv"
  shows "service_typed (run_handler lib fd call sv)"
proof (cases "socket_of fd sv")
  case (Some s)
  have s: "sock_typed s" using assms Some by (rule socket_of_typed)
  show ?thesis
  proof (cases "cs_ready s")
    case (Cons p rest)
    have "service_typed (put_socket fd (s\<lparr>cs_ready := rest\<rparr>) sv)"
      using s Cons by (intro put_typed assms) (simp add: sock_typed_def)
    then show ?thesis using Some Cons
      by (cases p) (simp add: run_handler_def Let_def drop_idle_typed handler_typed)
  qed (use assms Some in \<open>simp add: run_handler_def\<close>)
qed (use assms in \<open>simp add: run_handler_def\<close>)

lemma step_typed:
  assumes "service_typed sv"
  shows "service_typed (service_step lib ev sv)"
proof (cases ev)
  case (EvReady fd i err)
  with assms show ?thesis
    by (auto split: option.split intro: put_typed complete_typed socket_of_typed)
next
  case (EvHandler fd call)
  with assms show ?thesis by (simp add: run_handler_typed)
next
  case (EvTimer call)
  with assms show ?thesis by (simp add: typed.inv_timer_fired)
next
  case (EvExec i h cbs err)
  with assms show ?thesis by (simp add: typed.inv_exec)
next
  case (EvRelease i cbs)
  with assms show ?thesis by (simp add: typed.inv_release)
next
  case EvPingDue
  with assms show ?thesis by (simp add: service_typed_def)
next
  case EvPinger
  with assms show ?thesis by (simp add: service_pinger_def service_typed_def)
next
  case EvStop
  with assms show ?thesis by (simp add: service_stop_def service_typed_def)
qed (use assms typed.inv_transfers in \<open>simp_all add: service_transfer_def\<close>)

text \<open>C39: in every state that the service reaches, the mask of a socket and the operations it has started carry no
  other bits than those of the two events, a timer that is set is positive, and the ping timer runs only once it was
  set up: what the library is told about a socket is always a set of events it knows.\<close>

theorem service_stays_typed: "service_typed (fold (service_step lib) evs service_new)"
proof -
  have "service_typed sv \<Longrightarrow> service_typed (fold (service_step lib) evs sv)" for sv
    by (induction evs arbitrary: sv) (simp_all add: step_typed)
  moreover have "service_typed service_new" by (simp add: service_typed_def service_new_def)
  ultimately show ?thesis by blast
qed

subsection \<open>What the library is told\<close>

text \<open>A handler of a socket calls the library once, with the event of its operation, and the error bit when it
  failed; the calls that follow it come from timers the library sets to zero. \<open>is_timer\<close> says which those are.\<close>

definition is_timer :: "int \<times> u32 \<Rightarrow> bool" where
  "is_timer c \<longleftrightarrow> c = (CURL_SOCKET_TIMEOUT, 0)"

definition tells :: "(int \<times> u32) list \<Rightarrow> service \<Rightarrow> bool" where
  "tells cs sv \<longleftrightarrow> (\<exists>ts. sv_calls sv = cs @ ts \<and> (\<forall>c \<in> set ts. is_timer c))"

lemma calls_same [simp]:
  "sv_calls (service_update fd what prev sv) = sv_calls sv"
  "sv_calls (snd (service_action err fd what assigned sv)) = sv_calls sv"
  "sv_calls (snd (service_close fd sv)) = sv_calls sv" "sv_calls (snd (service_socket purpose ty made sv)) = sv_calls sv"
proof -
  show u: "sv_calls (service_update fd what prev sv) = sv_calls sv" for fd what prev sv
    by (simp add: service_update_def split: option.split)
  show "sv_calls (snd (service_action err fd what assigned sv)) = sv_calls sv"
    by (auto simp: service_action_def service_add_def u split: option.split)
qed (auto simp: service_close_def service_socket_def Let_def split: option.split sum.split)

lemma tells_timer: "tells cs sv \<Longrightarrow> tells cs (sv\<lparr>sv_calls := sv_calls sv @ [(CURL_SOCKET_TIMEOUT, 0)]\<rparr>)"
  unfolding tells_def is_timer_def by fastforce

interpretation told: service_invariant "tells cs"
  by unfold_locales (simp_all add: tells_timer, simp_all add: tells_def)

lemma put_calls [simp]: "sv_calls (put_socket fd s sv) = sv_calls sv"
  by (simp add: put_socket_def)

lemma drop_idle_calls [simp]: "sv_calls (drop_idle fd sv) = sv_calls sv"
  by (simp add: drop_idle_def split: option.split)

lemma process_tells: "tells (sv_calls sv @ [(fd, evs)]) (multi_process lib fd evs call sv)"
  by (rule told.inv_process) (simp add: tells_def)

text \<open>When the service runs the handler of an operation that was not canceled, the library is told the event of
  this operation for this socket exactly once, with the error bit exactly when the operation failed, before it is told
  anything else; a canceled operation tells it nothing.\<close>

lemma readiness_reported:
  assumes "socket_of fd sv = Some s" and "cs_ready s = (b, st) # rest"
  shows "if st = IoAborted then sv_calls (run_handler lib fd call sv) = sv_calls sv
    else (\<exists>ts. sv_calls (run_handler lib fd call sv)
        = sv_calls sv @ [(fd, if st = IoOk then b else b OR CURL_CSELECT_ERR)] @ ts \<and> (\<forall>c \<in> set ts. is_timer c))"
proof -
  let ?sv = "put_socket fd (s\<lparr>cs_ready := rest\<rparr>) sv"
  have "sv_calls (socket_handler lib fd s' st b call ?sv)
      = sv_calls (multi_process lib fd (if st = IoOk then b else b OR CURL_CSELECT_ERR) call ?sv)" for s'
    by (simp add: socket_handler_def Let_def split: option.split)
  with process_tells [of ?sv fd "if st = IoOk then b else b OR CURL_CSELECT_ERR" lib call] assms show ?thesis
    by (auto simp: run_handler_def Let_def tells_def)
qed

lemma readiness_reported_witness:
  "\<exists>ts. sv_calls (run_handler demo_lib 5 (CurlCall [] None 1 [])
      (service_new\<lparr>sv_sockets := [5 \<mapsto> (csock_new TcpSock)\<lparr>cs_ready := [(1, IoError ''reset'')]\<rparr>]\<rparr>)) = [(5, 1 OR 4)] @ ts
     \<and> (\<forall>c \<in> set ts. is_timer c)"
  using readiness_reported [of 5 "service_new\<lparr>sv_sockets := [5 \<mapsto> (csock_new TcpSock)\<lparr>cs_ready := [(1, IoError ''reset'')]\<rparr>]\<rparr>"
      "(csock_new TcpSock)\<lparr>cs_ready := [(1, IoError ''reset'')]\<rparr>" 1 "IoError ''reset''" "[]" demo_lib "CurlCall [] None 1 []"]
  by (simp add: socket_of_def service_new_def)

subsection \<open>From the library to the handler of the user\<close>

definition results_for :: "nat \<Rightarrow> (nat option \<times> curl_msg) list \<Rightarrow> int list" where
  "results_for i msgs =
     concat (map (\<lambda>m. case m of (Some j, MsgDone r) \<Rightarrow> if j = i then [r] else [] | _ \<Rightarrow> []) msgs)"

lemma transfer_dispatch_fun:
  "transfer_dispatch lib (MsgDone r) = (\<lambda>t. t\<lparr>tf_posted := tf_posted t @ [(r, cl_strerror lib r)]\<rparr>)"
  "transfer_dispatch lib MsgOther = (\<lambda>t. t)"
  by (simp_all add: transfer_dispatch_def fun_eq_iff)

lemma dispatch_posted:
  "sv_transfers (multi_dispatch lib m sv) i =
     map_option (\<lambda>t. t\<lparr>tf_posted := tf_posted t @ map (\<lambda>r. (r, cl_strerror lib r)) (results_for i [m])\<rparr>) (sv_transfers sv i)"
proof (cases m)
  case (Pair j c)
  show ?thesis
    unfolding Pair by (cases j; cases c)
      (simp_all add: multi_dispatch_def transfer_dispatch_fun results_for_def map_option.id [unfolded id_def])
qed

lemma poll_posted:
  "sv_transfers (multi_poll lib msgs sv) i =
     map_option (\<lambda>t. t\<lparr>tf_posted := tf_posted t @ map (\<lambda>r. (r, cl_strerror lib r)) (results_for i msgs)\<rparr>) (sv_transfers sv i)"
proof (induction msgs arbitrary: sv)
  case Nil
  then show ?case by (simp add: multi_poll_def results_for_def map_option.id [unfolded id_def])
next
  case (Cons m msgs)
  have "multi_poll lib (m # msgs) sv = multi_poll lib msgs (multi_dispatch lib m sv)" by (simp add: multi_poll_def)
  moreover have "results_for i (m # msgs) = results_for i [m] @ results_for i msgs" by (simp add: results_for_def)
  ultimately show ?case
    using Cons by (simp add: dispatch_posted option.map_comp comp_def)
qed

lemma posted_without_handler:
  "sv_transfers sv i = Some t \<Longrightarrow> tf_done t = None \<Longrightarrow> n = length (tf_posted t) \<Longrightarrow>
     map_option tf_called (sv_transfers (fold (service_step lib) (replicate n (EvPosted i)) sv) i) = Some (tf_called t)"
proof (induction n arbitrary: sv t)
  case (Suc n)
  then obtain p ps where p: "tf_posted t = p # ps" by (cases "tf_posted t") auto
  let ?t = "transfer_run_posted transfer_done t"
  have "sv_transfers (service_step lib (EvPosted i) sv) i = Some ?t" using Suc.prems by simp
  moreover have "tf_done ?t = None" "n = length (tf_posted ?t)" "tf_called ?t = tf_called t"
    using Suc.prems p by (simp_all add: transfer_run_posted_def transfer_done_def transfer_reset_def)
  ultimately show ?case using Suc.IH [of "service_step lib (EvPosted i) sv" ?t] by simp
qed simp

text \<open>C28: the first result that the library reports for a transfer reaches the handler of its user, once, with the
  code and its text, when the service has run what was posted; results reported after it call nothing.\<close>

theorem result_delivered:
  assumes "sv_transfers sv i = Some t" and "tf_done t = Some h" and "tf_posted t = []"
    and "results_for i msgs = r # rs"
  shows "map_option tf_called (sv_transfers
      (fold (service_step lib) (replicate (Suc (length rs)) (EvPosted i)) (multi_poll lib msgs sv)) i)
    = Some (tf_called t @ [(h, r, cl_strerror lib r)])"
proof -
  let ?sv = "service_step lib (EvPosted i) (multi_poll lib msgs sv)"
  let ?t = "transfer_done r (cl_strerror lib r) (t\<lparr>tf_posted := map (\<lambda>r. (r, cl_strerror lib r)) rs\<rparr>)"
  have "sv_transfers ?sv i = Some ?t"
    using assms by (simp add: poll_posted transfer_run_posted_def)
  moreover have "tf_done ?t = None" "length rs = length (tf_posted ?t)" "tf_called ?t = tf_called t @ [(h, r, cl_strerror lib r)]"
    using assms by (simp_all add: transfer_done_def transfer_reset_def)
  ultimately show ?thesis using posted_without_handler [of ?sv i ?t "length rs" lib] by simp
qed

theorem result_delivered_witness:
  "map_option tf_called (sv_transfers (fold (service_step demo_lib) [EvPosted 0]
      (multi_poll demo_lib [(Some 1, MsgDone 3), (Some 0, MsgOther), (Some 0, MsgDone 28)]
        (service_new\<lparr>sv_transfers := [0 \<mapsto> transfer_new\<lparr>tf_done := Some 9\<rparr>]\<rparr>))) 0) = Some [(9, 28, [])]"
  using result_delivered [of "service_new\<lparr>sv_transfers := [0 \<mapsto> transfer_new\<lparr>tf_done := Some 9\<rparr>]\<rparr>" 0
      "transfer_new\<lparr>tf_done := Some 9\<rparr>" 9 "[(Some 1, MsgDone 3), (Some 0, MsgOther), (Some 0, MsgDone 28)]" 28 "[]" demo_lib]
  by (simp add: results_for_def transfer_new_def demo_lib_def)

end
