(* ===== verification/Curl_Handles.thy ===== *)
theory Curl_Handles
  imports Curl_Service
begin

section \<open>Handles of libcurl: options, defaults, and who cleans up what (curl/easy, multi, transfer, service)\<close>

text \<open>
  The options of a handle after it was made, the defaults of the virtual functions of \<open>Easy\<close>, and the life
  of the handles: \<open>Easy\<close> owns an easy handle, \<open>Transfer\<close> adds it to the multi handle of its service and
  removes it, \<open>Multi\<close> owns the multi handle. What the program does is the log of its calls of libcurl;
  the rules libcurl documents for those calls are a monitor of the log.
\<close>

subsection \<open>Options\<close>

definition easy_set_opt :: "curl_lib \<Rightarrow> curl_opt \<Rightarrow> easy \<Rightarrow> unit result \<times> easy" where
  "easy_set_opt lib opt e =
     (case easy_set lib opt of
        Inl err \<Rightarrow> (Inl err, e)
      | Inr _ \<Rightarrow> (Inr (), e\<lparr>ez_opts := ez_opts e @ [opt]\<rparr>))"

definition easy_xprogress :: "curl_lib \<Rightarrow> bool \<Rightarrow> easy \<Rightarrow> unit result \<times> easy" where
  "easy_xprogress lib enable = easy_set_opt lib (''NOPROGRESS'', bool_opt (\<not> enable))"

definition easy_timeout :: "curl_lib \<Rightarrow> u64 \<Rightarrow> easy \<Rightarrow> unit result \<times> easy" where
  "easy_timeout lib timeout = easy_set_opt lib (''TIMEOUT_MS'', OLong (sint timeout))"

definition easy_verbose :: "curl_lib \<Rightarrow> bool \<Rightarrow> easy \<Rightarrow> unit result \<times> easy" where
  "easy_verbose lib enable e =
     (case easy_set_opt lib (''VERBOSE'', bool_opt enable) e of
        (Inl err, e) \<Rightarrow> (Inl err, e)
      | (Inr _, e) \<Rightarrow> (Inr (), e\<lparr>ez_verbose := enable\<rparr>))"

definition loginOptions :: "curl_lib \<Rightarrow> string \<Rightarrow> easy \<Rightarrow> unit result \<times> easy" where
  "loginOptions lib s = easy_set_opt lib (''LOGIN_OPTIONS'', OText (c_str s))"

definition keyPassword :: "curl_lib \<Rightarrow> string \<Rightarrow> easy \<Rightarrow> unit result \<times> easy" where
  "keyPassword lib s = easy_set_opt lib (''KEYPASSWD'', OText (c_str s))"

definition noBODY :: "curl_lib \<Rightarrow> bool \<Rightarrow> easy \<Rightarrow> unit result \<times> easy" where
  "noBODY lib b = easy_set_opt lib (''NOBODY'', bool_opt b)"

definition sshPrivateKey :: "curl_lib \<Rightarrow> string \<Rightarrow> easy \<Rightarrow> unit result \<times> easy" where
  "sshPrivateKey lib s = easy_set_opt lib (''SSH_PRIVATE_KEYFILE'', OText (c_str s))"

definition sshPublicKey :: "curl_lib \<Rightarrow> string \<Rightarrow> easy \<Rightarrow> unit result \<times> easy" where
  "sshPublicKey lib s = easy_set_opt lib (''SSH_PUBLIC_KEYFILE'', OText (c_str s))"

definition set_url :: "curl_lib \<Rightarrow> string \<Rightarrow> easy \<Rightarrow> unit result \<times> easy" where
  "set_url lib s = easy_set_opt lib (''URL'', OText (c_str s))"

definition userName :: "curl_lib \<Rightarrow> string \<Rightarrow> easy \<Rightarrow> unit result \<times> easy" where
  "userName lib s = easy_set_opt lib (''USERNAME'', OText (c_str s))"

definition userPassword :: "curl_lib \<Rightarrow> string \<Rightarrow> easy \<Rightarrow> unit result \<times> easy" where
  "userPassword lib s = easy_set_opt lib (''PASSWORD'', OText (c_str s))"

definition quote :: "curl_lib \<Rightarrow> string list \<Rightarrow> easy \<Rightarrow> unit result \<times> easy" where
  "quote lib commands = easy_set_opt lib (''QUOTE'', OList commands)"

text \<open>The value the library works with is the last one set.\<close>

definition effective_opt :: "string \<Rightarrow> easy \<Rightarrow> optval option" where
  "effective_opt name e = map_of (rev (ez_opts e)) name"

lemmas option_setters =
  easy_xprogress_def easy_timeout_def loginOptions_def keyPassword_def noBODY_def sshPrivateKey_def
  sshPublicKey_def set_url_def userName_def userPassword_def quote_def

lemma easy_set_opt_effective:
  assumes "easy_set_opt lib (name, v) e = (r, e')"
  shows "effective_opt name' e' = (if r = Inr () \<and> name' = name then Some v else effective_opt name' e)"
    and "ez_id e' = ez_id e" and "ez_canceled e' = ez_canceled e" and "ez_verbose e' = ez_verbose e"
  using assms by (auto simp: easy_set_opt_def effective_opt_def split: sum.splits)

text \<open>A refused \<open>verbose\<close> leaves the flag as it was; an accepted one agrees with the option.\<close>

lemma easy_verbose_agrees:
  assumes "easy_verbose lib enable e = (r, e')" and "effective_opt ''VERBOSE'' e = Some (bool_opt (ez_verbose e))"
  shows "effective_opt ''VERBOSE'' e' = Some (bool_opt (ez_verbose e'))"
  using assms by (auto simp: easy_verbose_def easy_set_opt_def effective_opt_def split: sum.splits)

text \<open>A new handle has every option of its constructor.\<close>

lemma easy_new_options:
  assumes "easy_new lib True verbose timeout sid = (Inr e, sid')"
  shows "effective_opt ''VERBOSE'' e = Some (bool_opt verbose)" and "effective_opt ''NOPROGRESS'' e = Some (bool_opt False)"
    and "effective_opt ''TIMEOUT_MS'' e = Some (OLong (sint timeout))" and "ez_id e = sid" and "\<not> ez_canceled e"
proof -
  have "ez_opts e = easy_options verbose timeout"
  proof -
    have "set_opts lib opts = (opts', Inr ()) \<Longrightarrow> opts' = opts" for opts opts'
      by (induction opts arbitrary: opts') (auto split: sum.splits prod.splits)
    then show ?thesis using assms by (auto simp: easy_new_def split: prod.splits sum.splits)
  qed
  then show "effective_opt ''VERBOSE'' e = Some (bool_opt verbose)" "effective_opt ''NOPROGRESS'' e = Some (bool_opt False)"
    "effective_opt ''TIMEOUT_MS'' e = Some (OLong (sint timeout))"
    by (simp_all add: effective_opt_def easy_options_def)
  show "ez_id e = sid" "\<not> ez_canceled e"
    using assms by (auto simp: easy_new_def split: prod.splits sum.splits)
qed

subsection \<open>Defaults of the virtual functions, traces\<close>

definition easy_read_default :: "nat \<Rightarrow> nat" where
  "easy_read_default sz = 0"

definition easy_write_default :: "nat \<Rightarrow> nat" where
  "easy_write_default sz = sz"

datatype curl_infotype = InfoText | HeaderIn | HeaderOut | DataIn | DataOut | SslDataIn | SslDataOut | InfoOther

text \<open>What \<open>Transfer::debug\<close> logs: the lines of text and headers without their line ends.\<close>

definition transfer_debug :: "curl_infotype \<Rightarrow> string \<Rightarrow> string option" where
  "transfer_debug type d =
     (let line = (if type = InfoText \<or> type = HeaderIn \<or> type = HeaderOut then trim_text d else d) in
      case type of
        InfoText \<Rightarrow> Some (''* '' @ line)
      | HeaderIn \<Rightarrow> Some (''< '' @ line)
      | HeaderOut \<Rightarrow> Some (''> '' @ line)
      | _ \<Rightarrow> None)"

definition debug_cb :: "bool \<Rightarrow> curl_infotype \<Rightarrow> string \<Rightarrow> int \<times> string option" where
  "debug_cb self type d = (0, if self then transfer_debug type d else None)"

definition transfer_getUrl :: "(string \<Rightarrow> string list option) \<Rightarrow> string option result \<Rightarrow> url" where
  "transfer_getUrl rx effective = url_new rx (transfer_url effective)"

lemma canceled_aborts:
  assumes "easy_cancel e = (first, e')"
  shows "easy_read_cb (Some e') h n k = CURL_READFUNC_ABORT" and "easy_progress (Some e') = -1"
    and "easy_cancel e' = (False, e')"
  using assms by (auto simp: easy_cancel_def easy_read_cb_def easy_progress_def)

subsection \<open>The life of the handles\<close>

text \<open>
  The calls that make, use and end handles; a handle is known by a number, the multi handle is one. \<open>True\<close>
  says that the library did not refuse. A new handle is what \<open>curl_easy_init\<close> returns, None the null pointer.
\<close>

datatype curl_op =
    EasyInit nat | EasyOpt nat | EasyCleanup nat
  | MultiInit | MultiOpt | MultiAdd nat bool | MultiRemove nat bool | MultiCleanup

record tobj =
  to_handle :: "nat option"
  to_easy :: easy
  to_transfer :: transfer

text \<open>\<open>hw_multi\<close> is \<open>Multi::handle_\<close>; \<open>hw_refs\<close> counts the references to the service that the
  transfers hold in \<open>service_\<close>, \<open>hw_users\<close> all others; \<open>hw_aborted\<close> says that an exception has left a destructor, which ends the program.\<close>

record handles =
  hw_log :: "curl_op list"
  hw_sid :: nat
  hw_multi :: bool
  hw_service :: bool
  hw_users :: nat
  hw_refs :: nat
  hw_objs :: "nat \<Rightarrow> tobj option"
  hw_aborted :: bool

definition hw_call :: "curl_op list \<Rightarrow> handles \<Rightarrow> handles" where
  "hw_call ops w = w\<lparr>hw_log := hw_log w @ ops\<rparr>"

text \<open>\<open>Multi::Multi\<close>, \<open>Service::Service\<close>: four options; an exception there leaves the constructor, whose
  destructor then does not run.\<close>

definition multi_new_opts :: "curl_opt list" where
  "multi_new_opts =
     [(''SOCKETFUNCTION'', OFun ''action_''), (''SOCKETDATA'', OSelf),
      (''TIMERFUNCTION'', OFun ''setTimer_''), (''TIMERDATA'', OSelf)]"

fun set_multi_opts :: "(curl_opt \<Rightarrow> string option) \<Rightarrow> (string \<Rightarrow> int) \<Rightarrow> curl_opt list \<Rightarrow> curl_op list \<times> unit result" where
  "set_multi_opts setopt number [] = ([], Inr ())"
| "set_multi_opts setopt number (opt # opts) =
     (case multi_check (setopt opt) (''curl_multi_setopt('' @ string_of_int (number (fst opt)) @ '')'') of
        Inl e \<Rightarrow> ([MultiOpt], Inl e)
      | Inr _ \<Rightarrow> (case set_multi_opts setopt number opts of (ops, r) \<Rightarrow> (MultiOpt # ops, r)))"

definition multi_new :: "(curl_opt \<Rightarrow> string option) \<Rightarrow> (string \<Rightarrow> int) \<Rightarrow> bool \<Rightarrow> unit result \<times> handles" where
  "multi_new setopt number init =
     (let w = \<lparr>hw_log = [], hw_sid = 10000000, hw_multi = False, hw_service = False, hw_users = 0, hw_refs = 0, hw_objs = Map.empty, hw_aborted = False\<rparr>
      in if \<not> init then (Inl (InvalidArgument ''invalid MULTI handle''), w)
         else (case set_multi_opts setopt number multi_new_opts of
                 (ops, Inl e) \<Rightarrow> (Inl e, hw_call (MultiInit # ops) w)
               | (ops, Inr _) \<Rightarrow> (Inr (), hw_call (MultiInit # ops) (w\<lparr>hw_multi := True, hw_service := True, hw_users := 1\<rparr>))))"

definition multi_destroy :: "handles \<Rightarrow> handles" where
  "multi_destroy w = (if hw_multi w then (hw_call [MultiCleanup] w)\<lparr>hw_multi := False\<rparr> else w)"

text \<open>\<open>~Service\<close> calls \<open>destroy\<close> and so does \<open>~Multi\<close> after it. The service lives as long as a user or a
  transfer refers to it.\<close>

definition service_destroy :: "handles \<Rightarrow> handles" where
  "service_destroy w = (multi_destroy (multi_destroy w))\<lparr>hw_service := False\<rparr>"

definition service_unref :: "handles \<Rightarrow> handles" where
  "service_unref w = (if hw_service w \<and> hw_users w = 0 \<and> hw_refs w = 0 then service_destroy w else w)"

definition easy_destroy :: "tobj \<Rightarrow> handles \<Rightarrow> tobj \<times> handles" where
  "easy_destroy t w =
     (case to_handle t of
        Some h \<Rightarrow> (t\<lparr>to_handle := None\<rparr>, hw_call [EasyCleanup h] w)
      | None \<Rightarrow> (t, w))"

text \<open>\<open>Easy::Easy\<close> and \<open>Transfer::Transfer\<close>. When \<open>Easy\<close> is complete and the URL is refused, \<open>~Easy\<close> runs;
  when an option of \<open>Easy\<close> itself is refused, nothing does.\<close>

definition transfer_create :: "curl_lib \<Rightarrow> nat option \<Rightarrow> string \<Rightarrow> bool \<Rightarrow> u64 \<Rightarrow> handles \<Rightarrow> unit result \<times> handles" where
  "transfer_create lib init u verbose timeout w =
     (case init of
        None \<Rightarrow> (case easy_new lib False verbose timeout (hw_sid w) of
                  (Inl e, sid) \<Rightarrow> (Inl e, w\<lparr>hw_sid := sid\<rparr>)
                | (Inr _, sid) \<Rightarrow> (Inr (), w\<lparr>hw_sid := sid\<rparr>))
      | Some h \<Rightarrow>
          (case easy_new lib True verbose timeout (hw_sid w) of
             (Inl e, sid) \<Rightarrow> (Inl e, (hw_call [EasyInit h, EasyOpt h] w)\<lparr>hw_sid := sid\<rparr>)
           | (Inr ez, sid) \<Rightarrow>
               (let t = \<lparr>to_handle = Some h, to_easy = ez, to_transfer = transfer_new\<rparr>;
                    w = (hw_call [EasyInit h, EasyOpt h] w)\<lparr>hw_sid := sid\<rparr>
                in if u = [] then (Inr (), w\<lparr>hw_objs := (hw_objs w)(ez_id ez \<mapsto> t), hw_refs := hw_refs w + 1\<rparr>)
                   else (let w = hw_call [EasyOpt h] w in
                         case set_url lib u ez of
                           (Inl e, _) \<Rightarrow> (Inl e, snd (easy_destroy t w))
                         | (Inr _, ez') \<Rightarrow> (Inr (), w\<lparr>hw_objs := (hw_objs w)(ez_id ez \<mapsto> t\<lparr>to_easy := ez'\<rparr>), hw_refs := hw_refs w + 1\<rparr>)))))"

text \<open>\<open>Transfer::exec\<close> with \<open>Multi::attach\<close>; \<open>err\<close> is the answer of \<open>curl_multi_add_handle\<close>.\<close>

definition attach_error :: "curl_lib \<Rightarrow> string option \<Rightarrow> error option" where
  "attach_error lib err =
     (case snd (set_opts lib multi_opts) of
        Inl e \<Rightarrow> Some e
      | Inr _ \<Rightarrow> (case multi_check err ''curl_multi_add_handle()'' of Inl e \<Rightarrow> Some e | Inr _ \<Rightarrow> None))"

definition attach_ops :: "curl_lib \<Rightarrow> string option \<Rightarrow> nat \<Rightarrow> curl_op list" where
  "attach_ops lib err h =
     EasyOpt h # (case snd (set_opts lib multi_opts) of Inl _ \<Rightarrow> [] | Inr _ \<Rightarrow> [MultiAdd h (err = None)])"

definition handle_exec :: "curl_lib \<Rightarrow> nat \<Rightarrow> nat \<Rightarrow> string option \<Rightarrow> handles \<Rightarrow> error option \<times> handles" where
  "handle_exec lib i k err w =
     (case hw_objs w i of
        None \<Rightarrow> (None, w)
      | Some t \<Rightarrow>
          (case transfer_exec (attach_error lib err) k (to_transfer t) of
             (r, tr) \<Rightarrow>
               (r, (hw_call (case to_handle t of
                               Some h \<Rightarrow> if tf_attached (to_transfer t) then [] else attach_ops lib err h
                             | None \<Rightarrow> []) w)
                  \<lparr>hw_objs := (hw_objs w)(i \<mapsto> t\<lparr>to_transfer := tr\<rparr>)\<rparr>)))"

text \<open>\<open>~Transfer\<close>: its body detaches; then the member \<open>service_\<close> is destroyed, which ends the service if this was
  the last reference; the base \<open>~Easy\<close> comes last. So the multi handle may be cleaned up before the easy
  handle that was in it. \<open>err\<close> is the answer of \<open>curl_multi_remove_handle\<close>.\<close>

definition transfer_destroy :: "nat \<Rightarrow> string option \<Rightarrow> handles \<Rightarrow> handles" where
  "transfer_destroy i err w =
     (case hw_objs w i of
        None \<Rightarrow> w
      | Some t \<Rightarrow>
          (let rm = (case multi_check err ''curl_multi_remove_handle()'' of Inl e \<Rightarrow> Some e | Inr _ \<Rightarrow> None);
               w = hw_call (case to_handle t of
                              Some h \<Rightarrow> if tf_attached (to_transfer t) then [MultiRemove h (err = None)] else []
                            | None \<Rightarrow> []) w
           in case transfer_detach rm (to_transfer t) of
                (Some e, tr) \<Rightarrow> w\<lparr>hw_aborted := True\<rparr>
              | (None, tr) \<Rightarrow>
                  (let w = service_unref (w\<lparr>hw_objs := (hw_objs w)(i := None), hw_refs := hw_refs w - 1\<rparr>)
                   in snd (easy_destroy (t\<lparr>to_transfer := tr\<rparr>) w))))"

datatype handle_event =
    HeCreate "nat option" string bool u64
  | HeExec nat nat "string option"
  | HeRelease nat "string option"
  | HeUser
  | HeUserGone

text \<open>A transfer is made on a service someone holds.\<close>

definition handle_step :: "curl_lib \<Rightarrow> handle_event \<Rightarrow> handles \<Rightarrow> handles" where
  "handle_step lib ev w =
     (if hw_aborted w \<or> \<not> hw_service w then w
      else case ev of
        HeCreate init u verbose timeout \<Rightarrow> snd (transfer_create lib init u verbose timeout w)
      | HeExec i k err \<Rightarrow> snd (handle_exec lib i k err w)
      | HeRelease i err \<Rightarrow> transfer_destroy i err w
      | HeUser \<Rightarrow> w\<lparr>hw_users := hw_users w + 1\<rparr>
      | HeUserGone \<Rightarrow> (if hw_users w = 0 then w else service_unref (w\<lparr>hw_users := hw_users w - 1\<rparr>)))"

subsection \<open>The rules of libcurl\<close>

text \<open>
  A handle is used and cleaned up only while it lives, once; an easy handle is added once, removed only when
  added, and not cleaned up while added; the multi handle is cleaned up when no easy handle is in it.
\<close>

record rules =
  ru_live :: "nat set"
  ru_added :: "nat set"
  ru_multi :: bool

definition rules0 :: rules where
  "rules0 = \<lparr>ru_live = {}, ru_added = {}, ru_multi = False\<rparr>"

fun rule_step :: "curl_op \<Rightarrow> rules \<Rightarrow> rules option" where
  "rule_step (EasyInit h) r = Some (r\<lparr>ru_live := insert h (ru_live r)\<rparr>)"
| "rule_step (EasyOpt h) r = (if h \<in> ru_live r then Some r else None)"
| "rule_step (EasyCleanup h) r =
     (if h \<in> ru_live r \<and> h \<notin> ru_added r then Some (r\<lparr>ru_live := ru_live r - {h}\<rparr>) else None)"
| "rule_step MultiInit r = (if ru_multi r then None else Some (r\<lparr>ru_multi := True\<rparr>))"
| "rule_step MultiOpt r = (if ru_multi r then Some r else None)"
| "rule_step (MultiAdd h ok) r =
     (if ru_multi r \<and> h \<in> ru_live r \<and> h \<notin> ru_added r
      then Some (if ok then r\<lparr>ru_added := insert h (ru_added r)\<rparr> else r) else None)"
| "rule_step (MultiRemove h ok) r =
     (if ru_multi r \<and> h \<in> ru_added r then Some (if ok then r\<lparr>ru_added := ru_added r - {h}\<rparr> else r) else None)"
| "rule_step MultiCleanup r = (if ru_multi r \<and> ru_added r = {} then Some (r\<lparr>ru_multi := False\<rparr>) else None)"

fun rules_run :: "curl_op list \<Rightarrow> rules \<Rightarrow> rules option" where
  "rules_run [] r = Some r"
| "rules_run (op # ops) r = Option.bind (rule_step op r) (rules_run ops)"

lemma rules_run_append: "rules_run (xs @ ys) r = Option.bind (rules_run xs r) (rules_run ys)"
  by (induction xs arbitrary: r) (auto simp: bind_assoc split: Option.bind_splits)

text \<open>What the program owns: the handles of the transfers, those that are added.\<close>

definition owned :: "(nat \<Rightarrow> tobj option) \<Rightarrow> nat set" where
  "owned objs = {h. \<exists>i t. objs i = Some t \<and> to_handle t = Some h}"

definition attached :: "(nat \<Rightarrow> tobj option) \<Rightarrow> nat set" where
  "attached objs = {h. \<exists>i t. objs i = Some t \<and> to_handle t = Some h \<and> tf_attached (to_transfer t)}"

definition objs_ok :: "(nat \<Rightarrow> tobj option) \<Rightarrow> nat \<Rightarrow> bool" where
  "objs_ok objs sid \<longleftrightarrow> finite (dom objs) \<and> (\<forall>i t. objs i = Some t \<longrightarrow> i < sid \<and> to_handle t \<noteq> None)
     \<and> (\<forall>i j t u. objs i = Some t \<longrightarrow> objs j = Some u \<longrightarrow> to_handle t = to_handle u \<longrightarrow> i = j)"

text \<open>While the program runs: the log obeys the rules; every owned handle lives, those in the multi handle are
  the attached ones; the multi handle is cleaned up exactly when the service is gone; and when
  libcurl has refused no option (\<open>unrefused\<close>) no other handle lives.\<close>

definition handles_inv :: "bool \<Rightarrow> handles \<Rightarrow> rules \<Rightarrow> bool" where
  "handles_inv unrefused w r \<longleftrightarrow> rules_run (hw_log w) rules0 = Some r
     \<and> objs_ok (hw_objs w) (hw_sid w) \<and> hw_refs w = card (dom (hw_objs w))
     \<and> owned (hw_objs w) \<subseteq> ru_live r \<and> (unrefused \<longrightarrow> ru_live r = owned (hw_objs w))
     \<and> ru_added r = attached (hw_objs w) \<and> ru_multi r = hw_multi w \<and> hw_multi w = hw_service w
     \<and> (hw_service w \<or> hw_objs w = Map.empty)"

lemma owned_simps:
  assumes "objs_ok objs sid"
  shows "objs i = None \<Longrightarrow> owned (objs(i \<mapsto> t)) = owned objs \<union> set_option (to_handle t)"
    and "objs i = None \<Longrightarrow> attached (objs(i \<mapsto> t)) = attached objs \<union> (if tf_attached (to_transfer t) then set_option (to_handle t) else {})"
    and "objs i = Some t \<Longrightarrow> to_handle u = to_handle t \<Longrightarrow> owned (objs(i \<mapsto> u)) = owned objs"
    and "objs i = Some t \<Longrightarrow> owned (objs(i := None)) = owned objs - set_option (to_handle t)"
    and "objs i = Some t \<Longrightarrow> attached (objs(i := None)) = attached objs - set_option (to_handle t)"
proof -
  show "objs i = None \<Longrightarrow> owned (objs(i \<mapsto> t)) = owned objs \<union> set_option (to_handle t)"
    by (auto simp: owned_def split: if_splits) (metis option.distinct(1))+
  show "objs i = None \<Longrightarrow> attached (objs(i \<mapsto> t)) = attached objs \<union> (if tf_attached (to_transfer t) then set_option (to_handle t) else {})"
    by (auto simp: attached_def split: if_splits) (metis option.distinct(1))+
  show "objs i = Some t \<Longrightarrow> to_handle u = to_handle t \<Longrightarrow> owned (objs(i \<mapsto> u)) = owned objs"
    by (auto simp: owned_def split: if_splits) (metis option.inject)+
  show "objs i = Some t \<Longrightarrow> owned (objs(i := None)) = owned objs - set_option (to_handle t)"
    using assms by (auto simp: owned_def objs_ok_def split: if_splits) (metis option.inject)+
  show "objs i = Some t \<Longrightarrow> attached (objs(i := None)) = attached objs - set_option (to_handle t)"
    using assms by (auto simp: attached_def objs_ok_def split: if_splits) (metis option.inject)+
qed

lemma hw_call_sel [simp]:
  "hw_log (hw_call ops w) = hw_log w @ ops" "hw_sid (hw_call ops w) = hw_sid w" "hw_multi (hw_call ops w) = hw_multi w"
  "hw_service (hw_call ops w) = hw_service w" "hw_users (hw_call ops w) = hw_users w" "hw_refs (hw_call ops w) = hw_refs w"
  "hw_objs (hw_call ops w) = hw_objs w" "hw_aborted (hw_call ops w) = hw_aborted w"
  by (simp_all add: hw_call_def)

lemma easy_new_cases:
  obtains (refused) e where "easy_new lib True v n sid = (Inl e, Suc sid)" "\<exists>opt. cl_setopt lib opt \<noteq> None"
  | (made) ez where "easy_new lib True v n sid = (Inr ez, Suc sid)" "ez_id ez = sid"
proof (cases "snd (set_opts lib (easy_options v n))")
  case (Inl e)
  then obtain os where s: "set_opts lib (easy_options v n) = (os, Inl e)" by (cases "set_opts lib (easy_options v n)") auto
  from set_opts_stops [OF this] have "\<exists>opt. cl_setopt lib opt \<noteq> None" by blast
  then show ?thesis using refused s by (simp add: easy_new_def)
next
  case (Inr u)
  then show ?thesis using made by (cases "set_opts lib (easy_options v n)") (simp add: easy_new_def)
qed

lemma objs_ok_handle:
  assumes "objs_ok objs sid" and "objs i = Some t"
  obtains h where "to_handle t = Some h"
  using assms unfolding objs_ok_def by (metis not_None_eq)

lemma objs_ok_mono: "objs_ok objs sid \<Longrightarrow> objs_ok objs (Suc sid)"
  unfolding objs_ok_def by (meson less_SucI)

lemma objs_ok_fresh: "objs_ok objs sid \<Longrightarrow> objs sid = None"
  unfolding objs_ok_def by (metis less_irrefl not_None_eq)

lemma objs_ok_add:
  assumes "objs_ok objs sid" and "to_handle t = Some h" and "h \<notin> owned objs"
  shows "objs_ok (objs(sid \<mapsto> t)) (Suc sid)"
  using assms by (auto simp: objs_ok_def owned_def less_SucI split: if_splits) metis+

lemma objs_ok_put: "objs_ok objs sid \<Longrightarrow> objs i = Some t \<Longrightarrow> to_handle u = to_handle t \<Longrightarrow> objs_ok (objs(i \<mapsto> u)) sid"
  unfolding objs_ok_def by (auto split: if_splits)

lemma objs_ok_del: "objs_ok objs sid \<Longrightarrow> objs_ok (objs(i := None)) sid"
  unfolding objs_ok_def by (auto split: if_splits)

lemma register_inv:
  assumes "handles_inv u w r" and "hw_service w" and "h \<notin> ru_live r" and "to_handle t = Some h"
    and "\<not> tf_attached (to_transfer t)" and "rules_run ops (r\<lparr>ru_live := insert h (ru_live r)\<rparr>) = Some (r\<lparr>ru_live := insert h (ru_live r)\<rparr>)"
  shows "handles_inv u ((hw_call (EasyInit h # ops) w)\<lparr>hw_sid := Suc (hw_sid w), hw_objs := (hw_objs w)(hw_sid w \<mapsto> t), hw_refs := hw_refs w + 1\<rparr>)
     (r\<lparr>ru_live := insert h (ru_live r)\<rparr>)"
proof -
  note inv = assms(1)[unfolded handles_inv_def]
  have ok: "objs_ok (hw_objs w) (hw_sid w)" using inv by blast
  note none = objs_ok_fresh [OF ok]
  have new: "h \<notin> owned (hw_objs w)" using inv assms(3) by blast
  have "hw_sid w \<notin> dom (hw_objs w)" "finite (dom (hw_objs w))" using none ok by (auto simp: objs_ok_def)
  then show ?thesis
    using inv assms objs_ok_add [OF ok assms(4) new] owned_simps(1,2) [OF ok none, of t]
    by (auto simp: handles_inv_def rules_run_append)
qed

lemma create_inv:
  assumes "handles_inv u w r" and "hw_service w" and "\<And>h. init = Some h \<Longrightarrow> h \<notin> ru_live r"
    and "u \<Longrightarrow> \<forall>opt. cl_setopt lib opt = None"
  shows "\<exists>r'. handles_inv u (snd (transfer_create lib init uri v n w)) r'"
proof (cases init)
  case None
  then have "snd (transfer_create lib init uri v n w) = w" by (simp add: transfer_create_def easy_new_def)
  then show ?thesis using assms(1) by auto
next
  case (Some h)
  let ?r = "r\<lparr>ru_live := insert h (ru_live r)\<rparr>"
  have new: "h \<notin> ru_live r" using assms(3) Some by simp
  note inv = assms(1)[unfolded handles_inv_def]
  have ok: "objs_ok (hw_objs w) (hw_sid w)" using inv by blast
  show ?thesis
  proof (rule easy_new_cases [of lib v n "hw_sid w"])
    fix e assume e: "easy_new lib True v n (hw_sid w) = (Inl e, Suc (hw_sid w))" "\<exists>opt. cl_setopt lib opt \<noteq> None"
    then have "\<not> u" using assms(4) by auto
    then have "handles_inv u (snd (transfer_create lib init uri v n w)) ?r"
      using inv e(1) new objs_ok_mono [OF ok]
      by (auto simp: handles_inv_def transfer_create_def Some rules_run_append)
    then show ?thesis by blast
  next
    fix ez assume e: "easy_new lib True v n (hw_sid w) = (Inr ez, Suc (hw_sid w))" and id: "ez_id ez = hw_sid w"
    let ?t = "\<lambda>ez. \<lparr>to_handle = Some h, to_easy = ez, to_transfer = transfer_new\<rparr>"
    have reg: "handles_inv u ((hw_call (EasyInit h # ops) w)\<lparr>hw_sid := Suc (hw_sid w), hw_objs := (hw_objs w)(hw_sid w \<mapsto> ?t ez'), hw_refs := hw_refs w + 1\<rparr>) ?r"
      if "ops \<in> {[EasyOpt h], [EasyOpt h, EasyOpt h]}" for ops ez'
      by (rule register_inv [OF assms(1,2) new]) (use that in \<open>auto simp: transfer_new_def\<close>)
    show ?thesis
    proof (cases "uri = []")
      case True
      have "snd (transfer_create lib init uri v n w)
        = (hw_call [EasyInit h, EasyOpt h] w)\<lparr>hw_sid := Suc (hw_sid w), hw_objs := (hw_objs w)(hw_sid w \<mapsto> ?t ez), hw_refs := hw_refs w + 1\<rparr>"
        using True e id by (simp add: transfer_create_def Some Let_def)
      then show ?thesis using reg by auto
    next
      case False
      obtain res ez' where su: "set_url lib uri ez = (res, ez')" by (cases "set_url lib uri ez")
      show ?thesis
      proof (cases res)
        case (Inr x)
        have "snd (transfer_create lib init uri v n w)
          = (hw_call [EasyInit h, EasyOpt h, EasyOpt h] w)\<lparr>hw_sid := Suc (hw_sid w), hw_objs := (hw_objs w)(hw_sid w \<mapsto> ?t ez'), hw_refs := hw_refs w + 1\<rparr>"
          using False e id su Inr by (simp add: transfer_create_def Some Let_def hw_call_def)
        then show ?thesis using reg by auto
      next
        case (Inl err)
        have log: "snd (transfer_create lib init uri v n w)
          = (hw_call [EasyInit h, EasyOpt h, EasyOpt h, EasyCleanup h] w)\<lparr>hw_sid := Suc (hw_sid w)\<rparr>"
          using False e id su Inl by (simp add: transfer_create_def Some Let_def hw_call_def easy_destroy_def)
        have "attached (hw_objs w) \<subseteq> owned (hw_objs w)" by (auto simp: attached_def owned_def)
        then have "h \<notin> ru_added r" using new inv by auto
        then have "handles_inv u (snd (transfer_create lib init uri v n w)) (?r\<lparr>ru_live := ru_live ?r - {h}\<rparr>)"
          unfolding log using inv new objs_ok_mono [OF ok] by (auto simp: handles_inv_def rules_run_append)
        then show ?thesis by blast
      qed
    qed
  qed
qed

lemma attached_put:
  assumes "objs_ok objs sid" and "objs i = Some t" and "to_handle u = to_handle t"
  shows "attached (objs(i \<mapsto> u)) = (if tf_attached (to_transfer u) then attached objs \<union> set_option (to_handle t)
    else attached objs - set_option (to_handle t))"
  using assms by (auto simp: attached_def objs_ok_def split: if_splits) (metis option.inject)+

lemma attached_of:
  assumes "objs_ok objs sid" and "objs i = Some t" and "to_handle t = Some h"
  shows "h \<in> attached objs \<longleftrightarrow> tf_attached (to_transfer t)" and "h \<in> owned objs"
  using assms by (auto simp: attached_def owned_def objs_ok_def) (metis option.inject)+

lemma attach_cases:
  obtains (added) "attach_error lib err = None" "attach_ops lib err h = [EasyOpt h, MultiAdd h True]"
  | (failed) e where "attach_error lib err = Some e" "attach_ops lib err h \<in> {[EasyOpt h], [EasyOpt h, MultiAdd h False]}"
  by (cases "snd (set_opts lib multi_opts)"; cases err) (simp_all add: attach_error_def attach_ops_def multi_check_def)

lemma exec_inv:
  assumes inv: "handles_inv u w r" and "hw_service w"
  shows "\<exists>r'. handles_inv u (snd (handle_exec lib i k err w)) r'"
proof (cases "hw_objs w i")
  case None
  then have "snd (handle_exec lib i k err w) = w" by (simp add: handle_exec_def)
  then show ?thesis using inv by auto
next
  case (Some t)
  note inv = inv[unfolded handles_inv_def]
  have ok: "objs_ok (hw_objs w) (hw_sid w)" using inv by blast
  obtain h where h: "to_handle t = Some h" by (rule objs_ok_handle [OF ok Some])
  note of = attached_of [OF ok Some h]
  define tr where "tr = snd (transfer_exec (attach_error lib err) k (to_transfer t))"
  define ops where "ops = (if tf_attached (to_transfer t) then [] else attach_ops lib err h)"
  let ?t = "t\<lparr>to_transfer := tr\<rparr>"
  have w': "snd (handle_exec lib i k err w) = (hw_call ops w)\<lparr>hw_objs := (hw_objs w)(i \<mapsto> ?t)\<rparr>"
    by (simp add: handle_exec_def Some h tr_def ops_def split: prod.split)
  have same: "to_handle ?t = to_handle t" by simp
  note put = owned_simps(3) [OF ok Some same] attached_put [OF ok Some same] objs_ok_put [OF ok Some same]
  have dom: "dom ((hw_objs w)(i \<mapsto> ?t)) = dom (hw_objs w)" using Some by auto
  have multi: "ru_multi r" using inv assms(2) by simp
  show ?thesis
  proof (cases "tf_attached (to_transfer t)")
    case True
    then have "tf_attached tr" by (simp add: tr_def transfer_exec_def transfer_attach_def)
    then have "handles_inv u (snd (handle_exec lib i k err w)) r"
      unfolding w' using inv put dom True h of assms(2) by (auto simp: handles_inv_def ops_def)
    then show ?thesis by blast
  next
    case False
    show ?thesis
    proof (rule attach_cases [of lib err h])
      assume a: "attach_error lib err = None" "attach_ops lib err h = [EasyOpt h, MultiAdd h True]"
      then have "tf_attached tr" using False by (simp add: tr_def transfer_exec_def transfer_attach_def)
      then have "handles_inv u (snd (handle_exec lib i k err w)) (r\<lparr>ru_added := insert h (ru_added r)\<rparr>)"
        unfolding w' using inv put dom False h of a multi assms(2) by (auto simp: handles_inv_def ops_def rules_run_append)
      then show ?thesis by blast
    next
      fix e assume a: "attach_error lib err = Some e" "attach_ops lib err h \<in> {[EasyOpt h], [EasyOpt h, MultiAdd h False]}"
      then have "\<not> tf_attached tr" using False by (simp add: tr_def transfer_exec_def transfer_attach_def transfer_reset_def)
      then have "handles_inv u (snd (handle_exec lib i k err w)) r"
        unfolding w' using inv put dom False h of a multi assms(2) by (auto simp: handles_inv_def ops_def rules_run_append)
      then show ?thesis by blast
    qed
  qed
qed

lemma unref_inv:
  assumes "handles_inv u w r"
  shows "\<exists>r'. handles_inv u (service_unref w) r' \<and> ru_live r' = ru_live r"
proof (cases "hw_service w \<and> hw_users w = 0 \<and> hw_refs w = 0")
  case True
  note inv = assms[unfolded handles_inv_def]
  have none: "hw_objs w = Map.empty" using True inv by (auto simp: objs_ok_def)
  then have "handles_inv u (service_unref w) (r\<lparr>ru_multi := False\<rparr>)"
    using True inv by (auto simp: handles_inv_def service_unref_def service_destroy_def multi_destroy_def
        rules_run_append attached_def owned_def)
  then show ?thesis by (intro exI [of _ "r\<lparr>ru_multi := False\<rparr>"]) simp
qed (use assms in \<open>auto simp: service_unref_def\<close>)

lemma service_unref_objs [simp]: "hw_objs (service_unref w) = hw_objs w"
  by (simp add: service_unref_def service_destroy_def multi_destroy_def)

text \<open>The easy handle of a transfer that is no longer listed is cleaned up last.\<close>

lemma cleanup_inv:
  assumes "handles_inv False w r" and "h \<in> ru_live r" and "h \<notin> owned (hw_objs w)"
    and "u \<Longrightarrow> ru_live r = insert h (owned (hw_objs w))"
  shows "handles_inv u (hw_call [EasyCleanup h] w) (r\<lparr>ru_live := ru_live r - {h}\<rparr>)"
proof -
  have "attached (hw_objs w) \<subseteq> owned (hw_objs w)" by (auto simp: attached_def owned_def)
  then have "h \<notin> ru_added r" using assms(1,3) by (auto simp: handles_inv_def)
  then show ?thesis using assms by (auto simp: handles_inv_def rules_run_append)
qed

text \<open>A refusal to remove a handle ends the program; the log obeys the rules all the same.\<close>

lemma release_inv:
  assumes inv: "handles_inv u w r" and "hw_service w"
  shows "(\<exists>r'. handles_inv u (transfer_destroy i err w) r')
    \<or> (hw_aborted (transfer_destroy i err w) \<and> hw_service (transfer_destroy i err w) \<and> (\<exists>r'. rules_run (hw_log (transfer_destroy i err w)) rules0 = Some r'))"
proof (cases "hw_objs w i")
  case None
  then show ?thesis using inv by (auto simp: transfer_destroy_def)
next
  case (Some t)
  note inv = inv[unfolded handles_inv_def]
  have ok: "objs_ok (hw_objs w) (hw_sid w)" using inv by blast
  obtain h where h: "to_handle t = Some h" by (rule objs_ok_handle [OF ok Some])
  note of = attached_of [OF ok Some h]
  have multi: "ru_multi r" using inv assms(2) by simp
  have live: "h \<in> ru_live r" using inv of(2) by blast
  have card: "card (dom ((hw_objs w)(i := None))) = hw_refs w - 1"
    using inv Some ok by (simp add: objs_ok_def domI)
  let ?ops = "if tf_attached (to_transfer t) then [MultiRemove h True] else []"
  let ?w = "(hw_call ?ops w)\<lparr>hw_objs := (hw_objs w)(i := None), hw_refs := hw_refs w - 1\<rparr>"
  have gone: "owned ((hw_objs w)(i := None)) = owned (hw_objs w) - {h}"
    using owned_simps(4) [OF ok Some] h by simp
  have inv': "handles_inv False ?w (r\<lparr>ru_added := ru_added r - {h}\<rparr>)"
    using inv of multi live card h objs_ok_del [OF ok, of i] owned_simps(4,5) [OF ok Some] assms(2)
    by (auto simp: handles_inv_def rules_run_append)
  show ?thesis
  proof (cases "tf_attached (to_transfer t) \<and> err \<noteq> None")
    case True
    then show ?thesis
      using inv of multi h Some assms(2)
      by (auto simp: transfer_destroy_def transfer_detach_def multi_check_def rules_run_append Let_def)
  next
    case False
    then have eq: "transfer_destroy i err w = hw_call [EasyCleanup h] (service_unref ?w)"
      using h Some by (auto simp: transfer_destroy_def transfer_detach_def multi_check_def easy_destroy_def hw_call_def Let_def)
    obtain r' where r': "handles_inv False (service_unref ?w) r'" "ru_live r' = ru_live r"
      using unref_inv [OF inv'] by auto
    have "handles_inv u (transfer_destroy i err w) (r'\<lparr>ru_live := ru_live r' - {h}\<rparr>)"
      unfolding eq by (rule cleanup_inv [OF r'(1)]) (use r'(2) live gone inv of(2) in auto)
    then show ?thesis by blast
  qed
qed

text \<open>The library gives out a new handle only when it is not in use.\<close>

fun lib_fresh :: "curl_lib \<Rightarrow> handle_event list \<Rightarrow> handles \<Rightarrow> bool" where
  "lib_fresh lib [] w = True"
| "lib_fresh lib (ev # evs) w =
     ((case ev of
         HeCreate (Some h) u v n \<Rightarrow> (case rules_run (hw_log w) rules0 of Some r \<Rightarrow> h \<notin> ru_live r | None \<Rightarrow> True)
       | _ \<Rightarrow> True) \<and> lib_fresh lib evs (handle_step lib ev w))"

definition handles_ok :: "bool \<Rightarrow> handles \<Rightarrow> bool" where
  "handles_ok u w \<longleftrightarrow> (\<exists>r. handles_inv u w r)
     \<or> (hw_aborted w \<and> hw_service w \<and> (\<exists>r. rules_run (hw_log w) rules0 = Some r))"

lemma handle_step_ok:
  assumes "handles_ok u w" and "lib_fresh lib [ev] w" and "u \<Longrightarrow> \<forall>opt. cl_setopt lib opt = None"
  shows "handles_ok u (handle_step lib ev w)"
proof (cases "hw_aborted w \<or> \<not> hw_service w")
  case True
  then show ?thesis using assms(1) by (simp add: handle_step_def)
next
  case False
  then obtain r where inv: "handles_inv u w r" using assms(1) by (auto simp: handles_ok_def)
  have run: "rules_run (hw_log w) rules0 = Some r" using inv by (simp add: handles_inv_def)
  have alive: "hw_service w" using False by simp
  show ?thesis
  proof (cases ev)
    case (HeCreate init uri v n)
    have new: "h \<notin> ru_live r" if "init = Some h" for h using assms(2) that by (simp add: HeCreate run)
    have "\<exists>r'. handles_inv u (snd (transfer_create lib init uri v n w)) r'"
      by (rule create_inv [OF inv alive new]) (simp_all add: assms(3))
    then show ?thesis using HeCreate False by (auto simp: handles_ok_def handle_step_def)
  next
    case (HeExec i k err)
    then show ?thesis using exec_inv [OF inv alive, of lib i k err] False by (auto simp: handles_ok_def handle_step_def)
  next
    case (HeRelease i err)
    then show ?thesis using release_inv [OF inv alive, of i err] False by (auto simp: handles_ok_def handle_step_def)
  next
    case HeUser
    have "handles_inv u (w\<lparr>hw_users := hw_users w + 1\<rparr>) r" using inv by (simp add: handles_inv_def)
    then show ?thesis using HeUser False by (auto simp: handles_ok_def handle_step_def)
  next
    case HeUserGone
    have "handles_inv u (w\<lparr>hw_users := hw_users w - 1\<rparr>) r" using inv by (simp add: handles_inv_def)
    from unref_inv [OF this] show ?thesis using HeUserGone False inv by (auto simp: handles_ok_def handle_step_def)
  qed
qed

lemma handle_steps_ok:
  assumes "handles_ok u w" and "lib_fresh lib evs w" and "u \<Longrightarrow> \<forall>opt. cl_setopt lib opt = None"
  shows "handles_ok u (fold (handle_step lib) evs w)"
  using assms
proof (induction evs arbitrary: w)
  case (Cons ev evs)
  have "handles_ok u (handle_step lib ev w)"
    by (rule handle_step_ok [OF Cons.prems(1)]) (use Cons.prems in \<open>simp_all\<close>)
  then show ?case using Cons by simp
qed simp

lemma set_multi_opts_run:
  assumes "ru_multi r"
  shows "rules_run (fst (set_multi_opts setopt number opts)) r = Some r"
proof (induction opts)
  case (Cons opt opts)
  show ?case
  proof (cases "multi_check (setopt opt) (''curl_multi_setopt('' @ string_of_int (number (fst opt)) @ '')'')")
    case (Inl e)
    then show ?thesis using assms by simp
  next
    case (Inr v)
    obtain ops res where "set_multi_opts setopt number opts = (ops, res)" by (cases "set_multi_opts setopt number opts")
    then show ?thesis using Cons Inr assms by simp
  qed
qed simp

lemma multi_new_inv:
  assumes "multi_new setopt number True = (Inr (), w)"
  shows "handles_inv u w (rules0\<lparr>ru_multi := True\<rparr>)" and "\<not> hw_aborted w"
proof -
  obtain ops res where s: "set_multi_opts setopt number multi_new_opts = (ops, res)"
    by (cases "set_multi_opts setopt number multi_new_opts")
  have "rules_run ops (rules0\<lparr>ru_multi := True\<rparr>) = Some (rules0\<lparr>ru_multi := True\<rparr>)"
    using set_multi_opts_run [of "rules0\<lparr>ru_multi := True\<rparr>" setopt number multi_new_opts] s by simp
  then show "handles_inv u w (rules0\<lparr>ru_multi := True\<rparr>)" "\<not> hw_aborted w"
    using assms s by (auto simp: multi_new_def handles_inv_def rules0_def objs_ok_def owned_def attached_def Let_def split: sum.splits)
qed

text \<open>The service is there exactly as long as someone refers to it.\<close>

definition referred :: "handles \<Rightarrow> bool" where
  "referred w \<longleftrightarrow> hw_service w = (0 < hw_users w \<or> 0 < hw_refs w)"

lemma service_unref_referred: "hw_service w \<Longrightarrow> referred (service_unref w)"
  by (auto simp: referred_def service_unref_def service_destroy_def multi_destroy_def)

lemma transfer_create_counts:
  "hw_users (snd (transfer_create lib init uri v n w)) = hw_users w"
  "hw_service (snd (transfer_create lib init uri v n w)) = hw_service w"
  "hw_refs w \<le> hw_refs (snd (transfer_create lib init uri v n w))"
  by (auto simp: transfer_create_def easy_destroy_def Let_def split: option.split sum.split prod.split)

lemma handle_exec_counts:
  "hw_users (snd (handle_exec lib i k err w)) = hw_users w"
  "hw_service (snd (handle_exec lib i k err w)) = hw_service w"
  "hw_refs (snd (handle_exec lib i k err w)) = hw_refs w"
  by (auto simp: handle_exec_def split: option.split prod.split)

lemma hw_call_referred [simp]: "referred (hw_call ops w) = referred w"
  by (simp add: referred_def)

lemma transfer_destroy_referred: "hw_service w \<Longrightarrow> referred w \<Longrightarrow> referred (transfer_destroy i err w)"
  by (auto simp: transfer_destroy_def easy_destroy_def Let_def referred_def [of "hw_call _ _\<lparr>hw_aborted := _\<rparr>"]
      referred_def [of w] split: option.split prod.split intro!: service_unref_referred)

lemma handle_step_referred:
  assumes "referred w"
  shows "referred (handle_step lib ev w)"
proof (cases "hw_aborted w \<or> \<not> hw_service w")
  case False
  have create: "hw_refs w = 0" if "hw_refs (snd (transfer_create lib init u v n w)) = 0" for init u v n
    using transfer_create_counts(3) [of w lib init u v n] that by simp
  then show ?thesis
    using False assms transfer_destroy_referred [of w] transfer_create_counts(1,2) [where lib = lib and w = w]
      handle_exec_counts [where lib = lib and w = w]
    by (cases ev) (auto simp: handle_step_def referred_def intro!: service_unref_referred [unfolded referred_def] dest: create)
qed (use assms in \<open>simp add: handle_step_def\<close>)

lemma handle_steps_referred: "referred w \<Longrightarrow> referred (fold (handle_step lib) evs w)"
  by (induction evs arbitrary: w) (simp_all add: handle_step_referred)

text \<open>C10: the handles of libcurl are used by its rules and each is cleaned up once. For any sequence of transfers
  made, started and released, of users coming and going, and of refusals by the library, the log of
  calls obeys the rules: nothing is used after its clean-up or cleaned up twice, no easy handle is
  cleaned up while it is in the multi handle, and the multi handle is cleaned up only when it is empty.
  It is cleaned up exactly when the last reference to the service has gone; and if the library refused
  no option, then every easy handle that lives still belongs to a transfer.\<close>

theorem handles_cleaned:
  assumes "multi_new setopt number True = (Inr (), w0)" and "lib_fresh lib evs w0"
  shows "let w = fold (handle_step lib) evs w0 in \<exists>r. rules_run (hw_log w) rules0 = Some r
    \<and> (\<not> hw_aborted w \<longrightarrow> ru_multi r = hw_service w \<and> ru_added r = attached (hw_objs w) \<and> owned (hw_objs w) \<subseteq> ru_live r
        \<and> ((\<forall>opt. cl_setopt lib opt = None) \<longrightarrow> ru_live r = owned (hw_objs w)))
    \<and> hw_service w = (0 < hw_users w \<or> 0 < hw_refs w)
    \<and> (\<not> hw_service w \<longrightarrow> \<not> ru_multi r \<and> ru_added r = {} \<and> hw_objs w = Map.empty)"
proof -
  let ?u = "\<forall>opt. cl_setopt lib opt = None" and ?w = "fold (handle_step lib) evs w0"
  have "handles_ok ?u w0" using multi_new_inv [OF assms(1)] by (auto simp: handles_ok_def)
  from handle_steps_ok [OF this assms(2)] have "handles_ok ?u ?w" by blast
  moreover have "referred ?w" using assms(1)
    by (intro handle_steps_referred) (auto simp: multi_new_def referred_def Let_def split: prod.splits sum.splits)
  moreover have "attached Map.empty = {}" by (simp add: attached_def)
  ultimately show ?thesis unfolding Let_def handles_ok_def handles_inv_def referred_def by auto
qed

definition demo_lib :: curl_lib where
  "demo_lib = \<lparr>cl_setopt = (\<lambda>_. None), cl_number = (\<lambda>_. 1), cl_strerror = (\<lambda>_. ''error'')\<rparr>"

definition demo_handles :: handles where
  "demo_handles = snd (multi_new (\<lambda>_. None) (\<lambda>_. 1) True)"

text \<open>A transfer is made and started, the user of the service goes, the transfer is released: four calls.\<close>

definition demo_life :: "handle_event list" where
  "demo_life = [HeCreate (Some 5) [] False 1000, HeExec 10000000 1 None, HeUserGone, HeRelease 10000000 None]"

lemma demo_handles_eq:
  "multi_new (\<lambda>_. None) (\<lambda>_. 1) True = (Inr (), demo_handles)"
  "demo_handles = \<lparr>hw_log = [MultiInit, MultiOpt, MultiOpt, MultiOpt, MultiOpt], hw_sid = 10000000, hw_multi = True,
     hw_service = True, hw_users = 1, hw_refs = 0, hw_objs = Map.empty, hw_aborted = False\<rparr>"
  by (simp_all add: demo_handles_def multi_new_def multi_new_opts_def multi_check_def hw_call_def Let_def)

lemma demo_life_fresh: "lib_fresh demo_lib demo_life demo_handles"
  by (simp add: demo_life_def demo_handles_eq(2) rules0_def)

lemma demo_attach: "attach_error demo_lib None = None" "attach_ops demo_lib None h = [EasyOpt h, MultiAdd h True]"
  by (simp_all add: attach_error_def attach_ops_def multi_check_def set_opts_ok demo_lib_def)

lemma demo_life_run:
  "hw_log (fold (handle_step demo_lib) demo_life demo_handles)
     = [MultiInit, MultiOpt, MultiOpt, MultiOpt, MultiOpt, EasyInit 5, EasyOpt 5, EasyOpt 5, MultiAdd 5 True,
        MultiRemove 5 True, MultiCleanup, EasyCleanup 5]"
  "\<not> hw_service (fold (handle_step demo_lib) demo_life demo_handles)"
proof -
  have e: "easy_new demo_lib True False 1000 10000000
    = (Inr \<lparr>ez_id = 10000000, ez_canceled = False, ez_verbose = False, ez_opts = easy_options False 1000\<rparr>, 10000001)"
    by (simp add: easy_new_def set_opts_ok demo_lib_def)
  note defs = demo_life_def demo_handles_eq(2) handle_step_def transfer_create_def e handle_exec_def transfer_exec_def
    transfer_attach_def transfer_new_def demo_attach transfer_destroy_def transfer_detach_def multi_check_def
    easy_destroy_def service_unref_def service_destroy_def multi_destroy_def hw_call_def Let_def
  show "hw_log (fold (handle_step demo_lib) demo_life demo_handles)
     = [MultiInit, MultiOpt, MultiOpt, MultiOpt, MultiOpt, EasyInit 5, EasyOpt 5, EasyOpt 5, MultiAdd 5 True,
        MultiRemove 5 True, MultiCleanup, EasyCleanup 5]"
    "\<not> hw_service (fold (handle_step demo_lib) demo_life demo_handles)"
    by (simp_all add: defs)
qed

theorem handles_cleaned_witness:
  "let w = fold (handle_step demo_lib) demo_life demo_handles in
     \<not> hw_service w \<and> (\<exists>r. rules_run (hw_log w) rules0 = Some r \<and> \<not> ru_multi r)"
  using handles_cleaned [OF demo_handles_eq(1) demo_life_fresh] demo_life_run(2) by (auto simp: Let_def)

text \<open>The exceptions of the constructors lose the handle: the destructor of an object whose constructor did
  not complete does not run, and the pointer is a plain one.\<close>

lemma refused_option_leaks:
  assumes "easy_new lib True v n (hw_sid w) = (Inl e, sid)"
  shows "hw_log (snd (transfer_create lib (Some h) u v n w)) = hw_log w @ [EasyInit h, EasyOpt h]"
    and "hw_objs (snd (transfer_create lib (Some h) u v n w)) = hw_objs w"
  using assms by (simp_all add: transfer_create_def)

lemma multi_refused_leaks:
  assumes "multi_new setopt number True = (Inl e, w)"
  shows "MultiInit \<in> set (hw_log w)" and "MultiCleanup \<notin> set (hw_log w)" and "\<not> hw_service w"
proof -
  have "MultiCleanup \<notin> set (fst (set_multi_opts setopt number opts))" for opts
    by (induction opts) (auto split: sum.split prod.split)
  from this [of multi_new_opts] show "MultiInit \<in> set (hw_log w)" "MultiCleanup \<notin> set (hw_log w)" "\<not> hw_service w"
    using assms by (auto simp: multi_new_def Let_def split: prod.splits sum.splits)
qed

end
