(* ===== verification/Curl_Engine.thy ===== *)
theory Curl_Engine
  imports Curl_Service
begin

section \<open>The thread of the service (curl/engine.cpp)\<close>

text \<open>
  An engine owns the \<open>io_service\<close>, its service and a thread that runs the \<open>io_service\<close>. Running it returns when it
  has neither a work object nor an operation that waits or a handler to run. The destructor stops the service, drops the
  work object and joins the thread.
\<close>

record engine =
  en_service :: service
  en_work :: bool

definition engine_new :: engine where
  "engine_new = \<lparr>en_service = service_new, en_work = True\<rparr>"

definition engine_step :: "curl_lib \<Rightarrow> service_event \<Rightarrow> engine \<Rightarrow> engine" where
  "engine_step lib ev e = e\<lparr>en_service := service_step lib ev (en_service e)\<rparr>"

text \<open>The destructor, up to the join.\<close>

definition engine_destroy :: "engine \<Rightarrow> engine" where
  "engine_destroy e = e\<lparr>en_service := service_stop (en_service e), en_work := False\<rparr>"

text \<open>What keeps \<open>io_service::run\<close>: timers, sockets and the results that were posted.\<close>

definition service_idle :: "service \<Rightarrow> bool" where
  "service_idle sv \<longleftrightarrow>
     sv_timer sv = None \<and> (\<forall>fd s. socket_of fd sv = Some s \<longrightarrow> sock_idle s) \<and>
     (\<forall>i t. sv_transfers sv i = Some t \<longrightarrow> tf_posted t = [])"

definition run_returns :: "engine \<Rightarrow> bool" where
  "run_returns e \<longleftrightarrow>
     \<not> en_work e \<and> \<not> sv_pinger (en_service e) \<and> \<not> sv_pingdue (en_service e) \<and> service_idle (en_service e)"

lemma engine_steps:
  "en_service (fold (engine_step lib) evs e) = fold (service_step lib) evs (en_service e)"
  "en_work (fold (engine_step lib) evs e) = en_work e"
  by (induction evs arbitrary: e) (simp_all add: engine_step_def)

subsection \<open>The ping timer\<close>

definition ping_off :: "service \<Rightarrow> bool" where
  "ping_off sv \<longleftrightarrow> \<not> sv_pinger sv \<and> \<not> sv_pingdue sv \<and> sv_pingerset sv"

definition ping_on :: "service \<Rightarrow> bool" where
  "ping_on sv \<longleftrightarrow> sv_pinger sv \<or> sv_pingdue sv"

text \<open>
  A property of the timers alone: it does not look at the sockets, the transfers and the log, so it holds through the
  handlers of sockets too.
\<close>

locale control_invariant =
  fixes P :: "service \<Rightarrow> bool"
  assumes ctl_frame: "P sv \<Longrightarrow> P (sv\<lparr>sv_sockets := x, sv_closed := y, sv_calls := z, sv_transfers := ts\<rparr>)"
    and ctl_timer: "P sv \<Longrightarrow> \<forall>t. tm = Some t \<longrightarrow> 0 < t \<Longrightarrow> P (sv\<lparr>sv_timer := tm\<rparr>)"
    and ctl_pinger: "P sv \<Longrightarrow> \<not> sv_pingerset sv \<Longrightarrow> P (sv\<lparr>sv_pinger := True, sv_pingerset := True\<rparr>)"
begin

lemma ctl_sockets: "P sv \<Longrightarrow> P (sv\<lparr>sv_sockets := x\<rparr>)"
  using ctl_frame [where sv = sv and x = x and y = "sv_closed sv" and z = "sv_calls sv" and ts = "sv_transfers sv"] by simp

lemma ctl_closed: "P sv \<Longrightarrow> P (sv\<lparr>sv_closed := y\<rparr>)"
  using ctl_frame [where sv = sv and x = "sv_sockets sv" and y = y and z = "sv_calls sv" and ts = "sv_transfers sv"] by simp

lemma ctl_calls: "P sv \<Longrightarrow> P (sv\<lparr>sv_calls := z\<rparr>)"
  using ctl_frame [where sv = sv and x = "sv_sockets sv" and y = "sv_closed sv" and z = z and ts = "sv_transfers sv"] by simp

lemma ctl_transfers: "P sv \<Longrightarrow> P (sv\<lparr>sv_transfers := ts\<rparr>)"
  using ctl_frame [where sv = sv and x = "sv_sockets sv" and y = "sv_closed sv" and z = "sv_calls sv" and ts = ts] by simp

lemma ctl_update: "P sv \<Longrightarrow> P (service_update fd what prev sv)"
  by (simp add: service_update_def ctl_sockets split: option.split)

end

sublocale control_invariant \<subseteq> service_invariant
proof unfold_locales
  fix sv err fd what assigned purpose socktype made tm ts
  assume P: "P sv"
  show "P (snd (service_action err fd what assigned sv))"
    using P by (simp add: service_action_def service_add_def ctl_sockets ctl_update split: option.split)
  have "P (sv\<lparr>sv_sockets := x, sv_closed := y\<rparr>)" for x y
    using P ctl_frame [where sv = sv and x = x and y = y and z = "sv_calls sv" and ts = "sv_transfers sv"] by simp
  then show "P (snd (service_close fd sv))" using P by (simp add: service_close_def split: option.split)
  show "P (snd (service_socket purpose socktype made sv))"
    using P by (simp add: service_socket_def Let_def ctl_sockets split: option.split sum.split)
  show "P (sv\<lparr>sv_calls := sv_calls sv @ [(CURL_SOCKET_TIMEOUT, 0)]\<rparr>)" using P by (rule ctl_calls)
  show "P (sv\<lparr>sv_timer := tm\<rparr>)" if "\<forall>t. tm = Some t \<longrightarrow> 0 < t" using P that by (rule ctl_timer)
  show "P (sv\<lparr>sv_pinger := True, sv_pingerset := True\<rparr>)" if "\<not> sv_pingerset sv" using P that by (rule ctl_pinger)
  show "P (sv\<lparr>sv_transfers := ts\<rparr>)" using P by (rule ctl_transfers)
qed

context control_invariant begin

lemma inv_put: "P sv \<Longrightarrow> P (put_socket fd s sv)"
  by (simp add: put_socket_def ctl_sockets ctl_closed)

lemma inv_drop: "P sv \<Longrightarrow> P (drop_idle fd sv)"
  by (simp add: drop_idle_def ctl_closed split: option.split)

lemma inv_handler: "P sv \<Longrightarrow> P (run_handler lib fd call sv)"
proof -
  assume P: "P sv"
  have "P (multi_process lib fd evs call sv')" if "P sv'" for evs sv'
    using that by (intro inv_process ctl_calls)
  then have "P (socket_handler lib fd s st evs call sv')" if "P sv'" for s st evs sv'
    using that by (simp add: socket_handler_def Let_def ctl_update split: option.split)
  with P show ?thesis
    by (simp add: run_handler_def Let_def inv_put inv_drop split: option.split list.split prod.split)
qed

text \<open>Every event but those of the ping timer and the stop.\<close>

lemma inv_step:
  assumes "P sv" and "ev \<notin> {EvPingDue, EvPinger, EvStop}"
  shows "P (service_step lib ev sv)"
  using assms
  by (cases ev) (auto simp: service_transfer_def inv_handler inv_timer_fired inv_exec inv_release inv_put ctl_transfers
      split: option.split)

end

interpretation off: control_invariant ping_off
  by unfold_locales (simp_all add: ping_off_def)

interpretation on: control_invariant ping_on
  by unfold_locales (simp_all add: ping_on_def)

lemma ping_off_step: "ping_off sv \<Longrightarrow> ping_off (service_step lib ev sv)"
  by (cases "ev \<in> {EvPingDue, EvPinger, EvStop}")
    (auto simp: off.inv_step, auto simp: ping_off_def service_stop_def)

lemma ping_on_step: "ping_on sv \<Longrightarrow> ev \<noteq> EvStop \<Longrightarrow> ping_on (service_step lib ev sv)"
  by (cases "ev \<in> {EvPingDue, EvPinger}") (auto simp: on.inv_step, auto simp: ping_on_def service_pinger_def)

text \<open>C38: when the destructor runs while the ping timer waits, the ping timer stays off for good, and the join returns as
  soon as the sockets, the other timer and the posted results are done; but when the ping timer has just expired, its
  handler sets it again, and the join never returns, whatever happens.\<close>

theorem engine_join:
  assumes "sv_pingerset (en_service e)" and "EvStop \<notin> set evs"
  shows "let e' = fold (engine_step lib) evs (engine_destroy e)
         in if sv_pingdue (en_service e) then \<not> run_returns e' else run_returns e' \<longleftrightarrow> service_idle (en_service e')"
proof -
  have off: "ping_off sv \<Longrightarrow> ping_off (fold (service_step lib) evs sv)" for sv
    by (induction evs arbitrary: sv) (simp_all add: ping_off_step)
  have on: "ping_on sv \<Longrightarrow> ping_on (fold (service_step lib) evs sv)" for sv
    using assms(2)
  proof (induction evs arbitrary: sv)
    case (Cons ev evs)
    then show ?case using ping_on_step [of sv ev lib] by auto
  qed simp
  show ?thesis
  proof (cases "sv_pingdue (en_service e)")
    case True
    then have "ping_on (en_service (engine_destroy e))"
      by (simp add: ping_on_def engine_destroy_def service_stop_def)
    from on [OF this] show ?thesis using True
      by (auto simp: Let_def run_returns_def engine_steps ping_on_def)
  next
    case False
    then have "ping_off (en_service (engine_destroy e))"
      using assms(1) by (simp add: ping_off_def engine_destroy_def service_stop_def)
    from off [OF this] show ?thesis using False
      by (simp add: Let_def run_returns_def engine_steps ping_off_def engine_destroy_def)
  qed
qed

text \<open>The first timer of the library sets the ping timer; it expires just before the destructor.\<close>

definition demo_engine :: "service_event list \<Rightarrow> engine" where
  "demo_engine evs = fold (engine_step demo_lib) evs engine_new"

theorem engine_join_witness:
  "\<not> run_returns (fold (engine_step demo_lib) [EvPinger, EvPingDue]
       (engine_destroy (demo_engine [EvTransfer 0, EvExec 0 9 [CbTimer (-1) (CurlCall [] None 0 [])] None, EvPingDue])))
   \<and> run_returns (engine_destroy (demo_engine [EvTransfer 0, EvExec 0 9 [CbTimer (-1) (CurlCall [] None 0 [])] None]))"
proof -
  have d: "sv_pingerset (en_service (demo_engine [EvTransfer 0, EvExec 0 9 [CbTimer (-1) (CurlCall [] None 0 [])] None, EvPingDue]))"
    "sv_pingdue (en_service (demo_engine [EvTransfer 0, EvExec 0 9 [CbTimer (-1) (CurlCall [] None 0 [])] None, EvPingDue]))"
    "sv_pingerset (en_service (demo_engine [EvTransfer 0, EvExec 0 9 [CbTimer (-1) (CurlCall [] None 0 [])] None]))"
    "\<not> sv_pingdue (en_service (demo_engine [EvTransfer 0, EvExec 0 9 [CbTimer (-1) (CurlCall [] None 0 [])] None]))"
    by (simp_all add: demo_engine_def engine_step_def engine_new_def service_eval demo_multi_opts cancelTimer_def service_pinger_def)
  have "service_idle (en_service (engine_destroy (demo_engine [EvTransfer 0, EvExec 0 9 [CbTimer (-1) (CurlCall [] None 0 [])] None])))"
    by (simp add: service_idle_def engine_destroy_def service_stop_def demo_engine_def engine_step_def engine_new_def service_eval
        demo_multi_opts cancelTimer_def service_pinger_def)
  then show ?thesis
    using engine_join [OF d(1), of "[EvPinger, EvPingDue]" demo_lib] engine_join [OF d(3), of "[]" demo_lib] d
    by (simp add: Let_def)
qed

end
