(* ===== verification/Spec2Isabelle.thy ===== *)
theory Spec2Isabelle
  imports Prelude Ip_Packet Udp_Checksum Pcap_Ostream Parsers Parser_Factory Voip Voip_Block
    Scgi_Parser Scgi_Service Scgi_Server Scgi_Conversation Sockets Grabber Livecapture Live_Client Live_Signals Live_Threads Pcap_Core Socket_Life
    Scgi_Threads Redis Redis_Script Esl Curl_Text Curl_Transfer Curl_Requests Curl_Sync Curl_Service Curl_Handles Curl_Engine
begin

text \<open>
  This library models the C++ components of the repository, which are parts of a telephony and monitoring
  system: packet capture and parsing (\<open>src/pcap\<close>), live capture over sockets (\<open>src/livecapture\<close>, \<open>src/sockets\<close>),
  an SCGI request server (\<open>src/scgi\<close>), a FreeSWITCH event client (\<open>src/esl\<close>), a Redis client (\<open>src/redis\<close>) and an
  asynchronous layer over libcurl (\<open>src/curl\<close>).

  \<^bold>\<open>How the parts interact.\<close> A capture device gives frames to the \<open>Sniffer\<close>, which parses them with a parser of the
  \<open>Factory\<close> and notifies its subscribers; a subscriber of the live capture filters the packets and writes them to its
  client through the write queue of \<open>BaseConnection\<close>. An SCGI connection of the same sockets layer feeds the framing
  \<open>Parser\<close>, whose messages the \<open>Dispatcher\<close> turns into requests for handlers, whose responses go back through the
  connection. Redis, esl and curl are clients of their servers and are used on their own.

  \<^bold>\<open>Theories and code.\<close>
  \<^item> \<open>Prelude\<close>: bytes, results with the exceptions of the program as values, little-endian integers, C strings and
    decimal text, reads of a buffer (a read outside is \<open>BadAccess\<close>), and the locale \<open>chunk_consumer\<close> of components
    that get a stream in pieces.
  \<^item> \<open>Ip_Packet\<close>, \<open>Udp_Checksum\<close>, \<open>Pcap_Ostream\<close>: \<open>pcap/tools/ippacket\<close>, \<open>ostream\<close>. The record \<open>packet\<close> holds the
    fields of \<open>IPPacket\<close>, a \<open>sink\<close> the output stream; when the UDP checksum of a packet is right.
  \<^item> \<open>Parsers\<close>, \<open>Parser_Factory\<close>: \<open>pcap/parsers\<close> except the reassemblers; one \<open>payload\<close> function per class.
  \<^item> \<open>Voip\<close>: \<open>pcap/parsers/voip\<close>, \<open>tcpreassembler\<close>; \<open>ra_process\<close> is \<open>Reassembler::process\<close>. \<open>Voip_Block\<close>:
    the headers under \<open>pcap/parsers/voipmonitor\<close>, the format of the blocks that \<open>Voip\<close> takes apart.
  \<^item> \<open>Scgi_Parser\<close>, \<open>Scgi_Service\<close>, \<open>Scgi_Server\<close>: \<open>scgi\<close>; framing, requests, responses and dispatch, pool and server.
    \<open>Scgi_Conversation\<close>: client and server of SCGI at both ends of two connections. \<open>Scgi_Threads\<close>: the calls of
    pool and dispatcher interleaved on several threads.
  \<^item> \<open>Sockets\<close>: \<open>sockets\<close>; the write queue, tcp, udp and web connections, listening on a range of ports.
    \<open>Socket_Life\<close>: every operation pending on a socket until it is closed and let go.
  \<^item> \<open>Grabber\<close>, \<open>Livecapture\<close>, \<open>Live_Client\<close>: \<open>pcap/grabber\<close>, \<open>livecapture\<close>; servers, and the life of a client.
    \<open>Live_Signals\<close>: who is connected to whose signal, with signals and destructors running at the same time. \<open>Live_Threads\<close>: the
    references to the grabber, and the thread on which its destructor waits for the servers.
    \<open>Pcap_Core\<close>: \<open>pcap/core\<close>, the constructors of the sockets layer and of the capture servers, from the
    configuration to the port of a server.
  \<^item> \<open>Redis\<close>: commands, replies, transactions, scans, pipeline, scripts and the entity classes of \<open>redis\<close>.
    \<open>Redis_Script\<close>: scripts and pipelines as objects.
  \<^item> \<open>Esl\<close>: command, event and the poll thread of \<open>esl/client\<close>.
  \<^item> \<open>Curl_Text\<close>: \<open>curl/urilite\<close>, \<open>url\<close>. \<open>Curl_Transfer\<close>: \<open>easy\<close>, \<open>transfer\<close>. \<open>Curl_Requests\<close>: \<open>slist\<close>,
    \<open>rmfiles\<close>, \<open>httprequest\<close>, \<open>jsonrpc\<close>, \<open>downloader\<close>, \<open>remotedir\<close>; their states extend the record of
    the transfer as the classes derive from \<open>Transfer\<close>. \<open>Curl_Sync\<close>: \<open>syncwait\<close>, a synchronous call on two
    threads. \<open>Curl_Service\<close>: \<open>multi\<close>, \<open>service\<close>, \<open>socket\<close>, \<open>tcpsocket\<close>, \<open>udpsocket\<close>; the handlers of the
    \<open>io_service\<close> are the steps \<open>service_step\<close>. \<open>Curl_Handles\<close>: the options of a handle, and the handles of libcurl
    from making to clean-up. \<open>Curl_Engine\<close>: \<open>engine\<close>, its destructor and when the join of its thread returns.
  \<^item> This theory: the properties across components, from what \<open>OStream\<close> writes to what the parsers read, and from
    the capture device to the client of the live capture.

  \<^bold>\<open>How it is modelled.\<close> A class is a record, an operation a function from states to states, an exception a value
  of \<open>error\<close>. Asynchronous code is a sequence of steps: an operation that is started is pending until an event
  completes it. The network, libcurl, libpcap, snappy, redis3m, boost and the JSON library are not under
  \<open>src\<close>: what their calls answer is an argument, and the results hold for every answer unless a named law says what the
  code relies on. Words keep their width where they come from the wire; counts of bytes in memory are naturals.

  \<^bold>\<open>Interfaces.\<close> What a class promises to those that use it is a locale, interpreted on the definitions of each class
  that provides it: \<open>chunk_consumer\<close> (SCGI framing, bodies of JSON-RPC and of listings), \<open>frame_parser\<close>,
  \<open>payload_parser\<close> and \<open>ip_parser\<close> (the class hierarchy of the packet parsers), \<open>transfer_class\<close> (classes that
  override \<open>done\<close> of a transfer), \<open>service_invariant\<close> and \<open>control_invariant\<close> (what holds through the nested
  callbacks of libcurl).

  \<^bold>\<open>What the lemmas show.\<close> Round trips (packets and pcap files that the program writes are read back; requests;
  percent encoding); that streams may be cut anywhere (SCGI, HTTP bodies) or anywhere within a block behind its header (VoIP) without
  changing what is delivered;
  memory safety of the parsers as the absence of \<open>BadAccess\<close>; order and completeness of deliveries (write queue,
  dispatcher, capture, events, whole conversations); invariants of reachable states (pool and capture limits, also with the threads
  interleaved, watched sockets, typed masks); that no slot begins on an object that has disconnected it; results and errors on every
  branch of the requests; termination of the loops, of a call that waits for another thread, of a connection once it is
  closed, and of the destructors that wait. Some lemmas show a flaw of the code
  on an input; they are in the theory of their component.

  \<^bold>\<open>Bounds and fuel.\<close> \<open>removex\<close> of Redis loops until a scan finds nothing; its model has fuel, and the
  theorem gives an amount, one full scan for each key and one more, with which it returns. Listening on a range of
  ports tries 5000 times and a download tries ten names as in the code. All other loops recurse on their data.

  \<^bold>\<open>Not modelled.\<close> Logging and tracing, statistics of time, destructors that only free memory; \<open>Engine::test\<close>, which
  prints a listing; the operations that \<open>pcap_queue_block.h\<close> only declares and its stack of headers, which \<open>#if(0)\<close>
  switches off. The models take the handlers of one service one after the
  other, except in \<open>Curl_Sync\<close>, \<open>Live_Signals\<close>, \<open>Live_Threads\<close> and \<open>Scgi_Threads\<close>, where threads interleave between their accesses to
  what they share; weak memory is outside all of them.
\<close>

section \<open>Properties that span components\<close>

subsection \<open>What OStream writes, the parsers read\<close>

lemma word_le_first: "word_le 4 (w :: u32) ! 0 = ucast w"
proof -
  have "word_le (Suc 3) w ! 0 = word_of_nat (unat w)" by (simp only: word_le_def to_le.simps nth_Cons_0)
  then show ?thesis by (simp add: eval_nat_numeral)
qed

lemma ip6_flow_version: "nib_hi (word_le 4 (ip6_flow s) ! 0) = 6"
proof -
  have "take_bit 8 (ip6_flow s) = (0x60 :: u32)"
    by (simp add: ip6_flow_def take_bit_or take_bit_push_bit)
  then have "unat (ucast (ip6_flow s) :: byte) = 0x60"
    by (simp add: unsigned_ucast_eq unsigned_take_bit_eq [symmetric])
  then show ?thesis by (simp add: word_le_first nib_hi_def drop_bit_eq_div unat_div_distrib)
qed

lemma headerSize_dataLinkSize: "dataLinkSize dl = Inr n \<Longrightarrow> headerSize dl len = n"
  by (auto simp: dataLinkSize_def headerSize_def split: if_splits)

lemma udp_head_fields:
  assumes "8 + n < 65536"
  shows "htons (le_word (take 2 (udp_head sp dp n check))) = sp"
    and "htons (le_word (take 2 (drop 2 (udp_head sp dp n check)))) = dp"
    and "unat (htons (le_word (take 2 (drop 4 (udp_head sp dp n check)))) :: u16) = 8 + n"
proof -
  have "unat (word_of_nat (8 + n) :: u16) = 8 + n" using assms by (simp only: unat_of_nat) simp
  then show "unat (htons (le_word (take 2 (drop 4 (udp_head sp dp n check)))) :: u16) = 8 + n"
    by (simp add: udp_head_def le_word_word_le del: of_nat_add)
qed (simp_all add: udp_head_def le_word_word_le)


text \<open>What a caller relies on of \<open>inet_pton\<close> and \<open>inet_ntop\<close>: printing the address of a text gives the
  text back, for the texts in canonical form.\<close>

definition canonical_text :: "pton \<Rightarrow> ntop \<Rightarrow> int \<Rightarrow> string \<Rightarrow> bool" where
  "canonical_text pton ntop af s \<longleftrightarrow>
     (case pton af (c_str s) of None \<Rightarrow> False | Some a \<Rightarrow> ntop af a = Some s \<and> c_str s = s)"

lemma canonical_text_str:
  assumes "canonical_text pton ntop af s" and "getIPAddr pton af s = Some a"
  shows "ntop af a = Some s" and "c_str s = s"
  using assms by (simp_all add: canonical_text_def getIPAddr_def)

text \<open>C3: a packet that \<open>OStream\<close> writes is read back by the UDP parser of the capture side. For any data
  link the writer supports, IPv4 or IPv6, any non-empty payload whose datagram of 8 bytes more is
  shorter than 65536, and addresses written in the form that \<open>inet_ntop\<close> gives back, the parser
  delivers exactly the payload, and the information of the packet has the addresses and ports it was
  written with. An empty payload is a datagram of 8 bytes, which the parser passes over, and an
  address in another notation comes back in the canonical one.\<close>

theorem written_packet_parses_back:
  assumes new: "ip_packet_new pton seq dl af proto sa sp da dp data sm dm = Inr (p, seq')"
    and pton: "pton_lengths pton"
    and canon: "canonical_text pton ntop af sa" "canonical_text pton ntop af da"
    and data: "data \<noteq> []" "8 + length data < 65536"
  shows "parser_packets UdpP ntop dl (serialize_packet p) ts = Inr
    [\<lparr>pkt_data = data, pkt_info =
       \<lparr>pi_ip = (if af = AF_INET then 4 else 6), pi_proto = IPPROTO_UDP, pi_ts = ts,
        pi_srcAddr = sa, pi_srcPort = sp, pi_dstAddr = da, pi_dstPort = dp\<rparr>\<rparr>]"
proof -
  have ser: "serialize_packet p = pk_buf p @ data"
    using ip_packet_new_buf [OF new pton] by (simp add: serialize_packet_def)
  from new consider "af = AF_INET" | "af = AF_INET6" using ip_packet_new_af by blast
  then show ?thesis
  proof cases
    case 1
    show ?thesis
    proof (rule ip_packet_new_ipv4 [OF new [unfolded 1] pton])
      fix link saddr daddr :: bytes and check :: u16
      assume link: "dataLinkSize dl = Inr (length link)"
        and addr: "getIPAddr pton AF_INET sa = Some saddr" "getIPAddr pton AF_INET da = Some daddr"
        and len: "length saddr = 4" "length daddr = 4"
        and buf: "pk_buf p = (let h = ipv4_head (28 + length data) (seq + 1); t = saddr @ daddr
           in link @ h @ word_le 2 (calcCheckSumm (h @ [0, 0] @ t)) @ t @ udp_head sp dp (length data) check)"
      let ?h = "ipv4_head (28 + length data) (seq + 1)"
      define ip where "ip = ?h @ word_le 2 (calcCheckSumm (?h @ [0, 0] @ saddr @ daddr)) @ saddr @ daddr"
      have ip: "ipv4_hdr ip" using len
        by (simp add: ip_def ipv4_hdr_def ipv4_head_def nib_hi_def nib_lo_def)
      have str: "ipv4_str ntop saddr = sa" "ipv4_str ntop daddr = da"
        using canonical_text_str [OF canon(1) addr(1) [folded 1]] canonical_text_str [OF canon(2) addr(2) [folded 1]] 1
        by (simp_all add: ipv4_str_def)
      have info: "ip_info ntop ip info = info\<lparr>pi_ip := 4, pi_proto := 17, pi_srcAddr := sa, pi_dstAddr := da\<rparr>" for info
        using len str by (simp add: ip_def ip_info_def ipv4_head_def nib_hi_def nth_append)
      have all: "serialize_packet p = link @ ip @ udp_head sp dp (length data) check @ data"
        unfolding ser buf Let_def ip_def by simp
      show ?thesis
        unfolding all
        by (subst udp_parser_delivers)
          (use data ip 1 in \<open>simp_all add: headerSize_dataLinkSize [OF link] udp_head_fields info pinfo0_def\<close>)
    qed
  next
    case 2
    show ?thesis
    proof (rule ip_packet_new_ipv6 [OF new [unfolded 2] pton])
      fix link saddr daddr :: bytes and check :: u16
      assume link: "dataLinkSize dl = Inr (length link)"
        and addr: "getIPAddr pton AF_INET6 sa = Some saddr" "getIPAddr pton AF_INET6 da = Some daddr"
        and len: "length saddr = 16" "length daddr = 16"
        and buf: "pk_buf p = link @ word_le 4 (ip6_flow (seq + 1))
           @ word_le 2 (htons (word_of_nat (48 + length data))) @ [17, 32] @ saddr @ daddr
           @ udp_head sp dp (length data) check"
      define ip where "ip = word_le 4 (ip6_flow (seq + 1)) @ word_le 2 (htons (word_of_nat (48 + length data))) @ [17, 32] @ saddr @ daddr"
      have v: "nib_hi (ip ! 0) = 6" using ip6_flow_version [of "seq + 1"] by (simp add: ip_def nth_append)
      have ip: "ipv6_hdr ip" unfolding ipv6_hdr_def using len v by (simp add: ip_def)
      have str: "ipv6_str ntop saddr = sa" "ipv6_str ntop daddr = da"
        using canonical_text_str [OF canon(1) addr(1) [folded 2]] canonical_text_str [OF canon(2) addr(2) [folded 2]] 2
        by (simp_all add: ipv6_str_def)
      have info: "ip_info ntop ip info = info\<lparr>pi_ip := 6, pi_proto := 17, pi_srcAddr := sa, pi_dstAddr := da\<rparr>" for info
        unfolding ip_info_def v using len str by (simp add: ip_def nth_append)
      have all: "serialize_packet p = link @ ip @ udp_head sp dp (length data) check @ data"
        unfolding ser buf ip_def by simp
      show ?thesis
        unfolding all
        by (subst udp_parser_delivers)
          (use data ip 2 in \<open>simp_all add: headerSize_dataLinkSize [OF link] udp_head_fields info pinfo0_def\<close>)
    qed
  qed
qed

theorem written_packet_parses_back_witness:
  "\<exists>p s pkt. ip_packet_new demo_pton flowSeq_init DLT_EN10MB AF_INET6 17 ''a'' 5060 ''a'' 5061 [1, 2, 3] None None = Inr (p, s)
    \<and> parser_packets UdpP (\<lambda>af a. Some ''a'') DLT_EN10MB (serialize_packet p) demo_ts = Inr [pkt]
    \<and> pkt_data pkt = [1, 2, 3]"
proof -
  obtain p s where new: "ip_packet_new demo_pton flowSeq_init DLT_EN10MB AF_INET6 17 ''a'' 5060 ''a'' 5061 [1, 2, 3] None None = Inr (p, s)"
    using demo_packet [of AF_INET6 "''a''"] by auto
  have "canonical_text demo_pton (\<lambda>af a. Some ''a'') AF_INET6 ''a''"
    by (simp add: canonical_text_def demo_pton_def c_str_def)
  from written_packet_parses_back [OF new demo_pton_lengths this this] new show ?thesis by simp
qed


subsection \<open>From the wire to the live client\<close>

text \<open>The connection of the client, while the capture goes on: the service runs the handler of a packet, or that of a send
  that has ended, with the whole message taken, with a part of it, or with an error.\<close>

datatype send_end = SentWhole | SentPart nat | SendFailed nat

datatype conn_event = HandlePacket message | SendEnded send_end

definition conn_do :: "u16 \<Rightarrow> (timeval \<Rightarrow> string) \<Rightarrow> string \<Rightarrow> conn_event \<Rightarrow> bconn \<Rightarrow> bconn" where
  "conn_do junk isostr flt e c =
     (case e of
        HandlePacket m \<Rightarrow> conn_handle (\<lambda>_. True) junk isostr flt m c
      | SendEnded r \<Rightarrow>
          if bc_inflight c = 0 then c
          else (case r of
                  SentWhole \<Rightarrow> bc_handler (\<lambda>_. True) False (length (wire (hd (bc_queue c)))) c
                | SentPart n \<Rightarrow> bc_handler (\<lambda>_. True) False n c
                | SendFailed n \<Rightarrow> bc_handler (\<lambda>_. True) True n c))"

fun handled :: "conn_event list \<Rightarrow> message list" where
  "handled [] = []"
| "handled (HandlePacket m # es) = m # handled es"
| "handled (SendEnded r # es) = handled es"

lemma handled_map: "handled (map HandlePacket ms) = ms"
  by (induction ms) simp_all

lemma handled_sends: "handled (replicate n (SendEnded r)) = []"
  by (induction n) simp_all

lemma conn_do_taken: "bc_taken ks c \<Longrightarrow> \<exists>ks'. bc_taken ks' (conn_do junk isostr flt e c)"
  by (cases "bc_inflight c = 0")
    (auto simp: conn_do_def conn_handle_def split: conn_event.split send_end.split option.split
      intro: bc_taken_write exI [of _ ks] bc_taken_handler exI [of _ "ks @ [_]"])

lemma fold_taken: "bc_taken ks c \<Longrightarrow> \<exists>ks'. bc_taken ks' (fold (conn_do junk isostr flt) es c)"
proof (induction es arbitrary: ks c)
  case (Cons e es)
  obtain ks1 where "bc_taken ks1 (conn_do junk isostr flt e c)" using conn_do_taken [OF Cons.prems] by blast
  then show ?case using Cons.IH by simp
qed auto

text \<open>As long as every send takes its message as a whole, one is under way while messages wait.\<close>

definition flowing :: "bconn \<Rightarrow> bool" where
  "flowing c \<longleftrightarrow> bc_inv True c \<and> (bc_queue c \<noteq> [] \<longrightarrow> bc_inflight c = 1)"

definition sent_whole :: "conn_event \<Rightarrow> bool" where
  "sent_whole e \<longleftrightarrow> (\<forall>r. e = SendEnded r \<longrightarrow> r = SentWhole)"

lemma flowing_new: "flowing bconn_new"
  by (simp add: flowing_def bc_inv_new) (simp add: bconn_new_def)

lemma flowing_do:
  assumes "flowing c" and "sent_whole e"
  shows "flowing (conn_do junk isostr flt e c)"
proof (cases e)
  case (HandlePacket m)
  have "flowing (bc_write (\<lambda>_. True) x c)" for x
    using assms(1) bc_inv_write [of True c "\<lambda>_. True" x] by (cases "bc_queue c")
      (auto simp: flowing_def bc_write_def bc_send_front_def bc_inv_def Let_def)
  with assms(1) HandlePacket show ?thesis by (auto simp: conn_do_def conn_handle_def split: option.split)
next
  case (SendEnded r)
  then have r: "r = SentWhole" using assms(2) by (simp add: sent_whole_def)
  show ?thesis
  proof (cases "bc_queue c")
    case (Cons m q)
    have "bc_inv True (bc_handler (\<lambda>_. True) False (length (wire (hd (bc_queue c)))) c)"
      using assms(1) Cons by (intro bc_inv_handler) (simp_all add: flowing_def)
    then show ?thesis using assms(1) Cons SendEnded r
      by (cases q) (simp_all add: flowing_def conn_do_def bc_handler_def bc_send_front_def Let_def)
  next
    case Nil
    then have "bc_inflight c = 0" using assms(1) by (auto simp: flowing_def bc_inv_def)
    then show ?thesis using assms(1) SendEnded by (simp add: conn_do_def)
  qed
qed

lemma flowing_fold: "flowing c \<Longrightarrow> \<forall>e \<in> set es. sent_whole e \<Longrightarrow> flowing (fold (conn_do junk isostr flt) es c)"
  by (induction es arbitrary: c) (simp_all add: flowing_do)

lemma conn_do_posted:
  "map wire (bc_posted (conn_do junk isostr flt e c))
    = map wire (bc_posted c) @ map (packet_text isostr) (filter (wanted flt) (handled [e]))"
  by (cases e)
    (auto simp: conn_do_def conn_handle_posted posted_wire bc_handler_def bc_send_front_def Let_def split: list.split send_end.split)

lemma posted_fold:
  "map wire (bc_posted (fold (conn_do junk isostr flt) es c))
    = map wire (bc_posted c) @ map (packet_text isostr) (filter (wanted flt) (handled es))"
proof (induction es arbitrary: c)
  case (Cons e es)
  then show ?case by (cases e) (simp_all add: conn_do_posted)
qed simp

text \<open>A send that has ended shortens the queue.\<close>

lemma sends_drain:
  "flowing c \<Longrightarrow> bc_queue (fold (conn_do junk isostr flt) (replicate (length (bc_queue c)) (SendEnded SentWhole)) c) = []"
proof (induction "length (bc_queue c)" arbitrary: c)
  case (Suc n)
  then obtain m q where q: "bc_queue c = m # q" "bc_inflight c = 1"
    by (cases "bc_queue c") (auto simp: flowing_def)
  let ?c = "conn_do junk isostr flt (SendEnded SentWhole) c"
  have "bc_queue ?c = q" using q by (cases q) (simp_all add: conn_do_def bc_handler_def bc_send_front_def Let_def)
  moreover have "flowing ?c" using Suc.prems by (rule flowing_do) (simp add: sent_whole_def)
  ultimately show ?case using Suc.hyps(1) [of ?c] Suc.hyps(2) q by simp
qed simp

text \<open>C4: the whole path of a live capture: the frames a device captures, in any batches, are parsed by the parser object of
  the sniffer, stateless or a reassembler (which must not read out of bounds on them), filtered and sent to the client
  that asked for them. However the handlers of the packets and the ends of the sends are interleaved, and whether a send ends with the whole message taken, with a part
  of it or with an error, what the transport has taken is a part of the text - header line and payload - of each of the
  first packets that the parser found and that match the filter, in their order, nothing twice and nothing else. As
  long as every send took its whole message, it is a beginning of the text of the capture, one send is under way while
  messages wait, and when the sends under way have ended all of it has been sent.\<close>

theorem capture_reaches_client:
  assumes "sn_notified s = []" and "obj_messages snap ntop tcp (concat batches) (sn_parser s) = (found, False, p)"
    and "capture_run now (sniffer_cb snap ntop tcp) (map (\<lambda>fs. (EcOk, map got fs @ [NoData])) batches) s = (going, s')"
    and "handled es @ later = sn_notified s'"
    and "c = fold (conn_do junk isostr flt) es bconn_new"
    and "c' = fold (conn_do junk isostr flt) (replicate (length (bc_queue c)) (SendEnded SentWhole)) c"
  shows "(\<exists>ks. length ks \<le> length (filter (wanted flt) (handled es))
        \<and> bc_wire c = parts ks (map (packet_text isostr) (filter (wanted flt) found)))
    \<and> ((\<forall>e \<in> set es. sent_whole e) \<longrightarrow>
        (\<exists>rest. concat (map (packet_text isostr) (filter (wanted flt) found)) = bc_wire c @ rest)
        \<and> (bc_queue c \<noteq> [] \<longrightarrow> bc_inflight c = 1) \<and> bc_queue c' = []
        \<and> (later = [] \<longrightarrow> bc_wire c' = concat (map (packet_text isostr) (filter (wanted flt) found))))"
proof -
  have "sn_notified s' = found"
    using capture_run_batches [of now snap ntop tcp batches "[]" s] assms(1-3) by (simp add: after_frames_def)
  then have found: "found = handled es @ later" using assms(4) by simp
  have posted: "map wire (bc_posted c) = map (packet_text isostr) (filter (wanted flt) (handled es))"
    by (simp add: assms(5) posted_fold bconn_new_def)
  obtain ks where "bc_taken ks c" using fold_taken [OF bc_taken_new] assms(5) by blast
  then have w: "bc_wire c = parts ks (map wire (bc_posted c))" and ks: "length ks \<le> length (map wire (bc_posted c))"
    unfolding bc_taken_def length_map by blast+
  have "length ks \<le> length (filter (wanted flt) (handled es))" using ks unfolding posted by simp
  moreover have "bc_wire c = parts ks (map (packet_text isostr) (filter (wanted flt) found))"
    using w parts_more [OF ks] by (simp add: found posted)
  moreover have "(\<exists>rest. concat (map (packet_text isostr) (filter (wanted flt) found)) = bc_wire c @ rest)
        \<and> (bc_queue c \<noteq> [] \<longrightarrow> bc_inflight c = 1) \<and> bc_queue c' = []
        \<and> (later = [] \<longrightarrow> bc_wire c' = concat (map (packet_text isostr) (filter (wanted flt) found)))"
    if whole: "\<forall>e \<in> set es. sent_whole e"
  proof -
    have wire: "concat (map wire (bc_posted d)) = bc_wire d @ concat (map wire (bc_queue d))" if "flowing d" for d
      using that by (auto simp: flowing_def bc_inv_def bc_stuck_def)
    have c: "flowing c" unfolding assms(5) using whole by (intro flowing_fold flowing_new)
    have c': "flowing c'" unfolding assms(6) by (intro flowing_fold c) (simp add: sent_whole_def)
    have q: "bc_queue c' = []" using sends_drain [OF c] by (simp add: assms(6))
    have "map wire (bc_posted c') = map wire (bc_posted c)"
      using posted_fold [of junk isostr flt "replicate (length (bc_queue c)) (SendEnded SentWhole)" c]
      by (simp add: assms(6) handled_sends)
    then have "bc_wire c' = concat (map wire (bc_posted c))" using wire [OF c'] q by simp
    then show ?thesis using wire [OF c] c q by (auto simp: posted found flowing_def)
  qed
  ultimately show ?thesis by blast
qed

text \<open>One captured frame, whose packet is sent as a whole.\<close>

theorem capture_reaches_client_witness:
  "\<exists>s' m. capture_run demo_ts (sniffer_cb demo_snap demo_ntop demo_tcp) [(EcOk, [Got demo_frame demo_ts, NoData])]
        (sniffer_new (SimpleObj SmartP DLT_RAW)) = (True, s')
    \<and> bc_wire (let c = fold (conn_do 0 (\<lambda>_. ''t'') ''*'') (map HandlePacket (sn_notified s')) bconn_new
        in fold (conn_do 0 (\<lambda>_. ''t'') ''*'') (replicate (length (bc_queue c)) (SendEnded SentWhole)) c) = packet_text (\<lambda>_. ''t'') m"
proof -
  let ?s = "sniffer_new (SimpleObj SmartP DLT_RAW) :: unit sniffer"
  obtain pkt where p: "parser_packets SmartP demo_ntop DLT_RAW demo_frame demo_ts = Inr [pkt]"
    using demo_frame_smart by blast
  then have "pkt_data pkt \<noteq> []"
    using payload_parser.packets_shape [OF payload_of_parser, of SmartP demo_ntop DLT_RAW demo_frame demo_ts "[pkt]"]
    by (auto simp: parser_packets_def)
  then have f: "filter (wanted ''*'') [message_new pkt] = [message_new pkt]"
    by (simp add: wanted_def conn_filter_def message_new_def)
  have found: "obj_messages demo_snap demo_ntop demo_tcp (concat [[(demo_frame, demo_ts)]]) (sn_parser ?s) = ([message_new pkt], False, SimpleObj SmartP DLT_RAW)"
    by (simp add: sniffer_new_def p)
  obtain s' where r: "capture_run demo_ts (sniffer_cb demo_snap demo_ntop demo_tcp) [(EcOk, [Got demo_frame demo_ts, NoData])] ?s = (True, s')"
    using capture_run_batches [of demo_ts demo_snap demo_ntop demo_tcp "[[(demo_frame, demo_ts)]]" "[]" ?s]
    by (simp add: got_def)
  then have r': "capture_run demo_ts (sniffer_cb demo_snap demo_ntop demo_tcp)
      (map (\<lambda>fs. (EcOk, map got fs @ [NoData])) [[(demo_frame, demo_ts)]]) ?s = (True, s')" by (simp add: got_def)
  have h: "handled (map HandlePacket (sn_notified s')) @ [] = sn_notified s'" by (simp add: handled_map)
  have "sn_notified ?s = []" by (simp add: sniffer_new_def)
  from capture_reaches_client [OF this found r' h refl refl, where flt = "''*''" and junk = 0 and isostr = "\<lambda>_. ''t''"] r f
  show ?thesis by (intro exI [of _ s'] exI [of _ "message_new pkt"]) (auto simp: Let_def sent_whole_def)
qed

end
